(* ===== verification/Prelude.thy ===== *)
theory Prelude
  imports Main "HOL-Library.Word"
begin

text \<open>
  Shared vocabulary of the development: the Python exceptions as values, the result type of a
  call that may raise, bytes and byte buffers, little-endian integers in a buffer, the slice
  operations of \<open>memoryview\<close> and \<open>bytearray\<close>, and the rounding arithmetic
  that several components use.

  Buffers are lists of 8-bit words. The wheels of the program are built for little-endian Linux
  targets (x86\_64 and aarch64), so a native integer in a buffer is little-endian here.
\<close>

section \<open>Collections of rules\<close>

named_theorems buf_simps \<open>reads and writes of integers in a byte buffer\<close>
named_theorems res_simps \<open>results of calls that may raise\<close>

section \<open>Types\<close>

type_synonym u8 = "8 word"
type_synonym u32 = "32 word"
type_synonym u64 = "64 word"
type_synonym bytes = "u8 list"

datatype pyexc =
    ValueError
  | TypeError
  | AttributeError
  | OverflowError
  | RuntimeError
  | ZeroDivisionError
  | BufferError
  | NameError
  | UnicodeDecodeError
  | UnicodeEncodeError
  | FileNotFoundError
  | FileExistsError
  | OSError nat
  | NoShmFoundError

type_synonym 'a res = "pyexc + 'a"

fun res_bind :: "'a res \<Rightarrow> ('a \<Rightarrow> 'b res) \<Rightarrow> 'b res" where
  "res_bind (Inl e) k = Inl e"
| "res_bind (Inr x) k = k x"

fun is_ok :: "'a res \<Rightarrow> bool" where
  "is_ok (Inl e) = False"
| "is_ok (Inr x) = True"

section \<open>Little-endian integers\<close>

fun enc_le :: "nat \<Rightarrow> nat \<Rightarrow> bytes" where
  "enc_le 0 v = []"
| "enc_le (Suc n) v = of_nat v # enc_le n (v div 256)"

fun dec_le :: "bytes \<Rightarrow> nat" where
  "dec_le [] = 0"
| "dec_le (b # bs) = unat b + 256 * dec_le bs"

definition pyslice :: "'a list \<Rightarrow> nat \<Rightarrow> nat \<Rightarrow> 'a list" where
  \<comment> \<open>\<open>xs[a:b]\<close> for \<open>0 \<le> a\<close> and \<open>0 \<le> b\<close>: clipped to the length\<close>
  "pyslice xs a b = take (b - a) (drop a xs)"

definition overwrite :: "'a list \<Rightarrow> nat \<Rightarrow> 'a list \<Rightarrow> 'a list" where
  \<comment> \<open>overwrite \<open>length ys\<close> cells from index \<open>a\<close> on\<close>
  "overwrite xs a ys = take a xs @ ys @ drop (a + length ys) xs"

definition bytearray_setslice :: "'a list \<Rightarrow> nat \<Rightarrow> nat \<Rightarrow> 'a list \<Rightarrow> 'a list" where
  \<comment> \<open>\<open>bytearray[a:b] = ys\<close>: the cells of the slice are replaced, the array is resized\<close>
  "bytearray_setslice xs a b ys = take a xs @ ys @ drop (max a b) xs"

definition memoryview_setslice :: "'a list \<Rightarrow> nat \<Rightarrow> nat \<Rightarrow> 'a list \<Rightarrow> 'a list res" where
  \<comment> \<open>\<open>memoryview[a:b] = ys\<close>: refused unless the (clipped) slice has the length of \<open>ys\<close>\<close>
  "memoryview_setslice xs a b ys =
     (if length (pyslice xs a b) = length ys then Inr (overwrite xs a ys) else Inl ValueError)"

definition u32_at :: "bytes \<Rightarrow> nat \<Rightarrow> u32" where
  "u32_at m off = of_nat (dec_le (pyslice m off (off + 4)))"

definition u32_put :: "nat \<Rightarrow> u32 \<Rightarrow> bytes \<Rightarrow> bytes" where
  "u32_put off v m = overwrite m off (enc_le 4 (unat v))"

definition u64_at :: "bytes \<Rightarrow> nat \<Rightarrow> u64" where
  "u64_at m off = of_nat (dec_le (pyslice m off (off + 8)))"

definition u64_put :: "nat \<Rightarrow> u64 \<Rightarrow> bytes \<Rightarrow> bytes" where
  "u64_put off v m = overwrite m off (enc_le 8 (unat v))"

section \<open>Rounding up to a multiple\<close>

definition round_up :: "int \<Rightarrow> int \<Rightarrow> int" where
  \<comment> \<open>\<open>(n + a - 1) // a * a\<close>\<close>
  "round_up n a = (n + a - 1) div a * a"

section \<open>Lemmas on results\<close>

lemma res_bind_eq_Inr [res_simps]:
  "res_bind r k = Inr y \<longleftrightarrow> (\<exists>x. r = Inr x \<and> k x = Inr y)"
  by (cases r) auto

lemma res_bind_eq_Inl [res_simps]:
  "res_bind r k = Inl e \<longleftrightarrow> r = Inl e \<or> (\<exists>x. r = Inr x \<and> k x = Inl e)"
  by (cases r) auto

section \<open>Lemmas on little-endian integers\<close>

lemma unat_u8_less: "unat (b :: u8) < 256"
  using unsigned_less [of b, where 'a = nat] by simp

lemma unat_u32_less: "unat (v :: u32) < 4294967296"
  using unsigned_less [of v, where 'a = nat] by simp

lemma unat_u64_less: "unat (v :: u64) < 18446744073709551616"
  using unsigned_less [of v, where 'a = nat] by simp

lemma length_enc_le [simp]: "length (enc_le n v) = n"
  by (induction n arbitrary: v) auto

lemma enc_le_numeral [simp]:
  "enc_le (numeral k) v = of_nat v # enc_le (pred_numeral k) (v div 256)"
  by (simp only: numeral_eq_Suc [of k] enc_le.simps)

lemma dec_le_bound: "dec_le bs < 256 ^ length bs"
proof (induction bs)
  case Nil
  show ?case by simp
next
  case (Cons b bs)
  have "unat b < 256" by (rule unat_u8_less)
  moreover have "256 * dec_le bs + 256 \<le> 256 * 256 ^ length bs"
    using Cons.IH by simp
  ultimately show ?case by simp
qed

lemma dec_le_zeros [simp]: "dec_le (replicate n 0) = 0"
  by (induction n) auto

lemma dec_enc_le [buf_simps]: "dec_le (enc_le n v) = v mod 256 ^ n"
  by (induction n arbitrary: v) (auto simp: unat_of_nat mod_mult2_eq)

lemma enc_dec_le [buf_simps]: "enc_le (length bs) (dec_le bs) = bs"
proof (induction bs)
  case Nil
  show ?case by simp
next
  case (Cons b bs)
  have b: "unat b < 256" by (rule unat_u8_less)
  have "of_nat (unat b + 256 * dec_le bs) = b"
  proof -
    have "(of_nat (256 * dec_le bs) :: u8) = of_nat 256 * of_nat (dec_le bs)"
      by (simp only: of_nat_mult)
    also have "(of_nat 256 :: u8) = 0" by simp
    finally show ?thesis by simp
  qed
  moreover have "(unat b + 256 * dec_le bs) div 256 = dec_le bs" using b by simp
  ultimately show ?case using Cons.IH by simp
qed

section \<open>Lemmas on slices\<close>

lemma length_pyslice [simp]: "length (pyslice xs a b) = min (b - a) (length xs - a)"
  by (simp add: pyslice_def)

lemma length_overwrite [simp]: "a + length ys \<le> length xs \<Longrightarrow> length (overwrite xs a ys) = length xs"
  by (simp add: overwrite_def)

lemma nth_overwrite:
  "a + length ys \<le> length xs \<Longrightarrow> i < length xs \<Longrightarrow>
    overwrite xs a ys ! i = (if a \<le> i \<and> i < a + length ys then ys ! (i - a) else xs ! i)"
  by (auto simp: overwrite_def nth_append min_def)

lemma nth_pyslice: "i < b - a \<Longrightarrow> a + i < length xs \<Longrightarrow> pyslice xs a b ! i = xs ! (a + i)"
  by (simp add: pyslice_def)

lemma slice_overwrite_same [simp]:
  "a + length ys \<le> length xs \<Longrightarrow> b = a + length ys \<Longrightarrow> pyslice (overwrite xs a ys) a b = ys"
  by (simp add: pyslice_def overwrite_def)

lemma slice_overwrite_other:
  assumes "a + length ys \<le> length xs" and "d \<le> a \<or> a + length ys \<le> c"
  shows "pyslice (overwrite xs a ys) c d = pyslice xs c d"
proof (rule nth_equalityI)
  show "length (pyslice (overwrite xs a ys) c d) = length (pyslice xs c d)"
    using assms(1) by simp
next
  fix i assume "i < length (pyslice (overwrite xs a ys) c d)"
  then have i: "i < d - c" "c + i < length xs" using assms(1) by auto
  then show "pyslice (overwrite xs a ys) c d ! i = pyslice xs c d ! i"
    using assms by (auto simp: nth_pyslice nth_overwrite)
qed

lemma slice_overwrite_inside:
  assumes "a + length ys \<le> length xs" and "a \<le> c" and "d \<le> a + length ys"
  shows "pyslice (overwrite xs a ys) c d = pyslice ys (c - a) (d - a)"
  using assms by (intro nth_equalityI) (auto simp: nth_pyslice nth_overwrite)

lemma slice_slice:
  "pyslice (pyslice xs a b) c d = pyslice xs (a + c) (min (a + d) b)"
proof (rule nth_equalityI)
  show "length (pyslice (pyslice xs a b) c d) = length (pyslice xs (a + c) (min (a + d) b))"
    by (simp add: min_def)
next
  fix i assume "i < length (pyslice (pyslice xs a b) c d)"
  then have i: "i < d - c" "c + i < b - a" "a + c + i < length xs" by auto
  then show "pyslice (pyslice xs a b) c d ! i = pyslice xs (a + c) (min (a + d) b) ! i"
    by (simp add: nth_pyslice add.assoc)
qed

lemma slice_snoc:
  assumes "pyslice xs a (a + n) = ys" and "length ys = n" and "a + n < length xs"
  shows "pyslice (overwrite xs (a + n) [v]) a (Suc (a + n)) = ys @ [v]"
proof (rule nth_equalityI)
  show "length (pyslice (overwrite xs (a + n) [v]) a (Suc (a + n))) = length (ys @ [v])"
    using assms by simp
next
  fix i assume "i < length (pyslice (overwrite xs (a + n) [v]) a (Suc (a + n)))"
  then have i: "i \<le> n" using assms(3) by simp
  have "xs ! (a + i) = ys ! i" if "i < n"
    using that assms nth_pyslice [of i "a + n" a xs] by simp
  with i show "pyslice (overwrite xs (a + n) [v]) a (Suc (a + n)) ! i = (ys @ [v]) ! i"
    using assms by (auto simp: nth_pyslice nth_overwrite nth_append)
qed

lemma list_update_overwrite: "i < length xs \<Longrightarrow> xs[i := v] = overwrite xs i [v]"
  by (simp add: overwrite_def upd_conv_take_nth_drop)

lemma overwrite_append:
  "a + length ys + length zs \<le> length xs \<Longrightarrow>
    overwrite (overwrite xs a ys) (a + length ys) zs = overwrite xs a (ys @ zs)"
  by (rule nth_equalityI) (auto simp: nth_overwrite nth_append)

lemma overwrite_slice_id: "b \<le> length xs \<Longrightarrow> a \<le> b \<Longrightarrow> overwrite xs a (pyslice xs a b) = xs"
  by (rule nth_equalityI) (auto simp: nth_overwrite nth_pyslice)

lemma bytearray_setslice_same:
  "a + length ys \<le> length xs \<Longrightarrow> bytearray_setslice xs a (a + length ys) ys = overwrite xs a ys"
  by (simp add: bytearray_setslice_def overwrite_def max_def)

lemma length_bytearray_setslice:
  "a \<le> b \<Longrightarrow> b \<le> length xs \<Longrightarrow>
    length (bytearray_setslice xs a b ys) + (b - a) = length xs + length ys"
  by (simp add: bytearray_setslice_def)

lemma memoryview_setslice_ok [res_simps]:
  "a + length ys \<le> length xs \<Longrightarrow>
    memoryview_setslice xs a (a + length ys) ys = Inr (overwrite xs a ys)"
  by (simp add: memoryview_setslice_def)

section \<open>Integer cells of a buffer\<close>

text \<open>
  The interface of a cell of \<open>sz\<close> bytes: a write is read back, keeps the length and every
  byte outside the cell, and a read depends on the bytes of the cell only. Two cells at disjoint
  offsets do not disturb each other (\<open>two_cells\<close>).
\<close>

locale cell =
  fixes rd :: "bytes \<Rightarrow> nat \<Rightarrow> 'v" and wr :: "nat \<Rightarrow> 'v \<Rightarrow> bytes \<Rightarrow> bytes" and sz :: nat
  assumes rd_wr: "off + sz \<le> length m \<Longrightarrow> rd (wr off v m) off = v"
    and length_wr: "off + sz \<le> length m \<Longrightarrow> length (wr off v m) = length m"
    and slice_wr: "off + sz \<le> length m \<Longrightarrow> d \<le> off \<or> off + sz \<le> c \<Longrightarrow>
      pyslice (wr off v m) c d = pyslice m c d"
    and rd_slice: "pyslice m off (off + sz) = pyslice m' off' (off' + sz) \<Longrightarrow> rd m off = rd m' off'"
begin

lemma rd_overwrite_other:
  "a + length ys \<le> length m \<Longrightarrow> p + sz \<le> a \<or> a + length ys \<le> p \<Longrightarrow> rd (overwrite m a ys) p = rd m p"
  by (rule rd_slice) (simp add: slice_overwrite_other)

end

locale two_cells = c1: cell rd1 wr1 sz1 + c2: cell rd2 wr2 sz2
  for rd1 :: "bytes \<Rightarrow> nat \<Rightarrow> 'v" and wr1 sz1 and rd2 :: "bytes \<Rightarrow> nat \<Rightarrow> 'w" and wr2 sz2
begin

lemma rd_wr_other:
  "off + sz2 \<le> length m \<Longrightarrow> p + sz1 \<le> off \<or> off + sz2 \<le> p \<Longrightarrow> rd1 (wr2 off v m) p = rd1 m p"
  by (rule c1.rd_slice) (simp add: c2.slice_wr)

end

interpretation u32: cell u32_at u32_put 4
proof unfold_locales
  fix off m v assume "off + 4 \<le> length (m :: bytes)"
  then show "u32_at (u32_put off v m) off = v"
    using unat_u32_less [of v]
    by (simp add: u32_at_def u32_put_def dec_enc_le del: enc_le_numeral)
qed (simp_all add: u32_at_def u32_put_def slice_overwrite_other del: enc_le_numeral)

interpretation u64: cell u64_at u64_put 8
proof unfold_locales
  fix off m v assume "off + 8 \<le> length (m :: bytes)"
  then show "u64_at (u64_put off v m) off = v"
    using unat_u64_less [of v]
    by (simp add: u64_at_def u64_put_def dec_enc_le del: enc_le_numeral)
qed (simp_all add: u64_at_def u64_put_def slice_overwrite_other del: enc_le_numeral)

interpretation u32_32: two_cells u32_at u32_put 4 u32_at u32_put 4 by unfold_locales
interpretation u32_64: two_cells u32_at u32_put 4 u64_at u64_put 8 by unfold_locales
interpretation u64_32: two_cells u64_at u64_put 8 u32_at u32_put 4 by unfold_locales
interpretation u64_64: two_cells u64_at u64_put 8 u64_at u64_put 8 by unfold_locales

declare u32.rd_wr [buf_simps] u32.length_wr [buf_simps, simp] u32.slice_wr [buf_simps]
  u64.rd_wr [buf_simps] u64.length_wr [buf_simps, simp] u64.slice_wr [buf_simps]
  u32.rd_overwrite_other [buf_simps] u64.rd_overwrite_other [buf_simps]
  u32_32.rd_wr_other [buf_simps] u32_64.rd_wr_other [buf_simps]
  u64_32.rd_wr_other [buf_simps] u64_64.rd_wr_other [buf_simps]

section \<open>Lemmas on rounding\<close>

lemma round_up_dvd: "a dvd round_up n a"
  by (simp add: round_up_def)

lemma round_up_ge: "0 < a \<Longrightarrow> n \<le> round_up n a"
proof -
  assume a: "0 < a"
  have "n + a - 1 = (n + a - 1) div a * a + (n + a - 1) mod a" by simp
  moreover have "(n + a - 1) mod a \<le> a - 1" using a pos_mod_bound [of a "n + a - 1"] by simp
  ultimately show ?thesis unfolding round_up_def by linarith
qed

lemma round_up_less: "0 < a \<Longrightarrow> round_up n a < n + a"
proof -
  assume a: "0 < a"
  have "n + a - 1 = (n + a - 1) div a * a + (n + a - 1) mod a" by simp
  moreover have "0 \<le> (n + a - 1) mod a" using a by simp
  ultimately show ?thesis unfolding round_up_def by linarith
qed

lemma round_up_least: "0 < a \<Longrightarrow> a dvd m \<Longrightarrow> n \<le> m \<Longrightarrow> round_up n a \<le> m"
proof -
  assume a: "0 < a" and dvd: "a dvd m" and nm: "n \<le> m"
  from dvd obtain k where k: "m = a * k" by blast
  have "round_up n a < a * k + a" using round_up_less [OF a, of n] nm k by simp
  moreover have "round_up n a = a * ((n + a - 1) div a)" by (simp add: round_up_def)
  ultimately have "a * ((n + a - 1) div a) < a * (k + 1)" by (simp add: algebra_simps)
  then have "(n + a - 1) div a < k + 1" using a by (simp add: mult_less_cancel_left)
  then have "(n + a - 1) div a \<le> k" by simp
  then show ?thesis using a k by (simp add: round_up_def mult.commute)
qed

end
