(* ===== verification/Futex.thy ===== *)
theory Futex
  imports Prelude
begin

text \<open>
  The futex word (\<open>FutexWord\<close>) and what the primitives use of the kernel: the value a futex
  system call returns, the queue of threads that sleep on a word, and the contract of
  \<open>FUTEX_WAKE\<close> as the locale \<open>futex_kernel\<close>. The choice of the threads that a wake
  removes from the queue is the kernel's, so it is an argument \<open>wk\<close> of every definition
  that uses it: \<open>wk n q\<close> is what is left of the queue \<open>q\<close> after a wake of at
  most \<open>n\<close> threads.
\<close>

section \<open>Conversions of the C extension's argument parser\<close>

text \<open>
  \<open>PyArg_ParseTuple\<close>: the formats \<open>I\<close>, \<open>k\<close> and \<open>K\<close> convert a
  Python integer without an overflow check (to 32, 64 and 64 bits), the formats \<open>i\<close> and
  \<open>L\<close> raise \<open>OverflowError\<close> outside \<open>int\<close> and \<open>long long\<close>.
\<close>

definition arg_I :: "int \<Rightarrow> u32" where
  "arg_I v = word_of_int v"

definition arg_k :: "int \<Rightarrow> u64" where
  "arg_k v = word_of_int v"

definition arg_i :: "int \<Rightarrow> int res" where
  "arg_i v = (if - (2 ^ 31) \<le> v \<and> v < 2 ^ 31 then Inr v else Inl OverflowError)"

definition arg_L :: "int \<Rightarrow> int res" where
  "arg_L v = (if - (2 ^ 63) \<le> v \<and> v < 2 ^ 63 then Inr v else Inl OverflowError)"

section \<open>Buffers and errno values\<close>

record bufview =
  v_base :: nat   \<comment> \<open>address of the mapping\<close>
  v_off :: nat    \<comment> \<open>offset of the view in the mapping\<close>
  v_len :: nat

definition v_addr :: "bufview \<Rightarrow> nat" where
  "v_addr v = v_base v + v_off v"

abbreviation (input) EPERM :: nat where "EPERM \<equiv> 1"
abbreviation (input) ENOENT :: nat where "ENOENT \<equiv> 2"
abbreviation (input) EINTR :: nat where "EINTR \<equiv> 4"
abbreviation (input) EAGAIN :: nat where "EAGAIN \<equiv> 11"
abbreviation (input) EEXIST :: nat where "EEXIST \<equiv> 17"
abbreviation (input) ETIMEDOUT :: nat where "ETIMEDOUT \<equiv> 110"

text \<open>
  What a futex system call returned: \<open>FUTEX_WAIT\<close> gives 0, \<open>FUTEX_WAKE\<close> a count,
  and both may give \<open>-1\<close> with \<open>errno\<close>.
\<close>

datatype waitret = WaitOk | WaitErr nat
datatype wakeret = WakeRet nat | WakeErr nat

section \<open>The FutexWord object\<close>

record FutexWord =
  fw_uaddr :: nat   \<comment> \<open>offset of the word in the mapping\<close>
  fw_shared :: bool

definition FutexWord_init :: "bufview \<Rightarrow> bool \<Rightarrow> FutexWord res" where
  "FutexWord_init view sh =
     (if v_len view < 4 \<or> v_addr view mod 4 \<noteq> 0 then Inl ValueError
      else Inr \<lparr>fw_uaddr = v_off view, fw_shared = sh\<rparr>)"

definition timespec :: "int \<Rightarrow> (int \<times> int) option" where
  "timespec timeout_ns =
     (if timeout_ns \<ge> 0 then Some (timeout_ns div 1000000000, timeout_ns mod 1000000000) else None)"

text \<open>
  The wait loop over the answers that the successive system calls give; \<open>None\<close>: no answer
  yet, the call is still blocked.
\<close>

fun FutexWord_wait_loop :: "bool \<Rightarrow> waitret list \<Rightarrow> bool res option" where
  "FutexWord_wait_loop fin [] = None"
| "FutexWord_wait_loop fin (WaitOk # rs) = Some (Inr True)"
| "FutexWord_wait_loop fin (WaitErr e # rs) =
     (if e = EAGAIN then Some (Inr False)
      else if e = ETIMEDOUT then Some (Inr False)
      else if e = EINTR then
        (if fin then Some (Inr False) else FutexWord_wait_loop fin rs)
      else Some (Inl (OSError e)))"

definition FutexWord_wait :: "int \<Rightarrow> waitret list \<Rightarrow> bool res option" where
  "FutexWord_wait timeout_ns answers =
     (case arg_L timeout_ns of
        Inl e \<Rightarrow> Some (Inl e)
      | Inr t \<Rightarrow> FutexWord_wait_loop (timespec t \<noteq> None) answers)"

definition FutexWord_wake :: "int \<Rightarrow> (int \<Rightarrow> wakeret) \<Rightarrow> int res" where
  "FutexWord_wake n futex_wake_sys =
     res_bind (arg_i n) (\<lambda>n.
       case futex_wake_sys n of WakeRet k \<Rightarrow> Inr (int k) | WakeErr e \<Rightarrow> Inl (OSError e))"

definition FutexWord_load_acquire :: "FutexWord \<Rightarrow> bytes \<Rightarrow> int" where
  "FutexWord_load_acquire self mem = uint (u32_at mem (fw_uaddr self))"

definition FutexWord_store_release :: "FutexWord \<Rightarrow> int \<Rightarrow> bytes \<Rightarrow> bytes" where
  "FutexWord_store_release self v mem = u32_put (fw_uaddr self) (arg_I v) mem"

section \<open>The kernel's queue of sleeping threads\<close>

type_synonym tid = nat
type_synonym wakefn = "nat \<Rightarrow> tid list \<Rightarrow> tid list"

datatype fut_event = Answered | Interrupted | TimedOut

locale futex_kernel =
  fixes wk :: wakefn
  assumes wake_subset: "set (wk n q) \<subseteq> set q"
    and wake_distinct: "distinct q \<Longrightarrow> distinct (wk n q)"
    and wake_count: "length (wk n q) = length q - n"
begin

lemma wake_all: "length q \<le> n \<Longrightarrow> wk n q = []"
  using wake_count [of n q] by simp

lemma wake_some:
  assumes "q \<noteq> []" and "0 < n" and "distinct q"
  obtains t where "t \<in> set q" and "t \<notin> set (wk n q)"
proof -
  have "card (set (wk n q)) < card (set q)"
    using assms wake_distinct [of q n] wake_count [of n q]
    by (simp add: distinct_card)
  then have "\<not> set q \<subseteq> set (wk n q)"
    using card_mono [of "set (wk n q)" "set q"] by auto
  then show ?thesis using that by blast
qed

end

definition fifo_wake :: wakefn where
  "fifo_wake n q = drop n q"

interpretation fifo: futex_kernel fifo_wake
  by unfold_locales (auto simp: fifo_wake_def dest: in_set_dropD)

section \<open>Lemmas\<close>

lemma timespec_normal:
  "timespec t = Some (s, ns) \<Longrightarrow> 0 \<le> ns \<and> ns < 1000000000 \<and> 0 \<le> s \<and> s * 1000000000 + ns = t"
  by (auto simp: timespec_def split: if_splits)

lemma FutexWord_wait_loop_finite:
  "FutexWord_wait_loop True (r # rs) = FutexWord_wait_loop True [r] \<and>
   FutexWord_wait_loop True [r] \<noteq> None"
  by (cases r) auto

lemma FutexWord_wait_loop_retries:
  "FutexWord_wait_loop False (replicate k (WaitErr EINTR) @ rs) = FutexWord_wait_loop False rs"
  by (induction k) auto

lemma FutexWord_wait_loop_returns:
  "\<exists>r \<in> set rs. r \<noteq> WaitErr EINTR \<Longrightarrow> \<exists>v. FutexWord_wait_loop fin rs = Some v"
proof (induction rs)
  case Nil
  then show ?case by simp
next
  case (Cons r rs)
  then show ?case by (cases r) force+
qed

end
