(* ===== verification/Transition.thy ===== *)
theory Transition
  imports Main
begin

text \<open>
  Transition systems: the states reachable from an initial predicate by a step relation, the
  interface \<open>inductive_invariant\<close> (an invariant that the initial states have and every
  step keeps) and the interface \<open>forward_simulation\<close> (a concrete system whose steps are
  steps of an abstract one). The concurrent primitives (Mutex, Semaphore, NamedEvent) provide
  both on their own step relations.
\<close>

inductive reach :: "('s \<Rightarrow> bool) \<Rightarrow> ('s \<Rightarrow> 's \<Rightarrow> bool) \<Rightarrow> 's \<Rightarrow> bool"
  for init :: "'s \<Rightarrow> bool" and step :: "'s \<Rightarrow> 's \<Rightarrow> bool" where
  reach_init: "init s \<Longrightarrow> reach init step s"
| reach_step: "reach init step s \<Longrightarrow> step s s' \<Longrightarrow> reach init step s'"

inductive_cases reach_cases [elim]: "reach init step s"

lemma reach_mono:
  assumes "reach init step s" and "\<And>s s'. step s s' \<Longrightarrow> step' s s'"
  shows "reach init step' s"
  using assms(1) by (induction rule: reach.induct) (auto intro: reach.intros assms(2))

lemma reach_init_mono:
  assumes "reach init step s" and "P" and "\<And>s. P \<Longrightarrow> init s \<Longrightarrow> init' s"
  shows "reach init' step s"
  using assms(1) by (induction rule: reach.induct) (auto intro: reach.intros assms(2,3))

locale inductive_invariant =
  fixes init :: "'s \<Rightarrow> bool"
    and step :: "'s \<Rightarrow> 's \<Rightarrow> bool"
    and inv :: "'s \<Rightarrow> bool"
  assumes init_inv: "init s \<Longrightarrow> inv s"
    and step_inv: "inv s \<Longrightarrow> step s s' \<Longrightarrow> inv s'"
begin

lemma reach_inv: "reach init step s \<Longrightarrow> inv s"
  by (induction rule: reach.induct) (auto intro: init_inv step_inv)

lemma reach_inv_step: "reach init step s \<Longrightarrow> step s s' \<Longrightarrow> inv s'"
  by (rule step_inv [OF reach_inv])

end

locale forward_simulation = inductive_invariant init step inv
  for init :: "'c \<Rightarrow> bool" and step :: "'c \<Rightarrow> 'c \<Rightarrow> bool" and inv :: "'c \<Rightarrow> bool" +
  fixes ainit :: "'a \<Rightarrow> bool"
    and astep :: "'a \<Rightarrow> 'a \<Rightarrow> bool"
    and R :: "'a \<Rightarrow> 'c \<Rightarrow> bool"
  assumes sim_init: "init c \<Longrightarrow> \<exists>a. ainit a \<and> R a c"
    and sim_step: "R a c \<Longrightarrow> inv c \<Longrightarrow> step c c' \<Longrightarrow> \<exists>a'. (a' = a \<or> astep a a') \<and> R a' c'"
begin

lemma reach_simulated: "reach init step c \<Longrightarrow> \<exists>a. reach ainit astep a \<and> R a c"
proof (induction rule: reach.induct)
  case (reach_init c)
  then show ?case by (blast dest: sim_init intro: reach.reach_init)
next
  case (reach_step c c')
  then obtain a where a: "reach ainit astep a" "R a c" by blast
  with reach_step.hyps obtain a' where "a' = a \<or> astep a a'" "R a' c'"
    using sim_step reach_inv by blast
  with a show ?case by (blast intro: reach.reach_step)
qed

end

end
