(* ===== verification/Mutex.thy ===== *)
theory Mutex
  imports Futex Transition
begin

text \<open>
  \<open>fastipc._primitives.Mutex\<close>: the 64-byte header, and every method as a machine of the
  atomic actions of its C function on the shared header. A thread between two calls is at
  \<open>Out r\<close> (with the result \<open>r\<close> of its last call); a call in progress is at the
  next action of its function. Each action is one atomic load, store, exchange or
  compare-and-swap of the C code, or one futex system call, so a run of the system is any
  interleaving the scheduler can choose.

  Three choices of the environment are arguments of a step (\<open>mx_env\<close>): the clock, whether
  a weak compare-and-swap fails spuriously, and what happens to a thread that sleeps in the
  kernel. Which sleeping threads a wake removes from the queue is the kernel's choice
  \<open>wk\<close>. \<open>ms_holds\<close> is an auxiliary variable: it records the threads that won
  the state word and have not given it back, and no action reads it.
\<close>

section \<open>The header\<close>

record mutex64 =
  mx_magic :: u32
  mx_flags :: u32
  mx_state :: u32
  mx_owner :: u32
  mx_last_ns :: u64

definition MUTEX64_SIZE :: nat where "MUTEX64_SIZE = 64"
definition MUTEX_MAGIC :: u32 where "MUTEX_MAGIC = 0x4D555458"
definition MUTEX_OFF_MAGIC :: nat where "MUTEX_OFF_MAGIC = 0"
definition MUTEX_OFF_FLAGS :: nat where "MUTEX_OFF_FLAGS = 4"
definition MUTEX_OFF_STATE :: nat where "MUTEX_OFF_STATE = 8"
definition MUTEX_OFF_OWNER :: nat where "MUTEX_OFF_OWNER = 12"
definition MUTEX_OFF_LASTNS :: nat where "MUTEX_OFF_LASTNS = 16"

definition mutex64_at :: "bytes \<Rightarrow> nat \<Rightarrow> mutex64" where
  "mutex64_at mem base =
     \<lparr>mx_magic = u32_at mem (base + MUTEX_OFF_MAGIC),
      mx_flags = u32_at mem (base + MUTEX_OFF_FLAGS),
      mx_state = u32_at mem (base + MUTEX_OFF_STATE),
      mx_owner = u32_at mem (base + MUTEX_OFF_OWNER),
      mx_last_ns = u64_at mem (base + MUTEX_OFF_LASTNS)\<rparr>"

definition u32_store_rel :: "nat \<Rightarrow> nat \<Rightarrow> u32 \<Rightarrow> bytes \<Rightarrow> bytes" where
  "u32_store_rel base off v mem = u32_put (base + off) v mem"

definition u32_load_acq :: "nat \<Rightarrow> nat \<Rightarrow> bytes \<Rightarrow> u32" where
  "u32_load_acq base off mem = u32_at mem (base + off)"

definition u32_xchg_rel :: "nat \<Rightarrow> nat \<Rightarrow> u32 \<Rightarrow> bytes \<Rightarrow> u32 \<times> bytes" where
  "u32_xchg_rel base off v mem = (u32_at mem (base + off), u32_put (base + off) v mem)"

definition u32_cas_acqrel :: "nat \<Rightarrow> nat \<Rightarrow> u32 \<Rightarrow> u32 \<Rightarrow> bytes \<Rightarrow> bool \<times> bytes" where
  "u32_cas_acqrel base off expected desired mem =
     (if u32_at mem (base + off) = expected then (True, u32_put (base + off) desired mem)
      else (False, mem))"

definition u64_store_rel_unaligned :: "nat \<Rightarrow> nat \<Rightarrow> u64 \<Rightarrow> bytes \<Rightarrow> bytes" where
  "u64_store_rel_unaligned base off v mem = u64_put (base + off) v mem"

definition u64_load_acq_unaligned :: "nat \<Rightarrow> nat \<Rightarrow> bytes \<Rightarrow> u64" where
  "u64_load_acq_unaligned base off mem = u64_at mem (base + off)"

definition now_realtime_ns :: "u64 \<Rightarrow> u64 \<Rightarrow> u64" where
  "now_realtime_ns tv_sec tv_nsec = tv_sec * 1000000000 + tv_nsec"

record FutexMutex =
  fm_base :: nat     \<comment> \<open>offset of the header in the mapping\<close>
  fm_shared :: bool

definition FutexMutex_init :: "bufview \<Rightarrow> bool \<Rightarrow> bytes \<Rightarrow> (FutexMutex \<times> bytes) res" where
  "FutexMutex_init view sh mem =
     (if v_len view < MUTEX64_SIZE \<or> v_addr view mod 4 \<noteq> 0 then Inl ValueError
      else Inr (\<lparr>fm_base = v_off view, fm_shared = sh\<rparr>,
                u32_store_rel (v_off view) MUTEX_OFF_MAGIC MUTEX_MAGIC mem))"

definition FutexMutex_owner_pid :: "FutexMutex \<Rightarrow> bytes \<Rightarrow> int" where
  "FutexMutex_owner_pid self mem = uint (u32_load_acq (fm_base self) MUTEX_OFF_OWNER mem)"

definition FutexMutex_last_acquired_ns :: "FutexMutex \<Rightarrow> bytes \<Rightarrow> int" where
  "FutexMutex_last_acquired_ns self mem =
     uint (u64_load_acq_unaligned (fm_base self) MUTEX_OFF_LASTNS mem)"

definition FutexMutex_magic :: "FutexMutex \<Rightarrow> bytes \<Rightarrow> int" where
  "FutexMutex_magic self mem = uint (u32_load_acq (fm_base self) MUTEX_OFF_MAGIC mem)"

section \<open>Calls, program points and the shared state\<close>

datatype mx_result = RetTrue | RetFalse | RetSelf | RetNone | RetRuntimeError

datatype acq_op =
    Acquire              \<comment> \<open>\<open>acquire()\<close>\<close>
  | AcquireNs int int    \<comment> \<open>\<open>acquire_ns(timeout_ns, spin)\<close>\<close>
  | TryAcquire           \<comment> \<open>\<open>try_acquire()\<close>\<close>
  | Enter                \<comment> \<open>\<open>__enter__()\<close>\<close>

datatype acq_pc =
    ACheck        \<comment> \<open>load the owner\<close>
  | ACas          \<comment> \<open>first compare-and-swap 0 to 1\<close>
  | ASpin nat     \<comment> \<open>head of the spin loop\<close>
  | ASpinCas nat  \<comment> \<open>weak compare-and-swap in the spin loop\<close>
  | AXchg         \<comment> \<open>exchange with 2\<close>
  | AWait         \<comment> \<open>about to call \<open>FUTEX_WAIT\<close> with 2\<close>
  | ASleep        \<comment> \<open>in the kernel\<close>
  | AOwner        \<comment> \<open>store the owner\<close>
  | AStamp        \<comment> \<open>store the time\<close>

datatype rel_pc =
    RCheck        \<comment> \<open>load the owner\<close>
  | RXchg         \<comment> \<open>exchange with 0\<close>
  | RClear u32    \<comment> \<open>clear the owner; the old state\<close>
  | RWake u32     \<comment> \<open>wake one waiter if the old state was 2\<close>

datatype mx_pc = Out mx_result | Acq acq_op acq_pc | Rel bool rel_pc

datatype mx_call = CallAcq acq_op | CallRelease | CallForceRelease

record mx_env =
  env_now :: u64
  env_weak_fail :: bool
  env_event :: fut_event

record mx_mem =
  ms_hdr :: mutex64
  ms_queue :: "tid list"
  ms_holds :: "tid \<Rightarrow> bool"

record mx_sys = mx_mem +
  ms_pc :: "tid \<Rightarrow> mx_pc"

abbreviation put_state :: "u32 \<Rightarrow> mx_mem \<Rightarrow> mx_mem" where
  "put_state v m \<equiv> m\<lparr>ms_hdr := (ms_hdr m)\<lparr>mx_state := v\<rparr>\<rparr>"

definition win :: "tid \<Rightarrow> u32 \<Rightarrow> mx_mem \<Rightarrow> mx_mem" where
  \<comment> \<open>the state word is now \<open>v\<close> and thread \<open>t\<close> won it\<close>
  "win t v m = (put_state v m)\<lparr>ms_holds := (ms_holds m)(t := True)\<rparr>"

definition give_back :: "tid \<Rightarrow> mx_mem \<Rightarrow> mx_mem" where
  "give_back t m = (put_state 0 m)\<lparr>ms_holds := (ms_holds m)(t := False)\<rparr>"

section \<open>The methods\<close>

text \<open>The tail that every successful acquisition runs: store the owner, then the time.\<close>

fun store_owner_step :: "mx_result \<Rightarrow> acq_op \<Rightarrow> u32 \<Rightarrow> mx_env \<Rightarrow> acq_pc \<Rightarrow> mx_mem \<Rightarrow>
    (mx_pc \<times> mx_mem) option" where
  "store_owner_step r a pid env AOwner m =
     Some (Acq a AStamp, m\<lparr>ms_hdr := (ms_hdr m)\<lparr>mx_owner := pid\<rparr>\<rparr>)"
| "store_owner_step r a pid env AStamp m =
     Some (Out r, m\<lparr>ms_hdr := (ms_hdr m)\<lparr>mx_last_ns := env_now env\<rparr>\<rparr>)"
| "store_owner_step r a pid env _ m = None"

text \<open>
  \<open>FUTEX_WAIT\<close> with the expected value 2: the kernel compares the word and queues the
  thread in one atomic action, and answers \<open>EAGAIN\<close> when the word differs. A thread that is
  no longer queued was woken; one that still is may be interrupted, time out or be answered
  spuriously, which takes it off the queue.
\<close>

definition futex_wait_call :: "acq_op \<Rightarrow> tid \<Rightarrow> mx_mem \<Rightarrow> mx_pc \<times> mx_mem" where
  "futex_wait_call a t m =
     (if mx_state (ms_hdr m) = 2 then (Acq a ASleep, m\<lparr>ms_queue := ms_queue m @ [t]\<rparr>)
      else (Acq a AXchg, m))"

definition futex_wait_return :: "bool \<Rightarrow> mx_env \<Rightarrow> tid \<Rightarrow> mx_mem \<Rightarrow>
    (waitret \<times> mx_mem) option" where
  "futex_wait_return finite_timeout env t m =
     (if t \<notin> set (ms_queue m) then Some (WaitOk, m)
      else (let m' = m\<lparr>ms_queue := remove1 t (ms_queue m)\<rparr> in
        case env_event env of
          Answered \<Rightarrow> Some (WaitOk, m')
        | Interrupted \<Rightarrow> Some (WaitErr EINTR, m')
        | TimedOut \<Rightarrow> (if finite_timeout then Some (WaitErr ETIMEDOUT, m') else None)))"

definition cas_state :: "acq_op \<Rightarrow> tid \<Rightarrow> mx_pc \<Rightarrow> mx_mem \<Rightarrow> mx_pc \<times> mx_mem" where
  \<comment> \<open>strong compare-and-swap of the state, 0 to 1; \<open>other\<close> is where a failure goes\<close>
  "cas_state a t other m =
     (if mx_state (ms_hdr m) = 0 then (Acq a AOwner, win t 1 m) else (other, m))"

definition xchg_state :: "acq_op \<Rightarrow> tid \<Rightarrow> mx_mem \<Rightarrow> mx_pc \<times> mx_mem" where
  "xchg_state a t m =
     (if mx_state (ms_hdr m) = 0 then (Acq a AOwner, win t 2 m)
      else (Acq a AWait, put_state 2 m))"

fun FutexMutex_try_acquire :: "u32 \<Rightarrow> mx_env \<Rightarrow> tid \<Rightarrow> acq_pc \<Rightarrow> mx_mem \<Rightarrow>
    (mx_pc \<times> mx_mem) option" where
  "FutexMutex_try_acquire pid env t ACas m = Some (cas_state TryAcquire t (Out RetFalse) m)"
| "FutexMutex_try_acquire pid env t pc m = store_owner_step RetTrue TryAcquire pid env pc m"

fun FutexMutex_acquire_fast :: "u32 \<Rightarrow> mx_env \<Rightarrow> tid \<Rightarrow> acq_pc \<Rightarrow> mx_mem \<Rightarrow>
    (mx_pc \<times> mx_mem) option" where
  "FutexMutex_acquire_fast pid env t ACheck m =
     Some (if mx_owner (ms_hdr m) = pid then Out RetRuntimeError else Acq Acquire ACas, m)"
| "FutexMutex_acquire_fast pid env t ACas m = Some (cas_state Acquire t (Acq Acquire AXchg) m)"
| "FutexMutex_acquire_fast pid env t AXchg m = Some (xchg_state Acquire t m)"
| "FutexMutex_acquire_fast pid env t AWait m = Some (futex_wait_call Acquire t m)"
| "FutexMutex_acquire_fast pid env t ASleep m =
     map_option (\<lambda>(r, m'). (Acq Acquire AXchg, m')) (futex_wait_return False env t m)"
| "FutexMutex_acquire_fast pid env t pc m = store_owner_step RetTrue Acquire pid env pc m"

fun FutexMutex_acquire_ns :: "int \<Rightarrow> int \<Rightarrow> u32 \<Rightarrow> mx_env \<Rightarrow> tid \<Rightarrow> acq_pc \<Rightarrow> mx_mem \<Rightarrow>
    (mx_pc \<times> mx_mem) option" where
  "FutexMutex_acquire_ns timeout_ns spin pid env t ACas m =
     Some (cas_state (AcquireNs timeout_ns spin) t (Acq (AcquireNs timeout_ns spin) (ASpin 0)) m)"
| "FutexMutex_acquire_ns timeout_ns spin pid env t (ASpin i) m =
     (let a = AcquireNs timeout_ns spin in
      if int i < spin then
        Some (if mx_state (ms_hdr m) = 0 then Acq a (ASpinCas i) else Acq a (ASpin (Suc i)), m)
      else if timeout_ns = 0 then Some (Out RetFalse, m)
      else Some (Acq a AXchg, m))"
| "FutexMutex_acquire_ns timeout_ns spin pid env t (ASpinCas i) m =
     (let a = AcquireNs timeout_ns spin in
      if env_weak_fail env then Some (Acq a (ASpin (Suc i)), m)
      else Some (cas_state a t (Acq a (ASpin (Suc i))) m))"
| "FutexMutex_acquire_ns timeout_ns spin pid env t AXchg m =
     Some (xchg_state (AcquireNs timeout_ns spin) t m)"
| "FutexMutex_acquire_ns timeout_ns spin pid env t AWait m =
     Some (futex_wait_call (AcquireNs timeout_ns spin) t m)"
| "FutexMutex_acquire_ns timeout_ns spin pid env t ASleep m =
     (case futex_wait_return (timeout_ns > 0) env t m of
        None \<Rightarrow> None
      | Some (r, m') \<Rightarrow>
          Some (if r = WaitErr ETIMEDOUT then Out RetFalse
                else if r = WaitErr EINTR \<and> timeout_ns > 0 then Out RetFalse
                else Acq (AcquireNs timeout_ns spin) AXchg, m'))"
| "FutexMutex_acquire_ns timeout_ns spin pid env t pc m =
     store_owner_step RetTrue (AcquireNs timeout_ns spin) pid env pc m"

fun FutexMutex_enter :: "u32 \<Rightarrow> mx_env \<Rightarrow> tid \<Rightarrow> acq_pc \<Rightarrow> mx_mem \<Rightarrow>
    (mx_pc \<times> mx_mem) option" where
  "FutexMutex_enter pid env t ACas m = Some (cas_state Enter t (Acq Enter (ASpin 0)) m)"
| "FutexMutex_enter pid env t (ASpin i) m =
     Some (if i < 16 then
             (if mx_state (ms_hdr m) = 0 then Acq Enter (ASpinCas i) else Acq Enter (ASpin (Suc i)))
           else Acq Enter AXchg, m)"
| "FutexMutex_enter pid env t (ASpinCas i) m =
     (if env_weak_fail env then Some (Acq Enter (ASpin (Suc i)), m)
      else Some (cas_state Enter t (Acq Enter (ASpin (Suc i))) m))"
| "FutexMutex_enter pid env t AXchg m = Some (xchg_state Enter t m)"
| "FutexMutex_enter pid env t AWait m = Some (futex_wait_call Enter t m)"
| "FutexMutex_enter pid env t ASleep m =
     map_option (\<lambda>(r, m'). (Acq Enter AXchg, m')) (futex_wait_return False env t m)"
| "FutexMutex_enter pid env t pc m = store_owner_step RetSelf Enter pid env pc m"

fun FutexMutex_force_release :: "wakefn \<Rightarrow> tid \<Rightarrow> rel_pc \<Rightarrow> mx_mem \<Rightarrow>
    (mx_pc \<times> mx_mem) option" where
  "FutexMutex_force_release wk t RXchg m =
     Some (Rel True (RClear (mx_state (ms_hdr m))), give_back t m)"
| "FutexMutex_force_release wk t (RClear prev) m =
     Some (Rel True (RWake prev), m\<lparr>ms_hdr := (ms_hdr m)\<lparr>mx_owner := 0\<rparr>\<rparr>)"
| "FutexMutex_force_release wk t (RWake prev) m =
     Some (Out RetNone, if prev = 2 then m\<lparr>ms_queue := wk 1 (ms_queue m)\<rparr> else m)"
| "FutexMutex_force_release wk t RCheck m = None"

fun FutexMutex_release :: "wakefn \<Rightarrow> u32 \<Rightarrow> tid \<Rightarrow> rel_pc \<Rightarrow> mx_mem \<Rightarrow>
    (mx_pc \<times> mx_mem) option" where
  "FutexMutex_release wk pid t RCheck m =
     Some (if mx_owner (ms_hdr m) \<noteq> pid then Out RetRuntimeError else Rel False RXchg, m)"
| "FutexMutex_release wk pid t RXchg m =
     Some (Rel False (RClear (mx_state (ms_hdr m))), give_back t m)"
| "FutexMutex_release wk pid t (RClear prev) m =
     Some (Rel False (RWake prev), m\<lparr>ms_hdr := (ms_hdr m)\<lparr>mx_owner := 0\<rparr>\<rparr>)"
| "FutexMutex_release wk pid t (RWake prev) m =
     Some (Out RetNone, if prev = 2 then m\<lparr>ms_queue := wk 1 (ms_queue m)\<rparr> else m)"

text \<open>The Python arguments of \<open>acquire_ns\<close> are converted before the call starts.\<close>

definition FutexMutex_acquire_ns_args :: "int \<Rightarrow> int \<Rightarrow> mx_call res" where
  "FutexMutex_acquire_ns_args timeout_ns spin =
     res_bind (arg_L timeout_ns) (\<lambda>tmo. res_bind (arg_i spin) (\<lambda>n. Inr (CallAcq (AcquireNs tmo n))))"

section \<open>The system of threads\<close>

fun mx_pc_step :: "wakefn \<Rightarrow> u32 \<Rightarrow> mx_env \<Rightarrow> tid \<Rightarrow> mx_pc \<Rightarrow> mx_mem \<Rightarrow>
    (mx_pc \<times> mx_mem) option" where
  "mx_pc_step wk pid env t (Out r) m = None"
| "mx_pc_step wk pid env t (Acq Acquire pc) m = FutexMutex_acquire_fast pid env t pc m"
| "mx_pc_step wk pid env t (Acq (AcquireNs timeout_ns spin) pc) m =
     FutexMutex_acquire_ns timeout_ns spin pid env t pc m"
| "mx_pc_step wk pid env t (Acq TryAcquire pc) m = FutexMutex_try_acquire pid env t pc m"
| "mx_pc_step wk pid env t (Acq Enter pc) m = FutexMutex_enter pid env t pc m"
| "mx_pc_step wk pid env t (Rel False pc) m = FutexMutex_release wk pid t pc m"
| "mx_pc_step wk pid env t (Rel True pc) m = FutexMutex_force_release wk t pc m"

fun mx_entry :: "mx_call \<Rightarrow> mx_pc" where
  "mx_entry (CallAcq Acquire) = Acq Acquire ACheck"
| "mx_entry (CallAcq a) = Acq a ACas"
| "mx_entry CallRelease = Rel False RCheck"
| "mx_entry CallForceRelease = Rel True RXchg"

datatype mx_event = EvCall tid mx_call | EvStep tid mx_env

definition with_mem :: "mx_sys \<Rightarrow> tid \<Rightarrow> mx_pc \<times> mx_mem \<Rightarrow> mx_sys" where
  "with_mem s t r =
     (case r of (pc, m) \<Rightarrow>
        \<lparr>ms_hdr = ms_hdr m, ms_queue = ms_queue m, ms_holds = ms_holds m,
         ms_pc = (ms_pc s)(t := pc)\<rparr>)"

fun mx_exec :: "wakefn \<Rightarrow> (tid \<Rightarrow> u32) \<Rightarrow> mx_event \<Rightarrow> mx_sys \<Rightarrow> mx_sys option" where
  "mx_exec wk pid (EvCall t c) s =
     (case ms_pc s t of Out r \<Rightarrow> Some (s\<lparr>ms_pc := (ms_pc s)(t := mx_entry c)\<rparr>) | _ \<Rightarrow> None)"
| "mx_exec wk pid (EvStep t env) s =
     map_option (with_mem s t) (mx_pc_step wk (pid t) env t (ms_pc s t) (mx_mem.truncate s))"

fun mx_run :: "wakefn \<Rightarrow> (tid \<Rightarrow> u32) \<Rightarrow> mx_event list \<Rightarrow> mx_sys \<Rightarrow> mx_sys option" where
  "mx_run wk pid [] s = Some s"
| "mx_run wk pid (e # es) s = Option.bind (mx_exec wk pid e s) (mx_run wk pid es)"

text \<open>
  A client policy says which calls a thread may make in which state. \<open>disciplined\<close>: a
  thread acquires when it does not hold the lock, releases when it does, and nobody forces a
  release. \<open>releases_own\<close>: a thread may also acquire again while it holds the lock.
  \<open>any_client\<close>: no restriction at all.
\<close>

fun disciplined :: "mx_event \<Rightarrow> mx_sys \<Rightarrow> bool" where
  "disciplined (EvCall t (CallAcq a)) s = (\<not> ms_holds s t)"
| "disciplined (EvCall t CallRelease) s = ms_holds s t"
| "disciplined (EvCall t CallForceRelease) s = False"
| "disciplined (EvStep t env) s = True"

fun releases_own :: "mx_event \<Rightarrow> mx_sys \<Rightarrow> bool" where
  "releases_own (EvCall t (CallAcq a)) s = True"
| "releases_own (EvCall t CallRelease) s = ms_holds s t"
| "releases_own (EvCall t CallForceRelease) s = False"
| "releases_own (EvStep t env) s = True"

fun any_client :: "mx_event \<Rightarrow> mx_sys \<Rightarrow> bool" where
  "any_client e s = True"

inductive mx_step :: "(mx_event \<Rightarrow> mx_sys \<Rightarrow> bool) \<Rightarrow> wakefn \<Rightarrow> (tid \<Rightarrow> u32) \<Rightarrow>
    mx_sys \<Rightarrow> mx_sys \<Rightarrow> bool" for policy wk pid where
  mx_stepI: "policy e s \<Longrightarrow> mx_exec wk pid e s = Some s' \<Longrightarrow> mx_step policy wk pid s s'"

definition mx_init :: "mx_sys \<Rightarrow> bool" where
  "mx_init s \<longleftrightarrow> mx_state (ms_hdr s) = 0 \<and> mx_owner (ms_hdr s) = 0 \<and> ms_queue s = [] \<and>
     (\<forall>t. \<not> ms_holds s t) \<and> (\<forall>t. ms_pc s t = Out RetNone)"

abbreviation mx_reach :: "(mx_event \<Rightarrow> mx_sys \<Rightarrow> bool) \<Rightarrow> wakefn \<Rightarrow> (tid \<Rightarrow> u32) \<Rightarrow>
    mx_sys \<Rightarrow> bool" where
  "mx_reach policy wk pid \<equiv> reach mx_init (mx_step policy wk pid)"

text \<open>An environment in which nothing fails, for concrete runs.\<close>

definition calm :: mx_env where
  "calm = \<lparr>env_now = 0, env_weak_fail = False, env_event = Answered\<rparr>"

lemmas mutex_layout = MUTEX64_SIZE_def MUTEX_OFF_MAGIC_def MUTEX_OFF_FLAGS_def
  MUTEX_OFF_STATE_def MUTEX_OFF_OWNER_def MUTEX_OFF_LASTNS_def

end
