(* ===== verification/Mutex_Safety.thy ===== *)
theory Mutex_Safety
  imports Mutex
begin

text \<open>
  Properties of the mutex under every interleaving of the atomic actions: the rules that all
  methods refine (\<open>mx_effect\<close>), mutual exclusion as a simulation of an abstract lock,
  the wake-up guarantee for sleeping threads, the bound of a non-blocking acquisition, the
  race of a release with an acquisition, and the layout of the header.
\<close>


section \<open>The algorithm behind the methods\<close>

text \<open>
  What an action does to the lock, whatever method it belongs to: the state word, the queue and
  the holders change by one of the rules of \<open>mx_effect\<close>. All methods refine these rules
  (\<open>mx_pc_step_effect\<close>), and the invariants are proved on the rules.
\<close>

datatype phase = PIdle mx_result | PContend | PRetry | PSleep | PCrit | PLeave | PPending u32

fun phase_of :: "mx_pc \<Rightarrow> phase" where
  "phase_of (Out r) = PIdle r"
| "phase_of (Acq a AXchg) = PRetry"
| "phase_of (Acq a ASleep) = PSleep"
| "phase_of (Acq a AOwner) = PCrit"
| "phase_of (Acq a AStamp) = PCrit"
| "phase_of (Acq a _) = PContend"
| "phase_of (Rel f RCheck) = PLeave"
| "phase_of (Rel f RXchg) = PLeave"
| "phase_of (Rel f (RClear prev)) = PPending prev"
| "phase_of (Rel f (RWake prev)) = PPending prev"

type_synonym lockview = "u32 \<times> tid list \<times> (tid \<Rightarrow> bool)"

definition lockview_of :: "'a mx_mem_scheme \<Rightarrow> lockview" where
  "lockview_of m = (mx_state (ms_hdr m), ms_queue m, ms_holds m)"

inductive mx_effect :: "wakefn \<Rightarrow> tid \<Rightarrow> phase \<Rightarrow> lockview \<Rightarrow> phase \<Rightarrow> lockview \<Rightarrow> bool"
  for wk t where
  contend: "p \<in> {PContend, PRetry, PIdle RetFalse, PIdle RetRuntimeError} \<Longrightarrow>
     mx_effect wk t PContend l p l"
| win: "mx_effect wk t PContend (0, q, h) PCrit (1, q, h(t := True))"
| win_contended: "mx_effect wk t PRetry (0, q, h) PCrit (2, q, h(t := True))"
| mark: "st \<noteq> 0 \<Longrightarrow> mx_effect wk t PRetry (st, q, h) PContend (2, q, h)"
| sleep: "mx_effect wk t PContend (2, q, h) PSleep (2, q @ [t], h)"
| woken: "t \<notin> set q \<Longrightarrow> mx_effect wk t PSleep (st, q, h) PRetry (st, q, h)"
| give_up: "t \<in> set q \<Longrightarrow> p \<in> {PRetry, PIdle RetFalse} \<Longrightarrow>
     mx_effect wk t PSleep (st, q, h) p (st, remove1 t q, h)"
| own: "p \<in> {PCrit, PIdle RetTrue, PIdle RetSelf} \<Longrightarrow> mx_effect wk t PCrit l p l"
| leave: "p \<in> {PLeave, PIdle RetRuntimeError} \<Longrightarrow> mx_effect wk t PLeave l p l"
| give_back: "mx_effect wk t PLeave (st, q, h) (PPending st) (0, q, h(t := False))"
| pending: "p = PPending st \<or> (st \<noteq> 2 \<and> p = PIdle RetNone) \<Longrightarrow> mx_effect wk t (PPending st) l p l"
| wake: "mx_effect wk t (PPending 2) (st, q, h) (PIdle RetNone) (st, wk 1 q, h)"

lemmas mx_action_defs = cas_state_def xchg_state_def futex_wait_call_def futex_wait_return_def
  win_def give_back_def lockview_of_def

lemma lockview_of_frame [simp]:
  "lockview_of (m\<lparr>ms_hdr := (ms_hdr m)\<lparr>mx_owner := x\<rparr>\<rparr>) = lockview_of m"
  "lockview_of (m\<lparr>ms_hdr := (ms_hdr m)\<lparr>mx_last_ns := y\<rparr>\<rparr>) = lockview_of m"
  by (simp_all add: lockview_of_def)

lemma store_owner_step_effect:
  "store_owner_step r a pid env pc m = Some (pc', m') \<Longrightarrow> r \<in> {RetTrue, RetSelf} \<Longrightarrow>
    mx_effect wk t (phase_of (Acq a pc)) (lockview_of m) (phase_of pc') (lockview_of m')"
  by (cases pc) (auto intro: mx_effect.own)

lemma cas_state_effect:
  "cas_state a t other m = (pc', m') \<Longrightarrow>
    phase_of other \<in> {PContend, PRetry, PIdle RetFalse} \<Longrightarrow>
    mx_effect wk t PContend (lockview_of m) (phase_of pc') (lockview_of m')"
  by (auto simp: mx_action_defs split: if_splits intro: mx_effect.win mx_effect.contend)

lemma xchg_state_effect:
  "xchg_state a t m = (pc', m') \<Longrightarrow>
    mx_effect wk t PRetry (lockview_of m) (phase_of pc') (lockview_of m')"
  by (auto simp: mx_action_defs split: if_splits intro: mx_effect.win_contended mx_effect.mark)

lemma futex_wait_call_effect:
  "futex_wait_call a t m = (pc', m') \<Longrightarrow>
    mx_effect wk t PContend (lockview_of m) (phase_of pc') (lockview_of m')"
  by (auto simp: mx_action_defs split: if_splits intro: mx_effect.sleep mx_effect.contend)

lemma futex_wait_return_retry:
  "futex_wait_return fin env t m = Some (r, m') \<Longrightarrow>
    mx_effect wk t PSleep (lockview_of m) PRetry (lockview_of m')"
  by (auto simp: mx_action_defs Let_def split: if_splits fut_event.splits
      intro: mx_effect.woken mx_effect.give_up)

lemma futex_wait_return_give_up:
  "futex_wait_return fin env t m = Some (r, m') \<Longrightarrow> r \<noteq> WaitOk \<Longrightarrow>
    mx_effect wk t PSleep (lockview_of m) (PIdle RetFalse) (lockview_of m')"
  by (auto simp: mx_action_defs Let_def split: if_splits fut_event.splits
      intro: mx_effect.give_up)

lemmas mx_effects = store_owner_step_effect cas_state_effect xchg_state_effect
  futex_wait_call_effect futex_wait_return_retry futex_wait_return_give_up

lemma acquire_fast_effect:
  "FutexMutex_acquire_fast pid env t pc m = Some (pc', m') \<Longrightarrow>
    mx_effect wk t (phase_of (Acq Acquire pc)) (lockview_of m) (phase_of pc') (lockview_of m')"
  by (cases pc) (auto intro: mx_effects mx_effect.contend mx_effect.own)

lemma try_acquire_effect:
  "FutexMutex_try_acquire pid env t pc m = Some (pc', m') \<Longrightarrow>
    mx_effect wk t (phase_of (Acq TryAcquire pc)) (lockview_of m) (phase_of pc') (lockview_of m')"
  by (cases pc) (auto intro: mx_effects mx_effect.own)

lemma enter_effect:
  "FutexMutex_enter pid env t pc m = Some (pc', m') \<Longrightarrow>
    mx_effect wk t (phase_of (Acq Enter pc)) (lockview_of m) (phase_of pc') (lockview_of m')"
  by (cases pc) (auto intro: mx_effects mx_effect.contend mx_effect.own split: if_splits)

lemma acquire_ns_effect:
  "FutexMutex_acquire_ns tmo spin pid env t pc m = Some (pc', m') \<Longrightarrow>
    mx_effect wk t (phase_of (Acq (AcquireNs tmo spin) pc)) (lockview_of m)
      (phase_of pc') (lockview_of m')"
  by (cases pc)
    (auto simp: Let_def intro: mx_effects mx_effect.contend mx_effect.own
      split: if_splits option.splits)

lemma release_effect:
  "FutexMutex_release wk pid t pc m = Some (pc', m') \<Longrightarrow>
    mx_effect wk t (phase_of (Rel False pc)) (lockview_of m) (phase_of pc') (lockview_of m')"
  by (cases pc)
    (auto simp: mx_action_defs split: if_splits
      intro: mx_effect.leave mx_effect.give_back mx_effect.pending mx_effect.wake [simplified])

lemma force_release_effect:
  "FutexMutex_force_release wk t pc m = Some (pc', m') \<Longrightarrow>
    mx_effect wk t (phase_of (Rel True pc)) (lockview_of m) (phase_of pc') (lockview_of m')"
  by (cases pc)
    (auto simp: mx_action_defs split: if_splits
      intro: mx_effect.give_back mx_effect.pending mx_effect.wake [simplified])

lemma mx_pc_step_effect:
  assumes "mx_pc_step wk pid env t pc m = Some (pc', m')"
  shows "mx_effect wk t (phase_of pc) (lockview_of m) (phase_of pc') (lockview_of m')"
  using assms
  by (cases "(wk, pid, env, t, pc, m)" rule: mx_pc_step.cases)
    (auto intro: acquire_fast_effect try_acquire_effect enter_effect acquire_ns_effect
      release_effect force_release_effect simp del: phase_of.simps)

lemma mx_exec_cases:
  assumes "mx_exec wk pid e s = Some s'"
  obtains (call) t c r where "e = EvCall t c" and "ms_pc s t = Out r"
      and "s' = s\<lparr>ms_pc := (ms_pc s)(t := mx_entry c)\<rparr>"
    | (act) t env pc' where "e = EvStep t env" and "ms_pc s' = (ms_pc s)(t := pc')"
      and "mx_effect wk t (phase_of (ms_pc s t)) (lockview_of s) (phase_of pc') (lockview_of s')"
proof (cases e)
  case (EvCall t c)
  with assms show ?thesis by (auto split: mx_pc.splits intro: call)
next
  case (EvStep t env)
  with assms obtain pc' m' where
    step: "mx_pc_step wk (pid t) env t (ms_pc s t) (mx_mem.truncate s) = Some (pc', m')"
    and s': "s' = with_mem s t (pc', m')" by auto
  have "lockview_of (mx_mem.truncate s) = lockview_of s"
    by (simp add: lockview_of_def mx_mem.truncate_def)
  moreover have "lockview_of s' = lockview_of m'"
    using s' by (simp add: lockview_of_def with_mem_def)
  moreover have "ms_pc s' = (ms_pc s)(t := pc')" using s' by (simp add: with_mem_def)
  ultimately show ?thesis using mx_pc_step_effect [OF step] EvStep act by auto
qed

section \<open>Mutual exclusion\<close>

fun phase_ok :: "phase \<Rightarrow> bool \<Rightarrow> bool" where
  "phase_ok (PIdle r) h = (r \<in> {RetTrue, RetSelf} \<longrightarrow> h)"
| "phase_ok PCrit h = h"
| "phase_ok PLeave h = h"
| "phase_ok _ h = True"

fun view_ok :: "lockview \<Rightarrow> bool" where
  "view_ok (st, q, h) \<longleftrightarrow> (\<forall>t u. h t \<longrightarrow> h u \<longrightarrow> t = u) \<and> (st = 0 \<longleftrightarrow> (\<forall>t. \<not> h t)) \<and>
     st \<in> {0, 1, 2}"

definition excl_inv :: "mx_sys \<Rightarrow> bool" where
  "excl_inv s \<longleftrightarrow> view_ok (lockview_of s) \<and> (\<forall>t. phase_ok (phase_of (ms_pc s t)) (ms_holds s t))"

lemma mx_effect_excl:
  assumes "mx_effect wk t p l p' l'" and "view_ok l" and "phase_ok p (snd (snd l) t)"
  shows "view_ok l' \<and> phase_ok p' (snd (snd l') t) \<and>
    (\<forall>u. u \<noteq> t \<longrightarrow> snd (snd l') u = snd (snd l) u)"
  using assms by (induction rule: mx_effect.induct) auto

lemma excl_inv_success:
  "excl_inv s \<Longrightarrow> ms_pc s t = Out r \<Longrightarrow> r \<in> {RetTrue, RetSelf} \<Longrightarrow> ms_holds s t"
  by (auto simp: excl_inv_def dest!: spec [of _ t])

lemma releases_own_entry:
  "releases_own (EvCall t c) s \<Longrightarrow> phase_ok (phase_of (mx_entry c)) (ms_holds s t)"
  by (cases c rule: mx_entry.cases) auto

lemma disciplined_releases_own: "disciplined e s \<Longrightarrow> releases_own e s"
  by (cases "(e, s)" rule: disciplined.cases) auto

lemma disciplined_reach:
  "mx_reach disciplined wk pid s \<Longrightarrow> mx_reach releases_own wk pid s"
  by (erule reach_mono) (auto elim!: mx_step.cases intro: mx_stepI disciplined_releases_own)

lemma mx_effect_holds:
  assumes "mx_effect wk t p (st, q, h) p' (st', q', h')" and "view_ok (st, q, h)" and "phase_ok p (h t)"
  shows "h' = h \<or> (\<forall>u. \<not> h u) \<and> h' = h(t := True) \<or> h t \<and> h' = h(t := False)"
  using assms by (cases rule: mx_effect.cases) auto

lemma excl_inv_step:
  assumes inv: "excl_inv s" and "mx_step releases_own wk pid s s'"
  shows "excl_inv s'"
proof -
  from assms(2) obtain e where pol: "releases_own e s" and ex: "mx_exec wk pid e s = Some s'"
    by (auto elim: mx_step.cases)
  from ex show ?thesis
  proof (cases rule: mx_exec_cases)
    case (call t c r)
    with inv pol show ?thesis
      using releases_own_entry [of t c s] by (auto simp: excl_inv_def lockview_of_def)
  next
    case (act t env pc')
    from act(3) have "view_ok (lockview_of s') \<and> phase_ok (phase_of pc') (ms_holds s' t) \<and>
        (\<forall>u. u \<noteq> t \<longrightarrow> ms_holds s' u = ms_holds s u)"
      using mx_effect_excl [OF act(3)] inv by (auto simp: excl_inv_def lockview_of_def)
    with act(2) inv show ?thesis by (auto simp: excl_inv_def)
  qed
qed

text \<open>The abstract lock that the clients see: free, or held by one thread.\<close>

inductive lock_step :: "tid option \<Rightarrow> tid option \<Rightarrow> bool" where
  lock_acquire: "lock_step None (Some t)"
| lock_release: "lock_step (Some t) None"

definition lock_rel :: "tid option \<Rightarrow> mx_sys \<Rightarrow> bool" where
  "lock_rel a s \<longleftrightarrow> (\<forall>t. ms_holds s t \<longleftrightarrow> a = Some t)"

lemma lock_rel_step:
  assumes "lock_rel a s" and "excl_inv s" and "mx_step releases_own wk pid s s'"
  shows "\<exists>a'. (a' = a \<or> lock_step a a') \<and> lock_rel a' s'"
proof -
  from assms(3) obtain e where pol: "releases_own e s" and ex: "mx_exec wk pid e s = Some s'"
    by (auto elim: mx_step.cases)
  from ex show ?thesis
  proof (cases rule: mx_exec_cases)
    case (call t c r)
    with assms(1) show ?thesis by (intro exI [of _ a]) (auto simp: lock_rel_def)
  next
    case (act t env pc')
    have ok: "view_ok (lockview_of s)" "phase_ok (phase_of (ms_pc s t)) (ms_holds s t)"
      using assms(2) by (auto simp: excl_inv_def)
    from mx_effect_holds [OF act(3) [unfolded lockview_of_def]] ok
    consider "ms_holds s' = ms_holds s"
      | "\<forall>u. \<not> ms_holds s u" "ms_holds s' = (ms_holds s)(t := True)"
      | "ms_holds s t" "ms_holds s' = (ms_holds s)(t := False)"
      unfolding lockview_of_def by blast
    then show ?thesis
    proof cases
      case 1
      with assms(1) show ?thesis by (auto simp: lock_rel_def)
    next
      case 2
      with assms(1) have "a = None" by (cases a) (auto simp: lock_rel_def)
      with 2 show ?thesis
        by (intro exI [of _ "Some t"]) (auto simp: lock_rel_def intro: lock_step.intros)
    next
      case 3
      with assms(1) have "a = Some t" by (auto simp: lock_rel_def)
      with 3 assms(1) show ?thesis
        by (intro exI [of _ None]) (auto simp: lock_rel_def intro: lock_step.intros)
    qed
  qed
qed

interpretation mx_excl: forward_simulation mx_init "mx_step releases_own wk pid" excl_inv
    "\<lambda>a. a = None" lock_step lock_rel for wk pid
proof unfold_locales
  show "excl_inv s" if "mx_init s" for s
    using that by (auto simp: mx_init_def excl_inv_def lockview_of_def)
  show "excl_inv s'" if "excl_inv s" and "mx_step releases_own wk pid s s'" for s s'
    using that by (rule excl_inv_step)
  show "\<exists>a. a = None \<and> lock_rel a s" if "mx_init s" for s
    using that by (simp add: mx_init_def lock_rel_def)
  show "\<exists>a'. (a' = a \<or> lock_step a a') \<and> lock_rel a' s'"
    if "lock_rel a s" and "excl_inv s" and "mx_step releases_own wk pid s s'" for a s s'
    using that by (rule lock_rel_step)
qed

section \<open>No lost wake-up\<close>

text \<open>
  A thread is on duty when it will look at the state word again or will wake a sleeper: it is
  about to exchange the word with 2, it was woken and has not run yet, or it gave back a
  contended lock and has not made the wake call yet.
\<close>

fun on_duty :: "tid list \<Rightarrow> tid \<Rightarrow> phase \<Rightarrow> bool" where
  "on_duty q t PRetry = True"
| "on_duty q t PSleep = (t \<notin> set q)"
| "on_duty q t (PPending prev) = (prev = 2)"
| "on_duty q t _ = False"

definition wake_inv :: "mx_sys \<Rightarrow> bool" where
  "wake_inv s \<longleftrightarrow> distinct (ms_queue s) \<and>
     (\<forall>t. t \<in> set (ms_queue s) \<longrightarrow> phase_of (ms_pc s t) = PSleep) \<and>
     (ms_queue s \<noteq> [] \<longrightarrow>
        mx_state (ms_hdr s) = 2 \<or> (\<exists>t. on_duty (ms_queue s) t (phase_of (ms_pc s t))))"

definition view_wake :: "lockview \<Rightarrow> (tid \<Rightarrow> phase) \<Rightarrow> bool" where
  "view_wake l ph \<longleftrightarrow> (case l of (st, q, h) \<Rightarrow> distinct q \<and> (\<forall>t. t \<in> set q \<longrightarrow> ph t = PSleep) \<and>
     (q \<noteq> [] \<longrightarrow> st = 2 \<or> (\<exists>t. on_duty q t (ph t))))"

lemma wake_inv_view: "wake_inv s = view_wake (lockview_of s) (\<lambda>t. phase_of (ms_pc s t))"
  by (simp add: wake_inv_def view_wake_def lockview_of_def)

lemma on_duty_other: "on_duty q u (ph u) \<Longrightarrow> \<not> on_duty q t p \<Longrightarrow> ph t = p \<Longrightarrow>
    set q' \<subseteq> set q \<Longrightarrow> on_duty q' u ((ph(t := p')) u)"
  by (cases "ph u") (auto split: if_splits)

lemma on_duty_mono: "on_duty q u p \<Longrightarrow> set q' \<subseteq> set q \<Longrightarrow> on_duty q' u p"
  by (cases p) auto

lemma phase_sleep: "phase_of pc = PSleep \<Longrightarrow> \<exists>a. pc = Acq a ASleep"
  by (cases pc rule: phase_of.cases) auto

lemma entry_phase: "phase_of (mx_entry c) \<in> {PContend, PLeave}"
  by (cases c rule: mx_entry.cases) auto

context futex_kernel begin

lemma view_wake_effect:
  assumes "mx_effect wk t p l p' l'" and "ph t = p" and "view_wake l ph"
  shows "view_wake l' (ph(t := p'))"
  using assms
proof (induction rule: mx_effect.induct)
  case (wake st q h)
  have q: "distinct q" "\<And>u. u \<in> set q \<Longrightarrow> ph u = PSleep" and t: "t \<notin> set q"
    using wake by (auto simp: view_wake_def)
  have "\<exists>u. on_duty (wk 1 q) u ((ph(t := PIdle RetNone)) u)" if "wk 1 q \<noteq> []"
  proof -
    have "q \<noteq> []" using that wake_subset [of 1 q] by auto
    then obtain u where "u \<in> set q" "u \<notin> set (wk 1 q)"
      using q(1) wake_some [of q 1] by auto
    then show ?thesis using q(2) t by (intro exI [of _ u]) auto
  qed
  then show ?case
    using q t wake_subset [of 1 q] wake_distinct [of q 1] by (auto simp: view_wake_def)
next
  case (give_up q p st h)
  then have u: "st = 2 \<or> (\<exists>u. on_duty q u (ph u) \<and> u \<noteq> t)"
    by (auto simp: view_wake_def)
  have "st = 2 \<or> (\<exists>u. on_duty (remove1 t q) u ((ph(t := p)) u))"
    using u on_duty_mono [of q _ _ "remove1 t q"] set_remove1_subset [of t q] by auto
  then show ?case using give_up by (auto simp: view_wake_def)
next
  case (woken q st h)
  then show ?case by (auto simp: view_wake_def intro: exI [of _ t])
next
  case (give_back st q h)
  then show ?case
    by (auto simp: view_wake_def intro: exI [of _ t]) (metis on_duty.simps(7))
qed (auto simp: view_wake_def; metis on_duty.simps)+

end

context futex_kernel begin

lemma wake_inv_step:
  assumes inv: "wake_inv s" and "mx_step policy wk pid s s'"
  shows "wake_inv s'"
proof -
  from assms(2) obtain e where ex: "mx_exec wk pid e s = Some s'" by (auto elim: mx_step.cases)
  from ex show ?thesis
  proof (cases rule: mx_exec_cases)
    case (call t c r)
    have idle: "phase_of (ms_pc s t) = PIdle r" using call(2) by simp
    have duty: "\<exists>u. on_duty (ms_queue s') u (phase_of (ms_pc s' u))"
      if "on_duty (ms_queue s) u (phase_of (ms_pc s u))" for u
      using that idle call(3) by (intro exI [of _ u]) auto
    have same: "ms_queue s' = ms_queue s" "ms_hdr s' = ms_hdr s" using call(3) by simp_all
    have "t \<notin> set (ms_queue s)" using inv idle by (auto simp: wake_inv_def)
    then have "phase_of (ms_pc s' u) = PSleep" if "u \<in> set (ms_queue s)" for u
      using that inv call(3) by (auto simp: wake_inv_def)
    with inv duty same show ?thesis unfolding wake_inv_def by metis
  next
    case (act t env pc')
    have "(\<lambda>u. phase_of (ms_pc s' u)) = (\<lambda>u. phase_of (ms_pc s u))(t := phase_of pc')"
      using act(2) by auto
    with view_wake_effect [OF act(3), of "\<lambda>u. phase_of (ms_pc s u)"] inv show ?thesis
      by (simp add: wake_inv_view)
  qed
qed

end

sublocale futex_kernel \<subseteq> mx_wake: inductive_invariant mx_init "mx_step policy wk pid" wake_inv
  for policy pid
proof unfold_locales
  show "wake_inv s" if "mx_init s" for s
    using that by (simp add: mx_init_def wake_inv_def)
  show "wake_inv s'" if "wake_inv s" and "mx_step policy wk pid s s'" for s s'
    using that by (rule wake_inv_step)
qed

context futex_kernel begin

lemma mx_wake_reach: "reach mx_init (mx_step policy wk pid) s \<Longrightarrow> wake_inv s"
  by (rule mx_wake.reach_inv)

end

section \<open>A wedged mutex\<close>

text \<open>
  The state word is taken, the owner field is 0 and no thread is storing its owner or giving the
  lock back: nobody can release the lock any more.
\<close>

fun wedged_pc :: "mx_pc \<Rightarrow> bool" where
  "wedged_pc (Out r) = True"
| "wedged_pc (Acq a pc) = (pc \<noteq> AOwner \<and> pc \<noteq> AStamp)"
| "wedged_pc (Rel f pc) = (\<not> f \<and> pc = RCheck)"

definition wedged :: "mx_sys \<Rightarrow> bool" where
  "wedged s \<longleftrightarrow> mx_state (ms_hdr s) \<noteq> 0 \<and> mx_owner (ms_hdr s) = 0 \<and> (\<forall>t. wedged_pc (ms_pc s t))"

lemma wedged_acq_step:
  assumes "mx_pc_step wk pid env t (Acq a q) m = Some (pc', m')" and "wedged_pc (Acq a q)"
    and "mx_state (ms_hdr m) \<noteq> 0" and "mx_owner (ms_hdr m) = 0"
  shows "mx_state (ms_hdr m') \<noteq> 0 \<and> mx_owner (ms_hdr m') = 0 \<and> wedged_pc pc'"
  using assms
  by (cases a; cases q)
    (auto simp: cas_state_def xchg_state_def futex_wait_call_def futex_wait_return_def Let_def
      split: if_splits option.splits fut_event.splits)

lemma wedged_pc_step:
  assumes "mx_pc_step wk pid env t pc m = Some (pc', m')" and "wedged_pc pc" and "pid \<noteq> 0"
    and "mx_state (ms_hdr m) \<noteq> 0" and "mx_owner (ms_hdr m) = 0"
  shows "mx_state (ms_hdr m') \<noteq> 0 \<and> mx_owner (ms_hdr m') = 0 \<and> wedged_pc pc'"
proof (cases pc)
  case (Acq a q)
  with assms show ?thesis using wedged_acq_step by blast
next
  case (Rel f q)
  with assms show ?thesis by auto
qed (use assms in auto)

lemma wedged_entry: "disciplined (EvCall t c) s \<Longrightarrow> wedged_pc (mx_entry c)"
  by (cases c rule: mx_entry.cases) auto

lemma wedged_step:
  assumes "wedged s" and "mx_step disciplined wk pid s s'" and "\<And>t. pid t \<noteq> 0"
  shows "wedged s'"
proof -
  from assms(2) obtain e where pol: "disciplined e s" and ex: "mx_exec wk pid e s = Some s'"
    by (auto elim: mx_step.cases)
  show ?thesis
  proof (cases e)
    case (EvCall t c)
    with ex pol assms(1) show ?thesis
      using wedged_entry [of t c s] by (auto simp: wedged_def split: mx_pc.splits)
  next
    case (EvStep t env)
    with ex obtain pc' m' where
      st: "mx_pc_step wk (pid t) env t (ms_pc s t) (mx_mem.truncate s) = Some (pc', m')"
      and s': "s' = with_mem s t (pc', m')" by auto
    from wedged_pc_step [OF st] assms(1,3) show ?thesis
      by (auto simp: wedged_def s' with_mem_def mx_mem.truncate_def)
  qed
qed

section \<open>The type of the shared state\<close>

fun pc_typed :: "mx_pc \<Rightarrow> bool" where
  \<comment> \<open>a releasing thread remembers a state that the word can have\<close>
  "pc_typed (Rel f (RClear prev)) = (prev \<in> {0, 1, 2})"
| "pc_typed (Rel f (RWake prev)) = (prev \<in> {0, 1, 2})"
| "pc_typed _ = True"

definition hdr_typed :: "(tid \<Rightarrow> u32) \<Rightarrow> mutex64 \<Rightarrow> mutex64 \<Rightarrow> bool" where
  "hdr_typed pid h0 h \<longleftrightarrow> mx_state h \<in> {0, 1, 2} \<and> mx_owner h \<in> insert 0 (range pid) \<and>
     mx_magic h = mx_magic h0 \<and> mx_flags h = mx_flags h0"

definition sys_typed :: "(tid \<Rightarrow> u32) \<Rightarrow> mx_sys \<Rightarrow> mx_sys \<Rightarrow> bool" where
  "sys_typed pid s0 s \<longleftrightarrow> hdr_typed pid (ms_hdr s0) (ms_hdr s) \<and> (\<forall>t. pc_typed (ms_pc s t))"

lemma hdr_typed_put:
  "hdr_typed pid h g \<Longrightarrow> v \<in> {0, 1, 2} \<Longrightarrow> hdr_typed pid h (g\<lparr>mx_state := v\<rparr>)"
  "hdr_typed pid h g \<Longrightarrow> v \<in> insert 0 (range pid) \<Longrightarrow> hdr_typed pid h (g\<lparr>mx_owner := v\<rparr>)"
  "hdr_typed pid h g \<Longrightarrow> hdr_typed pid h (g\<lparr>mx_last_ns := n\<rparr>)"
  by (simp_all add: hdr_typed_def)

definition act_typed :: "(tid \<Rightarrow> u32) \<Rightarrow> mutex64 \<Rightarrow> mx_pc \<times> mx_mem \<Rightarrow> bool" where
  "act_typed pid h r \<longleftrightarrow> hdr_typed pid h (ms_hdr (snd r)) \<and> pc_typed (fst r)"

lemma store_owner_typed:
  assumes "hdr_typed pid h (ms_hdr m)" and "pc_typed other"
  shows "act_typed pid h (other, m\<lparr>ms_hdr := (ms_hdr m)\<lparr>mx_owner := pid t\<rparr>\<rparr>)"
    and "act_typed pid h (other, m\<lparr>ms_hdr := (ms_hdr m)\<lparr>mx_last_ns := n\<rparr>\<rparr>)"
  using assms by (simp_all add: act_typed_def hdr_typed_def)

lemma lock_action_typed:
  assumes "hdr_typed pid h (ms_hdr m)"
  shows "pc_typed other \<Longrightarrow> act_typed pid h (cas_state a t other m)"
    and "act_typed pid h (xchg_state a t m)"
    and "act_typed pid h (futex_wait_call a t m)"
    and "pc_typed other \<Longrightarrow> act_typed pid h (other, m)"
  using assms hdr_typed_put(1) [OF assms, of 1] hdr_typed_put(1) [OF assms, of 2]
  by (simp_all add: act_typed_def cas_state_def xchg_state_def futex_wait_call_def win_def)

lemma wait_return_typed:
  "futex_wait_return fin env t m = Some (r, m') \<Longrightarrow> hdr_typed pid h (ms_hdr m) \<Longrightarrow>
    pc_typed other \<Longrightarrow> act_typed pid h (other, m')"
  by (auto simp: futex_wait_return_def act_typed_def Let_def split: if_splits fut_event.splits)

lemmas acq_action_typed = store_owner_typed lock_action_typed wait_return_typed

lemma acquire_fast_typed:
  "FutexMutex_acquire_fast (pid t) env t pc m = Some x \<Longrightarrow> hdr_typed pid h (ms_hdr m) \<Longrightarrow> act_typed pid h x"
  by (cases pc) (auto intro: acq_action_typed)

lemma try_acquire_typed:
  "FutexMutex_try_acquire (pid t) env t pc m = Some x \<Longrightarrow> hdr_typed pid h (ms_hdr m) \<Longrightarrow> act_typed pid h x"
  by (cases pc) (auto intro: acq_action_typed)

lemma enter_typed:
  "FutexMutex_enter (pid t) env t pc m = Some x \<Longrightarrow> hdr_typed pid h (ms_hdr m) \<Longrightarrow> act_typed pid h x"
  by (cases pc) (auto intro: acq_action_typed split: if_splits)

lemma acquire_ns_typed:
  "FutexMutex_acquire_ns tmo spin (pid t) env t pc m = Some x \<Longrightarrow> hdr_typed pid h (ms_hdr m) \<Longrightarrow>
    act_typed pid h x"
  by (cases pc) (auto simp: Let_def intro: acq_action_typed split: if_splits option.splits)

lemma release_typed:
  assumes "FutexMutex_release wk p t pc m = Some x \<or> FutexMutex_force_release wk t pc m = Some x"
    and "hdr_typed pid h (ms_hdr m)" and "pc_typed (Rel f pc)"
  shows "act_typed pid h x"
proof -
  have "mx_state (ms_hdr m) \<in> {0, 1, 2}" using assms(2) by (simp add: hdr_typed_def)
  with assms show ?thesis
    by (cases pc) (auto simp: act_typed_def give_back_def intro: hdr_typed_put split: if_splits)
qed

lemma pc_step_typed:
  assumes "mx_pc_step wk p env t pc m = Some x" and "p = pid t" and "hdr_typed pid h (ms_hdr m)"
    and "pc_typed pc"
  shows "act_typed pid h x"
  using assms
  by (cases "(wk, p, env, t, pc, m)" rule: mx_pc_step.cases)
    (auto intro: acquire_fast_typed try_acquire_typed enter_typed acquire_ns_typed release_typed
      simp del: pc_typed.simps)

lemma entry_typed: "pc_typed (mx_entry c)"
  by (cases c rule: mx_entry.cases) auto

interpretation mx_type: inductive_invariant "\<lambda>s. s = s0 \<and> mx_init s" "mx_step policy wk pid" "sys_typed pid s0"
  for s0 policy wk pid
proof unfold_locales
  show "sys_typed pid s0 s" if "s = s0 \<and> mx_init s" for s
    using that by (auto simp: sys_typed_def hdr_typed_def mx_init_def)
next
  fix s s' assume inv: "sys_typed pid s0 s" and "mx_step policy wk pid s s'"
  then obtain e where ex: "mx_exec wk pid e s = Some s'" by (auto elim: mx_step.cases)
  show "sys_typed pid s0 s'"
  proof (cases e)
    case (EvCall t c)
    with ex inv show ?thesis by (auto simp: sys_typed_def entry_typed split: mx_pc.splits)
  next
    case (EvStep t env)
    with ex obtain pc' m' where
      st: "mx_pc_step wk (pid t) env t (ms_pc s t) (mx_mem.truncate s) = Some (pc', m')"
      and s': "s' = with_mem s t (pc', m')" by auto
    from pc_step_typed [OF st, of pid "ms_hdr s0"] inv show ?thesis
      by (auto simp: sys_typed_def act_typed_def s' with_mem_def mx_mem.truncate_def)
  qed
qed

section \<open>Non-blocking acquisition\<close>

fun nb_pc :: "int \<Rightarrow> mx_pc \<Rightarrow> bool" where
  "nb_pc spin (Out r) = (r \<in> {RetTrue, RetFalse})"
| "nb_pc spin (Acq a (ASpin i)) = (a = AcquireNs 0 spin \<and> i \<le> nat spin)"
| "nb_pc spin (Acq a (ASpinCas i)) = (a = AcquireNs 0 spin \<and> i < nat spin)"
| "nb_pc spin (Acq a pc) = (a = AcquireNs 0 spin \<and> pc \<in> {ACas, AOwner, AStamp})"
| "nb_pc spin (Rel f pc) = False"

fun nb_measure :: "int \<Rightarrow> mx_pc \<Rightarrow> nat" where
  "nb_measure spin (Acq a ACas) = 2 * nat spin + 4"
| "nb_measure spin (Acq a (ASpin i)) = 2 * (nat spin - i) + 3"
| "nb_measure spin (Acq a (ASpinCas i)) = 2 * (nat spin - i) + 2"
| "nb_measure spin (Acq a AOwner) = 2"
| "nb_measure spin (Acq a AStamp) = 1"
| "nb_measure spin pc = 0"

definition own_steps :: "tid \<Rightarrow> mx_event list \<Rightarrow> nat" where
  "own_steps t es = length (filter (\<lambda>e. \<exists>env. e = EvStep t env) es)"

lemma nb_pc_step:
  assumes "nb_pc spin pc" and "mx_pc_step wk pid env t pc m = Some (pc', m')"
  shows "nb_pc spin pc' \<and> nb_measure spin pc' < nb_measure spin pc"
  using assms
  by (cases "(spin, pc)" rule: nb_pc.cases)
    (auto simp: cas_state_def Let_def split: if_splits)

lemma nb_pc_enabled:
  assumes "nb_pc spin pc" and "\<nexists>r. pc = Out r"
  shows "\<exists>r. mx_pc_step wk pid env t pc m = Some r"
  using assms by (cases "(spin, pc)" rule: nb_pc.cases) (auto simp: Let_def)

lemma mx_exec_other: "mx_exec wk pid e s = Some s' \<Longrightarrow> \<forall>c. e \<noteq> EvCall t c \<Longrightarrow>
    \<forall>env. e \<noteq> EvStep t env \<Longrightarrow> ms_pc s' t = ms_pc s t"
  by (cases e) (auto simp: with_mem_def split: mx_pc.splits)

lemma nb_run:
  assumes "mx_run wk pid es s = Some s'" and "nb_pc spin (ms_pc s t)" and "\<forall>c. EvCall t c \<notin> set es"
  shows "nb_pc spin (ms_pc s' t) \<and>
    own_steps t es + nb_measure spin (ms_pc s' t) \<le> nb_measure spin (ms_pc s t)"
  using assms
proof (induction es arbitrary: s)
  case Nil
  then show ?case by (simp add: own_steps_def)
next
  case (Cons e es)
  from Cons.prems(1) obtain s1 where s1: "mx_exec wk pid e s = Some s1" "mx_run wk pid es s1 = Some s'"
    by (auto simp: bind_eq_Some_conv)
  show ?case
  proof (cases "\<exists>env. e = EvStep t env")
    case True
    then obtain env pc' m' where e: "e = EvStep t env" and
      st: "mx_pc_step wk (pid t) env t (ms_pc s t) (mx_mem.truncate s) = Some (pc', m')"
      and "s1 = with_mem s t (pc', m')" using s1(1) by auto
    then have "nb_pc spin (ms_pc s1 t)" "nb_measure spin (ms_pc s1 t) < nb_measure spin (ms_pc s t)"
      using nb_pc_step [OF Cons.prems(2) st] by (simp_all add: with_mem_def)
    with Cons.IH [OF s1(2)] Cons.prems(3) e show ?thesis by (auto simp: own_steps_def)
  next
    case False
    then have "ms_pc s1 t = ms_pc s t"
      using mx_exec_other [OF s1(1), of t] Cons.prems(3) by auto
    with Cons.IH [OF s1(2)] Cons.prems False show ?thesis by (auto simp: own_steps_def)
  qed
qed

section \<open>Runs and reachability\<close>

fun obeys :: "(mx_event \<Rightarrow> mx_sys \<Rightarrow> bool) \<Rightarrow> wakefn \<Rightarrow> (tid \<Rightarrow> u32) \<Rightarrow> mx_event list \<Rightarrow> mx_sys \<Rightarrow>
    bool" where
  "obeys policy wk pid [] s = True"
| "obeys policy wk pid (e # es) s =
     (policy e s \<and> (case mx_exec wk pid e s of None \<Rightarrow> False | Some s' \<Rightarrow> obeys policy wk pid es s'))"

lemma obeys_reach:
  "reach init (mx_step policy wk pid) s \<Longrightarrow> obeys policy wk pid es s \<Longrightarrow> mx_run wk pid es s = Some s' \<Longrightarrow>
    reach init (mx_step policy wk pid) s'"
proof (induction es arbitrary: s)
  case Nil
  then show ?case by simp
next
  case (Cons e es)
  then obtain s1 where "mx_exec wk pid e s = Some s1" "mx_run wk pid es s1 = Some s'"
    "policy e s" "obeys policy wk pid es s1" by (auto split: option.splits)
  with Cons show ?case by (blast intro: reach.reach_step mx_stepI)
qed

definition mx_start :: mx_sys where
  "mx_start = \<lparr>ms_hdr = \<lparr>mx_magic = MUTEX_MAGIC, mx_flags = 0, mx_state = 0, mx_owner = 0, mx_last_ns = 0\<rparr>,
     ms_queue = [], ms_holds = (\<lambda>t. False), ms_pc = (\<lambda>t. Out RetNone)\<rparr>"

lemma mx_start_reach: "reach mx_init (mx_step policy wk pid) mx_start"
  by (rule reach.reach_init) (simp add: mx_init_def mx_start_def)

text \<open>
  Two processes: thread 0 acquires the lock and starts to release it; between its exchange of the
  state word and its store to the owner field, thread 1 acquires the lock; then thread 0 clears
  the owner that thread 1 stored.
\<close>

definition race :: "mx_event list" where
  "race = [EvCall 0 (CallAcq Acquire), EvStep 0 calm, EvStep 0 calm, EvStep 0 calm, EvStep 0 calm,
     EvCall 1 (CallAcq Acquire), EvStep 1 calm,
     EvCall 0 CallRelease, EvStep 0 calm, EvStep 0 calm,
     EvStep 1 calm, EvStep 1 calm, EvStep 1 calm,
     EvStep 0 calm, EvStep 0 calm]"

lemmas mx_eval = mx_start_def calm_def cas_state_def xchg_state_def futex_wait_call_def
  futex_wait_return_def win_def give_back_def with_mem_def mx_mem.truncate_def

lemma race_run:
  assumes "pid 0 \<noteq> 0" and "pid 1 \<noteq> 0" and "pid 0 \<noteq> pid 1"
  shows "\<exists>s. mx_run wk pid race mx_start = Some s \<and> obeys disciplined wk pid race mx_start \<and>
    ms_pc s 1 = Out RetTrue \<and> ms_holds s 1 \<and> wedged s"
  using assms by (simp add: race_def mx_eval wedged_def)

definition acquire_run :: "tid \<Rightarrow> mx_event list" where
  "acquire_run t = [EvCall t (CallAcq Acquire), EvStep t calm, EvStep t calm, EvStep t calm, EvStep t calm]"

definition sleep_run :: "mx_event list" where
  \<comment> \<open>thread 0 holds the lock and thread 1 falls asleep on it\<close>
  "sleep_run = acquire_run 0 @
     [EvCall 1 (CallAcq Acquire), EvStep 1 calm, EvStep 1 calm, EvStep 1 calm, EvStep 1 calm]"

lemma acquire_run_start:
  "\<exists>s. mx_run wk (\<lambda>t. 7) (acquire_run 0) mx_start = Some s \<and>
     obeys disciplined wk (\<lambda>t. 7) (acquire_run 0) mx_start \<and> ms_pc s 0 = Out RetTrue \<and> ms_holds s 0"
  by (simp add: acquire_run_def mx_eval)

lemma sleep_run_start:
  "\<exists>s. mx_run wk (\<lambda>t. of_nat (Suc t)) sleep_run mx_start = Some s \<and>
     obeys disciplined wk (\<lambda>t. of_nat (Suc t)) sleep_run mx_start \<and> ms_queue s = [1]"
  by (simp add: sleep_run_def acquire_run_def mx_eval)

section \<open>Properties\<close>

text \<open>
  C1. Mutual exclusion: when a thread releases the lock only while it holds it, two threads whose
  last acquiring call returned success are the same thread, and the state word is not 0, under
  every interleaving of the atomic actions, every kernel and every process assignment.
\<close>

theorem mutex_mutual_exclusion:
  assumes "mx_reach releases_own wk pid s"
    and "ms_pc s t = Out r" and "r \<in> {RetTrue, RetSelf}"
    and "ms_pc s u = Out r'" and "r' \<in> {RetTrue, RetSelf}"
  shows "t = u \<and> mx_state (ms_hdr s) \<noteq> 0"
proof -
  have "excl_inv s" using assms(1) by (rule mx_excl.reach_inv)
  then have "view_ok (lockview_of s)" and "ms_holds s t" and "ms_holds s u"
    using excl_inv_success assms(2-5) by (simp add: excl_inv_def, blast, blast)
  then show ?thesis by (auto simp: lockview_of_def)
qed

theorem mutex_mutual_exclusion_witness:
  "\<exists>s. mx_reach releases_own fifo_wake (\<lambda>t. 7) s \<and> ms_pc s 0 = Out RetTrue \<and> mx_state (ms_hdr s) \<noteq> 0"
proof -
  obtain s where s: "mx_run fifo_wake (\<lambda>t. 7) (acquire_run 0) mx_start = Some s"
    "obeys disciplined fifo_wake (\<lambda>t. 7) (acquire_run 0) mx_start" "ms_pc s 0 = Out RetTrue"
    using acquire_run_start by blast
  have r: "mx_reach releases_own fifo_wake (\<lambda>t. 7) s"
    using disciplined_reach [OF obeys_reach [OF mx_start_reach s(2,1)]] .
  from mutex_mutual_exclusion [OF r s(3) _ s(3)] r s(3) show ?thesis by auto
qed

text \<open>
  C10. No lost wake-up, for arbitrary clients (forced releases included): as long as a thread
  sleeps on the state word, the word is 2, so the next release wakes a sleeper, or some thread is
  already on duty: it will exchange the word with 2, it was woken, or it still has to make its
  wake call.
\<close>

theorem mutex_no_lost_wakeup:
  assumes "futex_kernel wk" and "mx_reach policy wk pid s" and "t \<in> set (ms_queue s)"
  shows "mx_state (ms_hdr s) = 2 \<or> (\<exists>u. on_duty (ms_queue s) u (phase_of (ms_pc s u)))"
proof -
  have "wake_inv s" using futex_kernel.mx_wake_reach [OF assms(1,2)] .
  with assms(3) show ?thesis by (auto simp: wake_inv_def)
qed

theorem mutex_no_lost_wakeup_witness:
  "\<exists>s :: mx_sys. 1 \<in> set (ms_queue s) \<and>
     (mx_state (ms_hdr s) = 2 \<or> (\<exists>u. on_duty (ms_queue s) u (phase_of (ms_pc s u))))"
proof -
  obtain s where s: "mx_run fifo_wake (\<lambda>t. of_nat (Suc t)) sleep_run mx_start = Some s"
    "obeys disciplined fifo_wake (\<lambda>t. of_nat (Suc t)) sleep_run mx_start" "ms_queue s = [1]"
    using sleep_run_start by blast
  have "mx_reach disciplined fifo_wake (\<lambda>t. of_nat (Suc t)) s"
    using obeys_reach [OF mx_start_reach s(2,1)] .
  from mutex_no_lost_wakeup [OF fifo.futex_kernel_axioms this] s(3) show ?thesis
    by (intro exI [of _ s]) auto
qed

text \<open>
  Deadlock freedom of disciplined clients: whenever a thread sleeps on the mutex, some thread
  holds the lock or is on duty, so the sleepers never wait for nobody.
\<close>

theorem mutex_sleeper_has_waker:
  assumes "futex_kernel wk" and "mx_reach disciplined wk pid s" and "ms_queue s \<noteq> []"
  shows "\<exists>u. ms_holds s u \<or> on_duty (ms_queue s) u (phase_of (ms_pc s u))"
proof -
  have "wake_inv s" using futex_kernel.mx_wake_reach [OF assms(1,2)] .
  moreover have "excl_inv s" using disciplined_reach [OF assms(2)] by (rule mx_excl.reach_inv)
  ultimately show ?thesis using assms(3)
    by (auto simp: wake_inv_def excl_inv_def lockview_of_def)
qed

theorem mutex_sleeper_has_waker_witness:
  "\<exists>(s :: mx_sys) u. ms_queue s = [1] \<and> (ms_holds s u \<or> on_duty (ms_queue s) u (phase_of (ms_pc s u)))"
proof -
  obtain s where s: "mx_run fifo_wake (\<lambda>t. of_nat (Suc t)) sleep_run mx_start = Some s"
    "obeys disciplined fifo_wake (\<lambda>t. of_nat (Suc t)) sleep_run mx_start" "ms_queue s = [1]"
    using sleep_run_start by blast
  have "mx_reach disciplined fifo_wake (\<lambda>t. of_nat (Suc t)) s"
    using obeys_reach [OF mx_start_reach s(2,1)] .
  from mutex_sleeper_has_waker [OF fifo.futex_kernel_axioms this] s(3) show ?thesis
    by (intro exI [of _ s]) auto
qed

text \<open>
  C26. The release race: with clients of two processes that follow the discipline, the mutex can
  reach a state in which thread 1 has acquired the lock and the owner field is 0, because the
  other process cleared the owner after giving the state word back. From there every release
  raises, and no run of disciplined clients ever makes the lock free again.
\<close>

theorem mutex_release_race_wedges:
  assumes "\<And>t. pid t \<noteq> 0" and "pid 0 \<noteq> pid 1"
  shows "\<exists>s. mx_reach disciplined wk pid s \<and> ms_pc s 1 = Out RetTrue \<and> ms_holds s 1 \<and>
    (\<forall>s'. reach (\<lambda>x. x = s) (mx_step disciplined wk pid) s' \<longrightarrow>
       mx_state (ms_hdr s') \<noteq> 0 \<and> mx_owner (ms_hdr s') = 0)"
proof -
  obtain s where s: "mx_run wk pid race mx_start = Some s" "obeys disciplined wk pid race mx_start"
    "ms_pc s 1 = Out RetTrue" "ms_holds s 1" "wedged s"
    using race_run [of pid wk] assms by blast
  have "wedged s'" if "reach (\<lambda>x. x = s) (mx_step disciplined wk pid) s'" for s'
    using that by (induction rule: reach.induct) (use s(5) wedged_step assms(1) in blast)+
  then show ?thesis
    using obeys_reach [OF mx_start_reach s(2,1)] s(3,4) by (auto simp: wedged_def)
qed

theorem mutex_release_race_wedges_witness:
  "\<exists>s. mx_reach disciplined fifo_wake (\<lambda>t. if t = 0 then 100 else 200) s \<and>
     ms_pc s 1 = Out RetTrue \<and> mx_state (ms_hdr s) \<noteq> 0 \<and> mx_owner (ms_hdr s) = 0"
proof -
  have "(if t = 0 then 100 else 200 :: u32) \<noteq> 0" for t :: tid by simp
  from mutex_release_race_wedges [of "\<lambda>t. if t = 0 then 100 else 200", OF this]
  show ?thesis by (auto intro: reach.reach_init)
qed

text \<open>
  C23. The type of the shared state, for arbitrary clients: in every state reachable from a free mutex
  the state word is 0, 1 or 2, the owner field is 0 or the id of a process that uses the mutex, the
  magic number and the flags are as they were, and the kernel's queue lists every sleeper once and
  only threads that are in the wait call.
\<close>

theorem mutex_state_typed:
  assumes "futex_kernel wk" and "mx_init s0" and "reach (\<lambda>s. s = s0) (mx_step policy wk pid) s"
  shows "mx_state (ms_hdr s) \<in> {0, 1, 2} \<and> (mx_owner (ms_hdr s) = 0 \<or> (\<exists>t. mx_owner (ms_hdr s) = pid t)) \<and>
    mx_magic (ms_hdr s) = mx_magic (ms_hdr s0) \<and> mx_flags (ms_hdr s) = mx_flags (ms_hdr s0) \<and>
    distinct (ms_queue s) \<and> (\<forall>t \<in> set (ms_queue s). \<exists>a. ms_pc s t = Acq a ASleep)"
proof -
  have "reach (\<lambda>x. x = s0 \<and> mx_init x) (mx_step policy wk pid) s"
    using assms(3,2) by (rule reach_init_mono) simp
  then have "sys_typed pid s0 s" by (rule mx_type.reach_inv)
  moreover have "mx_reach policy wk pid s"
    using assms(3,2) by (rule reach_init_mono) simp
  then have "wake_inv s" using futex_kernel.mx_wake_reach [OF assms(1)] by blast
  ultimately show ?thesis
    by (auto simp: sys_typed_def hdr_typed_def wake_inv_def dest: phase_sleep)
qed

theorem mutex_state_typed_witness:
  "\<exists>s :: mx_sys. ms_queue s = [1] \<and> mx_state (ms_hdr s) \<in> {0, 1, 2} \<and> (\<exists>a. ms_pc s 1 = Acq a ASleep)"
proof -
  obtain s where s: "mx_run fifo_wake (\<lambda>t. of_nat (Suc t)) sleep_run mx_start = Some s"
    "obeys disciplined fifo_wake (\<lambda>t. of_nat (Suc t)) sleep_run mx_start" "ms_queue s = [1]"
    using sleep_run_start by blast
  have "reach (\<lambda>x. x = mx_start) (mx_step disciplined fifo_wake (\<lambda>t. of_nat (Suc t))) s"
    using obeys_reach [OF reach.reach_init s(2,1)] by simp
  from mutex_state_typed [OF fifo.futex_kernel_axioms _ this] s(3) show ?thesis
    by (intro exI [of _ s]) (simp add: mx_init_def mx_start_def)
qed

text \<open>
  A non-blocking acquisition, \<open>acquire_ns(0, spin)\<close>, returns after at most
  \<open>2 * spin + 4\<close> actions of the calling thread whatever the other threads do: every
  unfinished call can take its next action, and a finished one returned a bool.
\<close>

theorem acquire_ns_nonblocking_bounded:
  assumes "mx_run wk pid es s = Some s'"
    and "ms_pc s t = mx_entry (CallAcq (AcquireNs 0 spin))"
    and "\<forall>c. EvCall t c \<notin> set es"
  shows "own_steps t es \<le> 2 * nat spin + 4 \<and>
    (ms_pc s' t \<in> {Out RetTrue, Out RetFalse} \<or> (\<exists>s''. mx_exec wk pid (EvStep t env) s' = Some s''))"
proof -
  have "nb_pc spin (ms_pc s t)" using assms(2) by simp
  from nb_run [OF assms(1) this assms(3)]
  have "nb_pc spin (ms_pc s' t)" "own_steps t es \<le> 2 * nat spin + 4"
    using assms(2) by auto
  moreover from this(1) have "ms_pc s' t \<in> {Out RetTrue, Out RetFalse} \<or>
      (\<exists>s''. mx_exec wk pid (EvStep t env) s' = Some s'')"
    using nb_pc_enabled [of spin "ms_pc s' t" wk "pid t" env t "mx_mem.truncate s'"]
    by (cases "ms_pc s' t") auto
  ultimately show ?thesis by blast
qed

theorem acquire_ns_nonblocking_bounded_witness:
  "own_steps 0 [EvStep 0 calm, EvStep 0 calm, EvStep 0 calm] \<le> 2 * nat 16 + 4"
proof -
  let ?s = "mx_start\<lparr>ms_pc := (\<lambda>t. mx_entry (CallAcq (AcquireNs 0 16)))\<rparr>"
  let ?es = "[EvStep 0 calm, EvStep 0 calm, EvStep 0 calm]"
  obtain s' where "mx_run fifo_wake (\<lambda>t. 7) ?es ?s = Some s'" by (simp add: mx_eval)
  from acquire_ns_nonblocking_bounded [OF this, of 0 16] show ?thesis by simp
qed

text \<open>
  The uncontended path: \<open>acquire()\<close> on a free mutex takes the lock in four actions
  and records the process and the time, and the following \<open>release()\<close> frees it and
  clears the owner without touching the queue of waiters.
\<close>

theorem mutex_uncontended_acquire_release:
  assumes "ms_pc s t = Out r" and "mx_state (ms_hdr s) = 0" and "mx_owner (ms_hdr s) \<noteq> pid t"
  shows "mx_run wk pid
      [EvCall t (CallAcq Acquire), EvStep t e1, EvStep t e2, EvStep t e3, EvStep t e4] s =
      Some (s\<lparr>ms_hdr := (ms_hdr s)\<lparr>mx_state := 1, mx_owner := pid t, mx_last_ns := env_now e4\<rparr>,
        ms_holds := (ms_holds s)(t := True), ms_pc := (ms_pc s)(t := Out RetTrue)\<rparr>) \<and>
    mx_run wk pid
      [EvCall t (CallAcq Acquire), EvStep t e1, EvStep t e2, EvStep t e3, EvStep t e4,
       EvCall t CallRelease, EvStep t e1, EvStep t e2, EvStep t e3, EvStep t e4] s =
      Some (s\<lparr>ms_hdr := (ms_hdr s)\<lparr>mx_state := 0, mx_owner := 0, mx_last_ns := env_now e4\<rparr>,
        ms_holds := (ms_holds s)(t := False), ms_pc := (ms_pc s)(t := Out RetNone)\<rparr>)"
  using assms by (simp add: mx_eval)

theorem mutex_uncontended_acquire_release_witness:
  "\<exists>s. mx_run fifo_wake (\<lambda>t. 7) (acquire_run 0) mx_start = Some s \<and> mx_owner (ms_hdr s) = 7"
proof -
  have "ms_pc mx_start 0 = Out RetNone" "mx_state (ms_hdr mx_start) = 0"
    "mx_owner (ms_hdr mx_start) \<noteq> (\<lambda>t::tid. 7) 0" by (simp_all add: mx_start_def)
  from mutex_uncontended_acquire_release [OF this, of fifo_wake calm calm calm calm]
  show ?thesis by (simp add: acquire_run_def)
qed

text \<open>
  Header layout: the byte accesses of the C helpers at the documented offsets of the 64-byte
  header are the updates of the header record, so stores, exchanges and compare-and-swaps touch
  their own field only.
\<close>

theorem mutex_header_refinement:
  assumes "base + MUTEX64_SIZE \<le> length mem"
  defines "h \<equiv> mutex64_at mem base"
  shows "mutex64_at (u32_store_rel base MUTEX_OFF_MAGIC v mem) base = h\<lparr>mx_magic := v\<rparr> \<and>
    mutex64_at (u32_store_rel base MUTEX_OFF_OWNER v mem) base = h\<lparr>mx_owner := v\<rparr> \<and>
    mutex64_at (u64_store_rel_unaligned base MUTEX_OFF_LASTNS n mem) base = h\<lparr>mx_last_ns := n\<rparr> \<and>
    fst (u32_xchg_rel base MUTEX_OFF_STATE v mem) = mx_state h \<and>
    mutex64_at (snd (u32_xchg_rel base MUTEX_OFF_STATE v mem)) base = h\<lparr>mx_state := v\<rparr> \<and>
    fst (u32_cas_acqrel base MUTEX_OFF_STATE e v mem) = (mx_state h = e) \<and>
    mutex64_at (snd (u32_cas_acqrel base MUTEX_OFF_STATE e v mem)) base =
      (if mx_state h = e then h\<lparr>mx_state := v\<rparr> else h)"
  using assms(1)
  by (auto simp: h_def mutex64_at_def mutex_layout u32_store_rel_def
      u64_store_rel_unaligned_def u32_xchg_rel_def u32_cas_acqrel_def buf_simps)

theorem mutex_header_refinement_witness:
  "mutex64_at (u32_store_rel 0 MUTEX_OFF_OWNER 7 (replicate 64 0)) 0 =
    (mutex64_at (replicate 64 0) 0)\<lparr>mx_owner := 7\<rparr>"
proof -
  have "0 + MUTEX64_SIZE \<le> length (replicate 64 (0 :: u8))" by (simp add: MUTEX64_SIZE_def)
  from mutex_header_refinement [OF this, of 7] show ?thesis by simp
qed

end
