(* ===== verification/Mutex_Linear.thy ===== *)
theory Mutex_Linear
  imports Mutex_Safety
begin

text \<open>
  The calls and returns of the mutex are those of an atomic lock. The abstract object has an owner and, for
  each thread, whether it is idle, has called, or has got its result; each call takes effect in one
  indivisible move between its invocation and its return, and what it returns is what that move gave.
  Every run of the machine is matched action by action: an action is a move of the atomic lock, or it is
  not visible and changes nothing.
\<close>

section \<open>The atomic lock\<close>

datatype lock_label = Invoke tid mx_call | Return tid mx_result

datatype lock_status = Idle | Pending mx_call | Effective mx_result

fun success :: "acq_op \<Rightarrow> mx_result" where
  "success Enter = RetSelf"
| "success _ = RetTrue"

fun refusal :: "acq_op \<Rightarrow> tid option \<Rightarrow> mx_result \<Rightarrow> bool" where
  \<comment> \<open>how an acquisition may fail, given the owner: \<open>try_acquire\<close> only if there is one, a timed
    acquisition without an end never, \<open>__enter__\<close> never\<close>
  "refusal Acquire owner r = (r = RetRuntimeError)"
| "refusal (AcquireNs timeout_ns spin) owner r = (r = RetFalse \<and> 0 \<le> timeout_ns)"
| "refusal TryAcquire owner r = (r = RetFalse \<and> owner \<noteq> None)"
| "refusal Enter owner r = False"

inductive lock_move :: "tid \<Rightarrow> tid option \<Rightarrow> lock_status \<Rightarrow> mx_result option \<Rightarrow> tid option \<Rightarrow> lock_status \<Rightarrow> bool"
  for t where
  \<comment> \<open>owner and status of thread \<open>t\<close>, the result if the move is a return, owner and status afterwards\<close>
  takes: "lock_move t None (Pending (CallAcq a)) None (Some t) (Effective (success a))"
| refuses: "refusal a owner r \<Longrightarrow> lock_move t owner (Pending (CallAcq a)) (Some r) owner Idle"
| gives: "c \<in> {CallRelease, CallForceRelease} \<Longrightarrow> lock_move t (Some t) (Pending c) None None (Effective RetNone)"
| not_owner: "lock_move t owner (Pending CallRelease) (Some RetRuntimeError) owner Idle"
| returns: "lock_move t owner (Effective r) (Some r) owner Idle"

inductive lock_history :: "lock_label list \<Rightarrow> tid option \<Rightarrow> (tid \<Rightarrow> lock_status) \<Rightarrow> bool" where
  \<comment> \<open>the histories of the atomic lock, with the state they lead to\<close>
  fresh: "lock_history [] None (\<lambda>t. Idle)"
| invoked: "lock_history h owner st \<Longrightarrow> st t = Idle \<Longrightarrow> lock_history (h @ [Invoke t c]) owner (st(t := Pending c))"
| effect: "lock_history h owner st \<Longrightarrow> lock_move t owner (st t) None owner' x \<Longrightarrow>
    lock_history h owner' (st(t := x))"
| returned: "lock_history h owner st \<Longrightarrow> lock_move t owner (st t) (Some r) owner' x \<Longrightarrow>
    lock_history (h @ [Return t r]) owner' (st(t := x))"

section \<open>The observable run of the machine\<close>

fun label_of :: "mx_event \<Rightarrow> mx_sys \<Rightarrow> lock_label list" where
  "label_of (EvCall t c) s' = [Invoke t c]"
| "label_of (EvStep t env) s' = (case ms_pc s' t of Out r \<Rightarrow> [Return t r] | _ \<Rightarrow> [])"

fun observe :: "wakefn \<Rightarrow> (tid \<Rightarrow> u32) \<Rightarrow> mx_event list \<Rightarrow> mx_sys \<Rightarrow> lock_label list" where
  "observe wk pid [] s = []"
| "observe wk pid (e # es) s =
     (case mx_exec wk pid e s of None \<Rightarrow> [] | Some s' \<Rightarrow> label_of e s' @ observe wk pid es s')"

fun status_of :: "mx_pc \<Rightarrow> lock_status" where
  "status_of (Out r) = Idle"
| "status_of (Acq a AOwner) = Effective (success a)"
| "status_of (Acq a AStamp) = Effective (success a)"
| "status_of (Acq a p) = Pending (CallAcq a)"
| "status_of (Rel f RCheck) = Pending (if f then CallForceRelease else CallRelease)"
| "status_of (Rel f RXchg) = Pending (if f then CallForceRelease else CallRelease)"
| "status_of (Rel f p) = Effective RetNone"

section \<open>Each action is a move\<close>

definition owned_by :: "tid option \<Rightarrow> (tid \<Rightarrow> bool) \<Rightarrow> bool" where
  "owned_by owner h \<longleftrightarrow> (\<forall>u. h u \<longleftrightarrow> owner = Some u)"

definition owner_after :: "tid \<Rightarrow> tid option \<Rightarrow> (tid \<Rightarrow> bool) \<Rightarrow> tid option" where
  "owner_after t owner h = (if h t then Some t else if owner = Some t then None else owner)"

definition matched :: "tid \<Rightarrow> tid option \<Rightarrow> mx_pc \<Rightarrow> mx_pc \<Rightarrow> mx_mem \<Rightarrow> bool" where
  "matched t owner pc pc' m' \<longleftrightarrow>
     (let owner' = owner_after t owner (ms_holds m') in owned_by owner' (ms_holds m') \<and>
       (case pc' of
          Out r \<Rightarrow> lock_move t owner (status_of pc) (Some r) owner' Idle
        | _ \<Rightarrow> owner' = owner \<and> status_of pc' = status_of pc \<or>
            lock_move t owner (status_of pc) None owner' (status_of pc')))"

lemma owner_after_same: "owned_by owner h \<Longrightarrow> owner_after t owner h = owner"
  by (auto simp: owned_by_def owner_after_def)

lemma owned_by_taken:
  "owned_by None h \<Longrightarrow> owner_after t None (h(t := True)) = Some t \<and> owned_by (Some t) (h(t := True))"
  by (auto simp: owned_by_def owner_after_def)

lemma owned_by_given:
  "owned_by (Some t) h \<Longrightarrow> owner_after t (Some t) (h(t := False)) = None \<and> owned_by None (h(t := False))"
  by (auto simp: owned_by_def owner_after_def)

lemma refuses_held: "lock_move t (Some u) (Pending (CallAcq TryAcquire)) (Some RetFalse) (Some u) Idle"
  by (rule refuses) simp

lemma refuses_timed [simp]:
  "0 \<le> timeout_ns \<Longrightarrow> lock_move t owner (Pending (CallAcq (AcquireNs timeout_ns spin))) (Some RetFalse) owner Idle"
  by (rule refuses) simp

lemmas move_simps = matched_def Let_def mx_action_defs

lemma acquire_matched:
  assumes "owned_by owner (ms_holds m)" and "mx_state (ms_hdr m) = 0 \<longleftrightarrow> owner = None"
  shows "FutexMutex_acquire_fast p env t pc m = Some (pc', m') \<Longrightarrow> matched t owner (Acq Acquire pc) pc' m'"
    and "FutexMutex_try_acquire p env t pc m = Some (pc', m') \<Longrightarrow> matched t owner (Acq TryAcquire pc) pc' m'"
    and "FutexMutex_enter p env t pc m = Some (pc', m') \<Longrightarrow> matched t owner (Acq Enter pc) pc' m'"
    and "FutexMutex_acquire_ns tmo spin p env t pc m = Some (pc', m') \<Longrightarrow> matched t owner (Acq (AcquireNs tmo spin) pc) pc' m'"
proof -
  note intros = takes [of t Acquire, simplified] takes [of t TryAcquire, simplified] takes [of t Enter, simplified]
    takes [of t "AcquireNs tmo spin", simplified] returns
    refuses [of Acquire, simplified] refuses_held refuses_timed
  note matched_simps = move_simps owner_after_same owned_by_taken
  show "FutexMutex_acquire_fast p env t pc m = Some (pc', m') \<Longrightarrow> matched t owner (Acq Acquire pc) pc' m'"
    using assms by (cases pc) (auto simp: matched_simps split: if_splits fut_event.splits intro: intros)
  show "FutexMutex_try_acquire p env t pc m = Some (pc', m') \<Longrightarrow> matched t owner (Acq TryAcquire pc) pc' m'"
    using assms by (cases pc) (auto simp: matched_simps split: if_splits intro: intros)
  show "FutexMutex_enter p env t pc m = Some (pc', m') \<Longrightarrow> matched t owner (Acq Enter pc) pc' m'"
    using assms by (cases pc) (auto simp: matched_simps split: if_splits fut_event.splits intro: intros)
  show "FutexMutex_acquire_ns tmo spin p env t pc m = Some (pc', m') \<Longrightarrow> matched t owner (Acq (AcquireNs tmo spin) pc) pc' m'"
    using assms by (cases pc)
      (auto simp: matched_simps split: if_splits option.splits fut_event.splits intro: intros)
qed

lemma release_matched:
  assumes "owned_by owner (ms_holds m)" and "phase_ok (phase_of (Rel f pc)) (ms_holds m t)"
  shows "f = False \<Longrightarrow> FutexMutex_release wk p t pc m = Some (pc', m') \<Longrightarrow> matched t owner (Rel f pc) pc' m'"
    and "f = True \<Longrightarrow> FutexMutex_force_release wk t pc m = Some (pc', m') \<Longrightarrow> matched t owner (Rel f pc) pc' m'"
proof -
  have owner: "owner = Some t" if "ms_holds m t" using that assms(1) by (simp add: owned_by_def)
  note intros = gives [of CallRelease, simplified] gives [of CallForceRelease, simplified] not_owner returns
  note matched_simps = move_simps owner_after_same owned_by_given
  show "f = False \<Longrightarrow> FutexMutex_release wk p t pc m = Some (pc', m') \<Longrightarrow> matched t owner (Rel f pc) pc' m'"
    using assms owner by (cases pc) (auto simp: matched_simps split: if_splits intro: intros)
  show "f = True \<Longrightarrow> FutexMutex_force_release wk t pc m = Some (pc', m') \<Longrightarrow> matched t owner (Rel f pc) pc' m'"
    using assms owner by (cases pc) (auto simp: matched_simps split: if_splits intro: intros)
qed

lemma step_matched:
  assumes "mx_pc_step wk p env t pc m = Some (pc', m')" and "owned_by owner (ms_holds m)"
    and "mx_state (ms_hdr m) = 0 \<longleftrightarrow> owner = None" and "phase_ok (phase_of pc) (ms_holds m t)"
  shows "matched t owner pc pc' m'"
proof (cases pc)
  case (Acq a x)
  then show ?thesis using assms acquire_matched [OF assms(2,3)] by (cases a) auto
next
  case (Rel f x)
  then show ?thesis using assms release_matched [OF assms(2)] by (cases f) auto
qed (use assms(1) in simp)

lemma excl_owner:
  assumes "excl_inv s" and "owned_by owner (ms_holds s)"
  shows "mx_state (ms_hdr s) = 0 \<longleftrightarrow> owner = None"
  using assms by (auto simp: excl_inv_def owned_by_def lockview_of_def)

lemma status_of_entry: "status_of (mx_entry c) = Pending c"
  by (cases c rule: mx_entry.cases) auto

lemma status_fun_upd: "(\<lambda>u. status_of ((f(t := x)) u)) = (\<lambda>u. status_of (f u))(t := status_of x)"
  by auto

lemma exec_matched:
  assumes hist: "lock_history h owner (\<lambda>t. status_of (ms_pc s t))" and own: "owned_by owner (ms_holds s)"
    and inv: "excl_inv s" and ex: "mx_exec wk pid e s = Some s'"
  shows "\<exists>owner'. lock_history (h @ label_of e s') owner' (\<lambda>t. status_of (ms_pc s' t)) \<and>
    owned_by owner' (ms_holds s')"
proof (cases e)
  case (EvCall t c)
  with ex obtain r where "ms_pc s t = Out r" and s': "s' = s\<lparr>ms_pc := (ms_pc s)(t := mx_entry c)\<rparr>"
    by (auto split: mx_pc.splits)
  then have "lock_history (h @ [Invoke t c]) owner ((\<lambda>t. status_of (ms_pc s t))(t := Pending c))"
    by (intro invoked [OF hist]) simp
  with s' EvCall own show ?thesis
    by (intro exI [of _ owner]) (simp add: status_fun_upd status_of_entry del: fun_upd_apply)
next
  case (EvStep t env)
  with ex obtain pc' m' where step: "mx_pc_step wk (pid t) env t (ms_pc s t) (mx_mem.truncate s) = Some (pc', m')"
    and s': "s' = with_mem s t (pc', m')" by auto
  let ?owner = "owner_after t owner (ms_holds m')"
  have "matched t owner (ms_pc s t) pc' m'"
    using step own excl_owner [OF inv own] inv
    by (intro step_matched) (auto simp: mx_mem.truncate_def excl_inv_def)
  moreover have pcs: "ms_pc s' = (ms_pc s)(t := pc')" "ms_holds s' = ms_holds m'"
    using s' by (simp_all add: with_mem_def)
  ultimately have "owned_by ?owner (ms_holds s')" and
    "lock_history (h @ label_of e s') ?owner ((\<lambda>t. status_of (ms_pc s t))(t := status_of pc'))"
    using EvStep hist effect [OF hist, of t] returned [OF hist, of t]
    by (auto simp: matched_def Let_def fun_upd_idem split: mx_pc.splits)
  with pcs show ?thesis
    by (intro exI [of _ ?owner]) (simp add: status_fun_upd del: fun_upd_apply)
qed

lemma run_matched:
  "lock_history h owner (\<lambda>t. status_of (ms_pc s t)) \<Longrightarrow> owned_by owner (ms_holds s) \<Longrightarrow> excl_inv s \<Longrightarrow>
    obeys releases_own wk pid es s \<Longrightarrow> mx_run wk pid es s = Some s' \<Longrightarrow>
    \<exists>owner'. lock_history (h @ observe wk pid es s) owner' (\<lambda>t. status_of (ms_pc s' t)) \<and>
      owned_by owner' (ms_holds s') \<and> excl_inv s'"
proof (induction es arbitrary: h owner s)
  case (Cons e es)
  then obtain s1 where s1: "mx_exec wk pid e s = Some s1" "mx_run wk pid es s1 = Some s'"
    "releases_own e s" "obeys releases_own wk pid es s1"
    by (auto split: option.splits bind_splits)
  obtain owner1 where "lock_history (h @ label_of e s1) owner1 (\<lambda>t. status_of (ms_pc s1 t))"
    and "owned_by owner1 (ms_holds s1)"
    using exec_matched [OF Cons.prems(1-3) s1(1)] by blast
  moreover have "excl_inv s1"
    using Cons.prems(3) s1(1,3) by (blast intro: excl_inv_step mx_stepI)
  ultimately show ?case using Cons.IH [OF _ _ _ s1(4,2)] s1(1) by fastforce
qed auto

section \<open>Property\<close>

text \<open>
  C2. The mutex is linearizable to a lock with one owner. Take any run from a free mutex in which nobody releases a
  lock he does not hold, and look only at the calls and at what they return. That history is one of the atomic
  lock, in which each call takes effect in one move between its call and its return: a successful acquisition
  takes the lock from nobody, \<open>try_acquire\<close> returns False only against an owner, \<open>acquire_ns\<close>
  returns False only for a timeout that is not negative, \<open>__enter__\<close> always gets the lock, and a
  release that returns None gave back the caller's own lock. The atomic owner at the end is the thread that holds the
  mutex, and the state word is 0 exactly if there is none.
\<close>

theorem mutex_refines_lock:
  assumes "mx_init s0" and "obeys releases_own wk pid es s0" and "mx_run wk pid es s0 = Some s"
  shows "\<exists>owner. lock_history (observe wk pid es s0) owner (\<lambda>t. status_of (ms_pc s t)) \<and>
    (\<forall>t. ms_holds s t \<longleftrightarrow> owner = Some t) \<and> (mx_state (ms_hdr s) = 0 \<longleftrightarrow> owner = None)"
proof -
  have "lock_history [] None (\<lambda>t. status_of (ms_pc s0 t))" and "owned_by None (ms_holds s0)"
    and "excl_inv s0"
    using assms(1) fresh by (auto simp: mx_init_def owned_by_def excl_inv_def lockview_of_def)
  from run_matched [OF this assms(2,3)] excl_owner show ?thesis
    by (auto simp: owned_by_def)
qed

theorem mutex_refines_lock_witness:
  "\<exists>s. mx_run fifo_wake (\<lambda>t. 7) (acquire_run 0) mx_start = Some s \<and>
     lock_history [Invoke 0 (CallAcq Acquire), Return 0 RetTrue] (Some 0) (\<lambda>t. status_of (ms_pc s t))"
proof -
  obtain s where s: "mx_run fifo_wake (\<lambda>t. 7) (acquire_run 0) mx_start = Some s"
    "obeys releases_own fifo_wake (\<lambda>t. 7) (acquire_run 0) mx_start" "ms_holds s 0"
    by (simp add: acquire_run_def mx_eval)
  have obs: "observe fifo_wake (\<lambda>t. 7) (acquire_run 0) mx_start =
      [Invoke 0 (CallAcq Acquire), Return 0 RetTrue]"
    by (simp add: acquire_run_def mx_eval)
  have "mx_init mx_start" by (simp add: mx_init_def mx_start_def)
  from mutex_refines_lock [OF this s(2,1)] s(1,3) obs show ?thesis by auto
qed

end
