(* ===== verification/Semaphore.thy ===== *)
theory Semaphore
  imports Mutex
begin

text \<open>
  \<open>fastipc._primitives.Semaphore\<close>: the 64-byte header and the methods as machines of
  atomic actions, in the style of the theory of the mutex. \<open>ss_posted\<close> and
  \<open>ss_taken\<close> are auxiliary variables: the tokens added by posts and taken by waits so far.
\<close>

section \<open>The header\<close>

record sem64 =
  sm_magic :: u32
  sm_flags :: u32
  sm_count :: u32
  sm_last_pid :: u32
  sm_last_ns :: u64

definition SEM64_SIZE :: nat where "SEM64_SIZE = 64"
definition SEM_MAGIC :: u32 where "SEM_MAGIC = 0x53454D41"
definition SEM_OFF_MAGIC :: nat where "SEM_OFF_MAGIC = 0"
definition SEM_OFF_FLAGS :: nat where "SEM_OFF_FLAGS = 4"
definition SEM_OFF_COUNT :: nat where "SEM_OFF_COUNT = 8"
definition SEM_OFF_LASTPID :: nat where "SEM_OFF_LASTPID = 12"
definition SEM_OFF_LASTNS :: nat where "SEM_OFF_LASTNS = 16"

definition UINT32_MAX :: u32 where "UINT32_MAX = 0xFFFFFFFF"
definition INT_MAX :: nat where "INT_MAX = 2147483647"

definition sem64_at :: "bytes \<Rightarrow> nat \<Rightarrow> sem64" where
  "sem64_at mem base =
     \<lparr>sm_magic = u32_at mem (base + SEM_OFF_MAGIC),
      sm_flags = u32_at mem (base + SEM_OFF_FLAGS),
      sm_count = u32_at mem (base + SEM_OFF_COUNT),
      sm_last_pid = u32_at mem (base + SEM_OFF_LASTPID),
      sm_last_ns = u64_at mem (base + SEM_OFF_LASTNS)\<rparr>"

record FutexSemaphore =
  fs_base :: nat
  fs_shared :: bool

text \<open>
  The constructor. \<open>initial\<close> is \<open>None\<close> or a Python integer; the magic is stored before
  \<open>initial\<close> is converted, so a constructor that raises has already written it.
\<close>

definition FutexSemaphore_init :: "bufview \<Rightarrow> int option \<Rightarrow> bool \<Rightarrow> bytes \<Rightarrow>
    FutexSemaphore res \<times> bytes" where
  "FutexSemaphore_init view initial sh mem =
     (if v_len view < SEM64_SIZE \<or> v_addr view mod 4 \<noteq> 0 then (Inl ValueError, mem)
      else
        (let self = \<lparr>fs_base = v_off view, fs_shared = sh\<rparr>;
             mem1 = u32_store_rel (v_off view) SEM_OFF_MAGIC SEM_MAGIC mem
         in case initial of
              None \<Rightarrow> (Inr self, mem1)
            | Some init \<Rightarrow>
                (if init < 0 \<or> 2 ^ 64 \<le> init then (Inl OverflowError, mem1)
                 else if init > 0xFFFFFFFF then (Inl OverflowError, mem1)
                 else (Inr self, u32_store_rel (v_off view) SEM_OFF_COUNT (word_of_int init) mem1))))"

definition FutexSemaphore_value :: "FutexSemaphore \<Rightarrow> bytes \<Rightarrow> int" where
  "FutexSemaphore_value self mem = uint (u32_load_acq (fs_base self) SEM_OFF_COUNT mem)"

definition FutexSemaphore_last_acquired_ns :: "FutexSemaphore \<Rightarrow> bytes \<Rightarrow> int" where
  "FutexSemaphore_last_acquired_ns self mem =
     uint (u64_load_acq_unaligned (fs_base self) SEM_OFF_LASTNS mem)"

definition FutexSemaphore_last_pid :: "FutexSemaphore \<Rightarrow> bytes \<Rightarrow> int" where
  "FutexSemaphore_last_pid self mem = uint (u32_load_acq (fs_base self) SEM_OFF_LASTPID mem)"

definition FutexSemaphore_magic :: "FutexSemaphore \<Rightarrow> bytes \<Rightarrow> int" where
  "FutexSemaphore_magic self mem = uint (u32_load_acq (fs_base self) SEM_OFF_MAGIC mem)"

section \<open>Calls, program points and the shared state\<close>

datatype sem_result = SRetTrue | SRetFalse | SRetNone | SRetOverflow

record sem_args =
  wa_blocking :: bool
  wa_timeout :: int
  wa_spin :: int

datatype sem_pc =
    SOut sem_result
  | PostLoad u32              \<comment> \<open>load the count; the tokens to add\<close>
  | PostCas u32 u32           \<comment> \<open>weak compare-and-swap; the tokens to add and the loaded count\<close>
  | PostWake u32 u32          \<comment> \<open>wake the waiters; the tokens added and the old count\<close>
  | WSpin sem_args nat        \<comment> \<open>head of the spin loop\<close>
  | WCas sem_args nat u32     \<comment> \<open>weak compare-and-swap of the loaded count\<close>
  | WFutex sem_args           \<comment> \<open>about to call \<open>FUTEX_WAIT\<close> with 0\<close>
  | WSleep sem_args           \<comment> \<open>in the kernel\<close>
  | WPid                      \<comment> \<open>store the process\<close>
  | WStamp                    \<comment> \<open>store the time\<close>

datatype sem_call = CallPost int | CallPost1 | CallWait bool int int

record sem_mem =
  ss_hdr :: sem64
  ss_queue :: "tid list"
  ss_posted :: nat
  ss_taken :: nat

record sem_sys = sem_mem +
  ss_pc :: "tid \<Rightarrow> sem_pc"

section \<open>The methods\<close>

abbreviation put_count :: "u32 \<Rightarrow> sem_mem \<Rightarrow> sem_mem" where
  "put_count v m \<equiv> m\<lparr>ss_hdr := (ss_hdr m)\<lparr>sm_count := v\<rparr>\<rparr>"

fun semaphore_add_tokens :: "mx_env \<Rightarrow> sem_pc \<Rightarrow> sem_mem \<Rightarrow> (sem_pc \<times> sem_mem) option" where
  "semaphore_add_tokens env (PostLoad add) m =
     (let cur = sm_count (ss_hdr m) in
      if add = 0 then Some (PostWake add cur, m)
      else if cur > UINT32_MAX - add then Some (SOut SRetOverflow, m)
      else Some (PostCas add cur, m))"
| "semaphore_add_tokens env (PostCas add cur) m =
     (if env_weak_fail env \<or> sm_count (ss_hdr m) \<noteq> cur then Some (PostLoad add, m)
      else Some (PostWake add cur, (put_count (cur + add) m)\<lparr>ss_posted := ss_posted m + unat add\<rparr>))"
| "semaphore_add_tokens env pc m = None"

definition wake_n :: "u32 \<Rightarrow> nat" where
  "wake_n add = (let n = (if unat add > INT_MAX then INT_MAX else unat add)
     in if n \<le> 0 then INT_MAX else n)"

fun semaphore_wake_waiters :: "wakefn \<Rightarrow> sem_pc \<Rightarrow> sem_mem \<Rightarrow> (sem_pc \<times> sem_mem) option" where
  "semaphore_wake_waiters wk (PostWake add prev) m =
     Some (SOut SRetNone,
       if add = 0 \<or> prev \<noteq> 0 then m else m\<lparr>ss_queue := wk (wake_n add) (ss_queue m)\<rparr>)"
| "semaphore_wake_waiters wk pc m = None"

fun FutexSemaphore_wait :: "u32 \<Rightarrow> mx_env \<Rightarrow> tid \<Rightarrow> sem_pc \<Rightarrow> sem_mem \<Rightarrow>
    (sem_pc \<times> sem_mem) option" where
  "FutexSemaphore_wait pid env t (WSpin a i) m =
     (if int i < wa_spin a then
        Some (if sm_count (ss_hdr m) > 0 then WCas a i (sm_count (ss_hdr m)) else WSpin a (Suc i), m)
      else if \<not> wa_blocking a then Some (SOut SRetFalse, m)
      else Some (WFutex a, m))"
| "FutexSemaphore_wait pid env t (WCas a i v) m =
     (if env_weak_fail env \<or> sm_count (ss_hdr m) \<noteq> v then Some (WSpin a (Suc i), m)
      else Some (WPid, (put_count (v - 1) m)\<lparr>ss_taken := Suc (ss_taken m)\<rparr>))"
| "FutexSemaphore_wait pid env t (WFutex a) m =
     (if sm_count (ss_hdr m) = 0 then Some (WSleep a, m\<lparr>ss_queue := ss_queue m @ [t]\<rparr>)
      else Some (WSpin a 0, m))"
| "FutexSemaphore_wait pid env t (WSleep a) m =
     (if t \<notin> set (ss_queue m) then Some (WSpin a 0, m)
      else (let m' = m\<lparr>ss_queue := remove1 t (ss_queue m)\<rparr> in
        case env_event env of
          Answered \<Rightarrow> Some (WSpin a 0, m')
        | Interrupted \<Rightarrow> Some (WSpin a 0, m')
        | TimedOut \<Rightarrow> (if wa_timeout a \<ge> 0 then Some (SOut SRetFalse, m') else None)))"
| "FutexSemaphore_wait pid env t WPid m =
     Some (WStamp, m\<lparr>ss_hdr := (ss_hdr m)\<lparr>sm_last_pid := pid\<rparr>\<rparr>)"
| "FutexSemaphore_wait pid env t WStamp m =
     Some (SOut SRetTrue, m\<lparr>ss_hdr := (ss_hdr m)\<lparr>sm_last_ns := env_now env\<rparr>\<rparr>)"
| "FutexSemaphore_wait pid env t pc m = None"

fun FutexSemaphore_post :: "wakefn \<Rightarrow> mx_env \<Rightarrow> sem_pc \<Rightarrow> sem_mem \<Rightarrow> (sem_pc \<times> sem_mem) option" where
  "FutexSemaphore_post wk env (PostWake add prev) m = semaphore_wake_waiters wk (PostWake add prev) m"
| "FutexSemaphore_post wk env pc m = semaphore_add_tokens env pc m"

text \<open>
  The first program point of a call: \<open>post(n)\<close> converts \<open>n\<close> to 64 bits without an
  overflow check and refuses what does not fit into 32 bits.
\<close>

fun sem_entry :: "sem_call \<Rightarrow> sem_pc" where
  "sem_entry (CallPost n) =
     (let n_ull = arg_k n in if n_ull > 0xFFFFFFFF then SOut SRetOverflow else PostLoad (ucast n_ull))"
| "sem_entry CallPost1 = PostLoad 1"
| "sem_entry (CallWait blocking timeout_ns spin) =
     WSpin \<lparr>wa_blocking = blocking, wa_timeout = timeout_ns, wa_spin = spin\<rparr> 0"

text \<open>The Python arguments of \<open>wait\<close> are converted before the call starts.\<close>

definition FutexSemaphore_wait_args :: "bool \<Rightarrow> int \<Rightarrow> int \<Rightarrow> sem_call res" where
  "FutexSemaphore_wait_args blocking timeout_ns spin =
     res_bind (arg_L timeout_ns) (\<lambda>tmo. res_bind (arg_i spin) (\<lambda>n. Inr (CallWait blocking tmo n)))"

section \<open>The system of threads\<close>

fun sem_pc_step :: "wakefn \<Rightarrow> u32 \<Rightarrow> mx_env \<Rightarrow> tid \<Rightarrow> sem_pc \<Rightarrow> sem_mem \<Rightarrow>
    (sem_pc \<times> sem_mem) option" where
  "sem_pc_step wk pid env t (PostLoad add) m = FutexSemaphore_post wk env (PostLoad add) m"
| "sem_pc_step wk pid env t (PostCas add cur) m = FutexSemaphore_post wk env (PostCas add cur) m"
| "sem_pc_step wk pid env t (PostWake add prev) m = FutexSemaphore_post wk env (PostWake add prev) m"
| "sem_pc_step wk pid env t pc m = FutexSemaphore_wait pid env t pc m"

datatype sem_event = SemCall tid sem_call | SemStep tid mx_env

definition with_sem :: "sem_sys \<Rightarrow> tid \<Rightarrow> sem_pc \<times> sem_mem \<Rightarrow> sem_sys" where
  "with_sem s t r =
     (case r of (pc, m) \<Rightarrow>
        \<lparr>ss_hdr = ss_hdr m, ss_queue = ss_queue m, ss_posted = ss_posted m, ss_taken = ss_taken m,
         ss_pc = (ss_pc s)(t := pc)\<rparr>)"

fun sem_exec :: "wakefn \<Rightarrow> (tid \<Rightarrow> u32) \<Rightarrow> sem_event \<Rightarrow> sem_sys \<Rightarrow> sem_sys option" where
  "sem_exec wk pid (SemCall t c) s =
     (case ss_pc s t of SOut r \<Rightarrow> Some (s\<lparr>ss_pc := (ss_pc s)(t := sem_entry c)\<rparr>) | _ \<Rightarrow> None)"
| "sem_exec wk pid (SemStep t env) s =
     map_option (with_sem s t) (sem_pc_step wk (pid t) env t (ss_pc s t) (sem_mem.truncate s))"

fun sem_run :: "wakefn \<Rightarrow> (tid \<Rightarrow> u32) \<Rightarrow> sem_event list \<Rightarrow> sem_sys \<Rightarrow> sem_sys option" where
  "sem_run wk pid [] s = Some s"
| "sem_run wk pid (e # es) s = Option.bind (sem_exec wk pid e s) (sem_run wk pid es)"

inductive sem_step :: "(sem_event \<Rightarrow> bool) \<Rightarrow> wakefn \<Rightarrow> (tid \<Rightarrow> u32) \<Rightarrow> sem_sys \<Rightarrow> sem_sys \<Rightarrow> bool"
  for policy wk pid where
  sem_stepI: "policy e \<Longrightarrow> sem_exec wk pid e s = Some s' \<Longrightarrow> sem_step policy wk pid s s'"

definition sem_init :: "u32 \<Rightarrow> sem_sys \<Rightarrow> bool" where
  "sem_init n s \<longleftrightarrow> sm_count (ss_hdr s) = n \<and> ss_queue s = [] \<and> ss_posted s = 0 \<and> ss_taken s = 0 \<and>
     (\<forall>t. ss_pc s t = SOut SRetNone)"

fun any_sem_client :: "sem_event \<Rightarrow> bool" where
  "any_sem_client e = True"

fun single_waiter :: "tid \<Rightarrow> sem_event \<Rightarrow> bool" where
  \<comment> \<open>only thread \<open>w\<close> waits\<close>
  "single_waiter w (SemCall t (CallWait b tmo sp)) = (t = w)"
| "single_waiter w e = True"

abbreviation sem_reach :: "(sem_event \<Rightarrow> bool) \<Rightarrow> u32 \<Rightarrow> wakefn \<Rightarrow> (tid \<Rightarrow> u32) \<Rightarrow> sem_sys \<Rightarrow> bool" where
  "sem_reach policy n wk pid \<equiv> reach (sem_init n) (sem_step policy wk pid)"

end
