(* ===== verification/Semaphore_Safety.thy ===== *)
theory Semaphore_Safety
  imports Semaphore
begin

text \<open>
  Properties of the semaphore under every interleaving: conservation of tokens, the wake-up
  guarantee for a single waiter, and the wake-up that is lost with two waiters.
\<close>

section \<open>Arithmetic of the counter\<close>

lemma no_overflow_add:
  assumes "\<not> cur > UINT32_MAX - add"
  shows "unat (cur + add) = unat cur + unat add"
proof -
  have m: "unat UINT32_MAX = 4294967295" by (simp add: UINT32_MAX_def)
  have "unat (UINT32_MAX - add) = 4294967295 - unat add"
    using unat_u32_less [of add] m by (subst unat_sub) (auto simp: word_le_nat_alt)
  with assms have "unat cur + unat add \<le> 4294967295"
    using unat_u32_less [of add] by (simp add: word_less_nat_alt)
  then show ?thesis by (simp add: unat_word_ariths)
qed

lemma unat_pred: "v \<noteq> (0 :: u32) \<Longrightarrow> Suc (unat (v - 1)) = unat v"
  by (metis Suc_pred' unat_gt_0 unat_minus_one)

section \<open>Conservation of tokens\<close>

fun sem_pc_ok :: "sem_pc \<Rightarrow> bool" where
  "sem_pc_ok (PostCas add cur) = (unat (cur + add) = unat cur + unat add)"
| "sem_pc_ok (WCas a i v) = (v \<noteq> 0)"
| "sem_pc_ok pc = True"

definition conserve_inv :: "u32 \<Rightarrow> sem_sys \<Rightarrow> bool" where
  "conserve_inv n s \<longleftrightarrow> unat (sm_count (ss_hdr s)) + ss_taken s = unat n + ss_posted s \<and>
     (\<forall>t. sem_pc_ok (ss_pc s t))"

lemma sem_pc_step_conserves:
  assumes "sem_pc_step wk pid env t pc m = Some (pc', m')" and "sem_pc_ok pc"
  shows "unat (sm_count (ss_hdr m')) + ss_taken m' + ss_posted m =
      unat (sm_count (ss_hdr m)) + ss_taken m + ss_posted m' \<and> sem_pc_ok pc'"
  using assms
  by (cases pc)
    (auto simp: Let_def unat_pred no_overflow_add split: if_splits fut_event.splits)

lemma sem_exec_cases:
  assumes "sem_exec wk pid e s = Some s'"
  obtains (call) t c r where "e = SemCall t c" and "ss_pc s t = SOut r"
      and "s' = s\<lparr>ss_pc := (ss_pc s)(t := sem_entry c)\<rparr>"
    | (act) t env pc' m' where "e = SemStep t env"
      and "sem_pc_step wk (pid t) env t (ss_pc s t) (sem_mem.truncate s) = Some (pc', m')"
      and "s' = with_sem s t (pc', m')"
proof (cases e)
  case (SemCall t c)
  with assms show ?thesis by (auto split: sem_pc.splits intro: call)
next
  case (SemStep t env)
  with assms show ?thesis by (auto intro: act)
qed

lemmas sem_layout = SEM64_SIZE_def SEM_OFF_MAGIC_def SEM_OFF_FLAGS_def SEM_OFF_COUNT_def
  SEM_OFF_LASTPID_def SEM_OFF_LASTNS_def

lemmas sem_state_defs = with_sem_def sem_mem.truncate_def

lemma sem_entry_ok: "sem_pc_ok (sem_entry c)"
  by (cases c) (auto simp: Let_def)

lemma conserve_inv_step:
  assumes "conserve_inv n s" and "sem_step policy wk pid s s'"
  shows "conserve_inv n s'"
proof -
  from assms(2) obtain e where "sem_exec wk pid e s = Some s'" by (auto elim: sem_step.cases)
  then show ?thesis
  proof (cases rule: sem_exec_cases)
    case (call t c r)
    with assms(1) sem_entry_ok [of c] show ?thesis by (auto simp: conserve_inv_def)
  next
    case (act t env pc' m')
    from sem_pc_step_conserves [OF act(2)] assms(1) act(3) show ?thesis
      by (auto simp: conserve_inv_def sem_state_defs)
  qed
qed

interpretation sem_conserve: inductive_invariant "sem_init n" "sem_step policy wk pid" "conserve_inv n"
  for n policy wk pid
proof unfold_locales
  show "conserve_inv n s" if "sem_init n s" for s
    using that by (simp add: sem_init_def conserve_inv_def)
  show "conserve_inv n s'" if "conserve_inv n s" and "sem_step policy wk pid s s'" for s s'
    using that by (rule conserve_inv_step)
qed

section \<open>One waiter\<close>

fun waits :: "sem_pc \<Rightarrow> bool" where
  "waits (SOut r) = False"
| "waits (PostLoad add) = False"
| "waits (PostCas add cur) = False"
| "waits (PostWake add prev) = False"
| "waits pc = True"

fun wakes :: "sem_pc \<Rightarrow> bool" where
  "wakes (PostWake add prev) = (add \<noteq> 0 \<and> prev = 0)"
| "wakes pc = False"

definition waiter_inv :: "tid \<Rightarrow> sem_sys \<Rightarrow> bool" where
  "waiter_inv w s \<longleftrightarrow> (\<forall>t. waits (ss_pc s t) \<longrightarrow> t = w) \<and>
     (\<forall>t add cur. ss_pc s t = PostCas add cur \<longrightarrow> add \<noteq> 0) \<and>
     (ss_queue s = [] \<or> ss_queue s = [w] \<and> (\<exists>a. ss_pc s w = WSleep a) \<and>
        (sm_count (ss_hdr s) = 0 \<or> (\<exists>t. wakes (ss_pc s t))))"

lemma wake_n_pos: "0 < wake_n add"
  by (simp add: wake_n_def INT_MAX_def Let_def)

lemma waits_step:
  "sem_pc_step wk pid env t pc m = Some (pc', m') \<Longrightarrow> waits pc' \<Longrightarrow> waits pc"
  by (cases pc) (auto simp: Let_def split: if_splits)

lemma postcas_step:
  "sem_pc_step wk pid env t pc m = Some (PostCas add cur, m') \<Longrightarrow> add \<noteq> 0"
  by (cases pc) (auto simp: Let_def split: if_splits fut_event.splits)

lemma entry_waits: "single_waiter w (SemCall t c) \<Longrightarrow> waits (sem_entry c) \<Longrightarrow> t = w"
  by (cases c) (auto simp: Let_def split: if_splits)

lemma entry_not_postcas: "sem_entry c \<noteq> PostCas add cur"
  by (cases c) (auto simp: Let_def)

lemma step_from_empty_queue:
  assumes "sem_pc_step wk pid env t pc m = Some (pc', m')" and "ss_queue m = []"
    and "\<And>n. wk n [] = []"
  shows "ss_queue m' = [] \<or>
    ss_queue m' = [t] \<and> (\<exists>a. pc' = WSleep a) \<and> waits pc \<and> sm_count (ss_hdr m') = 0"
  using assms by (cases pc) (auto simp: Let_def split: if_splits)

lemma step_of_sleeper:
  assumes "sem_pc_step wk pid env t (WSleep a) m = Some (pc', m')" and "ss_queue m = [t]"
  shows "ss_queue m' = []"
  using assms by (auto simp: Let_def split: fut_event.splits if_splits)

lemma step_of_poster:
  assumes "sem_pc_step wk pid env t pc m = Some (pc', m')" and "\<not> waits pc"
    and "\<And>add cur. pc = PostCas add cur \<Longrightarrow> add \<noteq> 0" and "\<And>n. 0 < n \<Longrightarrow> wk n (ss_queue m) = []"
  shows "ss_queue m' = [] \<or> ss_queue m' = ss_queue m \<and> \<not> wakes pc \<and>
    (sm_count (ss_hdr m') = sm_count (ss_hdr m) \<or> wakes pc' \<or> sm_count (ss_hdr m) \<noteq> 0)"
  using assms wake_n_pos by (cases pc) (auto simp: Let_def split: if_splits)

context futex_kernel begin

lemma waiter_queue_step:
  assumes step: "sem_pc_step wk pid env t (ss_pc s t) (sem_mem.truncate s) = Some (pc', m')"
    and inv: "waiter_inv w s" and s': "s' = with_sem s t (pc', m')"
  shows "ss_queue s' = [] \<or> ss_queue s' = [w] \<and> (\<exists>a. ss_pc s' w = WSleep a) \<and>
        (sm_count (ss_hdr s') = 0 \<or> (\<exists>t. wakes (ss_pc s' t)))"
proof (cases "ss_queue s = []")
  case True
  moreover have "wk n [] = []" for n using wake_all [of "[]" n] by simp
  moreover have "waits (ss_pc s t) \<Longrightarrow> t = w" using inv by (simp add: waiter_inv_def)
  ultimately show ?thesis
    using step_from_empty_queue [OF step] s' by (auto simp: sem_state_defs)
next
  case False
  then obtain a where q: "ss_queue s = [w]" and w: "ss_pc s w = WSleep a"
    and c: "sm_count (ss_hdr s) = 0 \<or> (\<exists>u. wakes (ss_pc s u))"
    using inv by (auto simp: waiter_inv_def)
  show ?thesis
  proof (cases "t = w")
    case True
    with step_of_sleeper [of wk "pid" env t a "sem_mem.truncate s"] step w q s' show ?thesis
      by (simp add: sem_state_defs)
  next
    case False
    have pc: "\<not> waits (ss_pc s t)" "\<And>add cur. ss_pc s t = PostCas add cur \<Longrightarrow> add \<noteq> 0"
      using inv False by (auto simp: waiter_inv_def)
    have "wk n [w] = []" if "0 < n" for n using wake_all [of "[w]" n] that by simp
    with step_of_poster [OF step pc] q have
      "ss_queue m' = [] \<or> ss_queue m' = [w] \<and> \<not> wakes (ss_pc s t) \<and>
        (sm_count (ss_hdr m') = sm_count (ss_hdr s) \<or> wakes pc' \<or> sm_count (ss_hdr s) \<noteq> 0)"
      by (simp add: sem_state_defs)
    with c w False s' show ?thesis by (auto simp: sem_state_defs)
  qed
qed

lemma waiter_inv_step:
  assumes inv: "waiter_inv w s" and "sem_step (single_waiter w) wk pid s s'"
  shows "waiter_inv w s'"
proof -
  from assms(2) obtain e where pol: "single_waiter w e" and ex: "sem_exec wk pid e s = Some s'"
    by (auto elim: sem_step.cases)
  from ex show ?thesis
  proof (cases rule: sem_exec_cases)
    case (call t c r)
    have pc: "ss_pc s' u = (if u = t then sem_entry c else ss_pc s u)" for u
      using call(3) by simp
    have "waits (ss_pc s' u) \<Longrightarrow> u = w" for u
      using inv pol call(1) entry_waits [of w t c] pc [of u]
      by (auto simp: waiter_inv_def split: if_splits)
    moreover have "ss_pc s' u = PostCas add cur \<Longrightarrow> add \<noteq> 0" for u add cur
      using inv entry_not_postcas [of c add cur] pc [of u]
      by (auto simp: waiter_inv_def split: if_splits)
    moreover have "(\<exists>u. wakes (ss_pc s u)) \<Longrightarrow> \<exists>u. wakes (ss_pc s' u)"
      using call(2) pc by (metis wakes.simps(2))
    moreover have "ss_pc s w = WSleep a \<Longrightarrow> ss_pc s' w = WSleep a" for a
      using call(2) pc [of w] by auto
    moreover have "ss_queue s' = ss_queue s" "ss_hdr s' = ss_hdr s" using call(3) by simp_all
    ultimately show ?thesis using inv unfolding waiter_inv_def by metis
  next
    case (act t env pc' m')
    have pc: "ss_pc s' u = (if u = t then pc' else ss_pc s u)" for u
      using act(3) by (simp add: sem_state_defs)
    have "waits (ss_pc s' u) \<Longrightarrow> u = w" for u
      using inv waits_step [OF act(2)] pc [of u] unfolding waiter_inv_def by metis
    moreover have "ss_pc s' u = PostCas add cur \<Longrightarrow> add \<noteq> 0" for u add cur
      using inv postcas_step act(2) pc [of u] unfolding waiter_inv_def by metis
    ultimately show ?thesis
      using waiter_queue_step [OF act(2) inv act(3)] unfolding waiter_inv_def by blast
  qed
qed

end

sublocale futex_kernel \<subseteq> sem_waiter:
  inductive_invariant "sem_init n" "sem_step (single_waiter w) wk pid" "waiter_inv w" for n w pid
proof unfold_locales
  show "waiter_inv w s" if "sem_init n s" for s
    using that by (simp add: sem_init_def waiter_inv_def)
  show "waiter_inv w s'" if "waiter_inv w s" and "sem_step (single_waiter w) wk pid s s'" for s s'
    using that by (rule waiter_inv_step)
qed

context futex_kernel begin

lemma sem_waiter_reach: "sem_reach (single_waiter w) n wk pid s \<Longrightarrow> waiter_inv w s"
  by (rule sem_waiter.reach_inv)

end

section \<open>The argument of a post\<close>

lemma post_entry:
  assumes "1 \<le> n" and "n < 2 ^ 32"
  shows "sem_entry (CallPost n) = PostLoad (word_of_int n)"
proof -
  have "uint (word_of_int n :: u64) = n" using assms by (simp add: uint_word_of_int)
  then have "\<not> arg_k n > 0xFFFFFFFF" and "ucast (arg_k n) = (word_of_int n :: u32)"
    using assms by (simp_all add: arg_k_def word_less_def unsigned_of_int ucast_eq)
  then show ?thesis by (simp add: Let_def)
qed

lemma post_add:
  assumes "1 \<le> n" and "n < 2 ^ 32"
  shows "unat (word_of_int n :: u32) = nat n \<and> (word_of_int n :: u32) \<noteq> 0"
proof -
  have u: "uint (word_of_int n :: u32) = n" using assms by (simp add: uint_word_of_int)
  moreover have "(word_of_int n :: u32) \<noteq> 0" using u assms by auto
  ultimately show ?thesis by (simp add: unat_eq_nat_uint)
qed

lemma post_overflow_iff:
  assumes "1 \<le> n" and "n < 2 ^ 32"
  shows "cur > UINT32_MAX - word_of_int n \<longleftrightarrow> 2 ^ 32 \<le> uint cur + n"
proof -
  have u: "uint (word_of_int n :: u32) = n" using assms by (simp add: uint_word_of_int)
  then have "uint (UINT32_MAX - word_of_int n) = 4294967295 - n"
    using assms by (subst uint_sub_if') (simp add: UINT32_MAX_def)
  then show ?thesis using assms by (auto simp: word_less_def)
qed

section \<open>Waits without a spin loop\<close>

text \<open>
  The token is taken inside the spin loop only. With \<open>spin \<le> 0\<close> a wait is confined to
  the program points of \<open>no_spin_pc\<close>.
\<close>

fun no_spin_pc :: "sem_args \<Rightarrow> sem_pc \<Rightarrow> bool" where
  "no_spin_pc a (WSpin b i) = (b = a \<and> i = 0)"
| "no_spin_pc a (WFutex b) = (b = a)"
| "no_spin_pc a (WSleep b) = (b = a)"
| "no_spin_pc a (SOut r) = (r = SRetFalse)"
| "no_spin_pc a pc = False"

lemma no_spin_step:
  "sem_pc_step wk pid env t pc m = Some (pc', m') \<Longrightarrow> no_spin_pc a pc \<Longrightarrow> wa_spin a \<le> 0 \<Longrightarrow>
    no_spin_pc a pc' \<and> sm_count (ss_hdr m') = sm_count (ss_hdr m)"
  by (cases "(a, pc)" rule: no_spin_pc.cases)
    (auto simp: Let_def split: if_splits fut_event.splits)

lemma sem_exec_other: "sem_exec wk pid e s = Some s' \<Longrightarrow> \<forall>c. e \<noteq> SemCall t c \<Longrightarrow>
    \<forall>env. e \<noteq> SemStep t env \<Longrightarrow> ss_pc s' t = ss_pc s t"
  by (cases e) (auto simp: with_sem_def split: sem_pc.splits)

lemma no_spin_exec:
  assumes "sem_exec wk pid e s = Some s'" and "no_spin_pc a (ss_pc s t)" and "wa_spin a \<le> 0"
    and "\<forall>c. e \<noteq> SemCall t c"
  shows "no_spin_pc a (ss_pc s' t)"
proof (cases "\<exists>env. e = SemStep t env")
  case True
  with assms(1) obtain env pc' m' where
    "sem_pc_step wk (pid t) env t (ss_pc s t) (sem_mem.truncate s) = Some (pc', m')"
    and "s' = with_sem s t (pc', m')" by auto
  with no_spin_step assms(2,3) show ?thesis by (fastforce simp: sem_state_defs)
next
  case False
  then show ?thesis using sem_exec_other [OF assms(1), of t] assms(2,4) by auto
qed

lemma no_spin_run:
  assumes "sem_run wk pid es s = Some s'" and "no_spin_pc a (ss_pc s t)" and "wa_spin a \<le> 0"
    and "\<forall>c. SemCall t c \<notin> set es"
  shows "no_spin_pc a (ss_pc s' t)"
  using assms
proof (induction es arbitrary: s)
  case Nil
  then show ?case by simp
next
  case (Cons e es)
  then obtain s1 where s1: "sem_exec wk pid e s = Some s1" "sem_run wk pid es s1 = Some s'"
    by (auto simp: bind_eq_Some_conv)
  have "no_spin_pc a (ss_pc s1 t)" using no_spin_exec [OF s1(1)] Cons.prems by auto
  with Cons.IH [OF s1(2)] Cons.prems show ?case by auto
qed

section \<open>Runs\<close>

lemma sem_run_policy:
  "reach init (sem_step policy wk pid) s \<Longrightarrow> list_all policy es \<Longrightarrow> sem_run wk pid es s = Some s' \<Longrightarrow>
    reach init (sem_step policy wk pid) s'"
proof (induction es arbitrary: s)
  case Nil
  then show ?case by simp
next
  case (Cons e es)
  then obtain s1 where s1: "sem_exec wk pid e s = Some s1" "sem_run wk pid es s1 = Some s'" "policy e"
    by (auto simp: bind_eq_Some_conv)
  with Cons.prems(1) have "reach init (sem_step policy wk pid) s1"
    by (blast intro: reach.reach_step sem_stepI)
  with Cons.IH Cons.prems(2) s1(2) show ?case by simp
qed

lemma sem_run_reach:
  "reach init (sem_step any_sem_client wk pid) s \<Longrightarrow> sem_run wk pid es s = Some s' \<Longrightarrow>
    reach init (sem_step any_sem_client wk pid) s'"
  by (rule sem_run_policy) (simp_all add: list_all_iff)

definition sem_start :: "u32 \<Rightarrow> sem_sys" where
  "sem_start n = \<lparr>ss_hdr = \<lparr>sm_magic = SEM_MAGIC, sm_flags = 0, sm_count = n, sm_last_pid = 0, sm_last_ns = 0\<rparr>,
     ss_queue = [], ss_posted = 0, ss_taken = 0, ss_pc = (\<lambda>t. SOut SRetNone)\<rparr>"

lemma sem_start_reach: "reach (sem_init n) (sem_step policy wk pid) (sem_start n)"
  by (rule reach.reach_init) (simp add: sem_init_def sem_start_def)

definition fall_asleep :: "tid \<Rightarrow> sem_event list" where
  \<comment> \<open>\<open>wait(spin=1)\<close> on an empty semaphore: one look at the count, then sleep\<close>
  "fall_asleep t = [SemCall t (CallWait True (-1) 1), SemStep t calm, SemStep t calm, SemStep t calm]"

definition post_run :: "tid \<Rightarrow> sem_event list" where
  "post_run t = [SemCall t CallPost1, SemStep t calm, SemStep t calm, SemStep t calm]"

definition lost_wakeup :: "sem_event list" where
  \<comment> \<open>two waiters sleep, two posts, and the woken waiter takes its token\<close>
  "lost_wakeup = fall_asleep 1 @ fall_asleep 2 @ post_run 0 @ post_run 0 @
     [SemStep 1 calm, SemStep 1 calm, SemStep 1 calm, SemStep 1 calm, SemStep 1 calm]"

lemmas sem_eval = sem_start_def calm_def with_sem_def sem_mem.truncate_def Let_def wake_n_def
  fifo_wake_def INT_MAX_def UINT32_MAX_def fall_asleep_def post_run_def

lemma lost_wakeup_run:
  "\<exists>s. sem_run fifo_wake pid lost_wakeup (sem_start 0) = Some s \<and> ss_queue s = [2] \<and>
     sm_count (ss_hdr s) = 1 \<and> (\<forall>t. t \<noteq> 2 \<longrightarrow> (\<exists>r. ss_pc s t = SOut r))"
  by (simp add: lost_wakeup_def sem_eval)

lemma fall_asleep_run:
  "\<exists>s. sem_run fifo_wake pid (fall_asleep 1) (sem_start 0) = Some s \<and> ss_queue s = [1]"
  by (simp add: sem_eval)

section \<open>Two sleepers\<close>

fun only_posts :: "tid \<Rightarrow> sem_event \<Rightarrow> bool" where
  \<comment> \<open>posts of any threads, but nobody waits and the kernel leaves the sleeper \<open>d\<close> alone\<close>
  "only_posts d (SemCall t (CallWait b tmo sp)) = False"
| "only_posts d (SemCall t c) = True"
| "only_posts d (SemStep t env) = (t \<noteq> d)"

fun posts_quietly :: "sem_pc \<Rightarrow> bool" where
  \<comment> \<open>outside a call, or in a post that will wake nobody\<close>
  "posts_quietly (SOut r) = True"
| "posts_quietly (PostLoad add) = True"
| "posts_quietly (PostCas add cur) = (cur \<noteq> 0 \<and> cur \<le> UINT32_MAX - add)"
| "posts_quietly (PostWake add prev) = (add = 0 \<or> prev \<noteq> 0)"
| "posts_quietly _ = False"

definition forgotten :: "tid \<Rightarrow> sem_sys \<Rightarrow> bool" where
  "forgotten d s \<longleftrightarrow> ss_queue s = [d] \<and> sm_count (ss_hdr s) \<noteq> 0 \<and>
     (\<forall>t. t \<noteq> d \<longrightarrow> posts_quietly (ss_pc s t)) \<and> (\<exists>a. ss_pc s d = WSleep a)"

lemma add_nonzero:
  fixes cur add :: u32
  assumes "cur \<noteq> 0" and "cur \<le> UINT32_MAX - add"
  shows "cur + add \<noteq> 0"
proof
  assume "cur + add = 0"
  then have "add = - cur" by (simp add: eq_neg_iff_add_eq_0 add.commute)
  then have "UINT32_MAX - add = cur - 1" by (simp add: UINT32_MAX_def)
  then have "cur \<le> cur - 1" using assms(2) by simp
  moreover have "cur - 1 < cur" using assms(1) by (simp add: word_less_1 measure_unat word_less_nat_alt)
  ultimately show False by simp
qed

lemma posts_quietly_step:
  assumes "sem_pc_step wk p env t pc m = Some (pc', m')" and "posts_quietly pc" and "sm_count (ss_hdr m) \<noteq> 0"
  shows "posts_quietly pc' \<and> sm_count (ss_hdr m') \<noteq> 0 \<and> ss_queue m' = ss_queue m"
  using assms add_nonzero by (cases pc) (auto simp: Let_def not_less split: if_splits)

lemma forgotten_exec:
  assumes "sem_exec wk pid e s = Some s'" and "forgotten d s" and "only_posts d e"
  shows "forgotten d s'"
proof (cases e)
  case (SemCall t c)
  with assms have "t \<noteq> d" by (auto simp: forgotten_def)
  moreover have "posts_quietly (sem_entry c)" using assms(3) SemCall by (cases c) (auto simp: Let_def)
  ultimately show ?thesis using assms(1,2) SemCall by (auto simp: forgotten_def split: sem_pc.splits)
next
  case (SemStep t env)
  with assms(3) have t: "t \<noteq> d" by simp
  from assms(1) SemStep obtain pc' m' where
    st: "sem_pc_step wk (pid t) env t (ss_pc s t) (sem_mem.truncate s) = Some (pc', m')"
    and s': "s' = with_sem s t (pc', m')" by auto
  have "posts_quietly (ss_pc s t)" "sm_count (ss_hdr (sem_mem.truncate s)) \<noteq> 0"
    using assms(2) t by (auto simp: forgotten_def sem_mem.truncate_def)
  from posts_quietly_step [OF st this] show ?thesis
    using assms(2) t s' by (auto simp: forgotten_def sem_state_defs)
qed

lemma forgotten_run:
  "sem_run wk pid es s = Some s' \<Longrightarrow> forgotten d s \<Longrightarrow> \<forall>e \<in> set es. only_posts d e \<Longrightarrow> forgotten d s'"
proof (induction es arbitrary: s)
  case (Cons e es)
  then obtain s1 where "sem_exec wk pid e s = Some s1" "sem_run wk pid es s1 = Some s'"
    by (auto simp: Option.bind_eq_Some_conv)
  with Cons show ?case using forgotten_exec by simp
qed simp

lemma post1_run:
  assumes "ss_pc s u = SOut r" and "sm_count (ss_hdr s) < UINT32_MAX"
  shows "sem_run wk pid (post_run u) s =
    Some (s\<lparr>ss_hdr := (ss_hdr s)\<lparr>sm_count := sm_count (ss_hdr s) + 1\<rparr>,
      ss_queue := (if sm_count (ss_hdr s) = 0 then wk 1 (ss_queue s) else ss_queue s),
      ss_posted := Suc (ss_posted s), ss_pc := (ss_pc s)(u := SOut SRetNone)\<rparr>)"
proof -
  have "\<not> sm_count (ss_hdr s) > UINT32_MAX - 1" using assms(2) by (simp add: UINT32_MAX_def word_less_nat_alt)
  then show ?thesis using assms(1)
    by (simp add: post_run_def calm_def sem_state_defs Let_def wake_n_def INT_MAX_def)
qed

lemma woken_takes:
  assumes "ss_pc s w = WSleep x" and "w \<notin> set (ss_queue s)" and "0 < wa_spin x" and "sm_count (ss_hdr s) \<noteq> 0"
  shows "sem_run wk pid (replicate 5 (SemStep w calm)) s =
    Some (s\<lparr>ss_hdr := (ss_hdr s)\<lparr>sm_count := sm_count (ss_hdr s) - 1, sm_last_pid := pid w, sm_last_ns := 0\<rparr>,
      ss_taken := Suc (ss_taken s), ss_pc := (ss_pc s)(w := SOut SRetTrue)\<rparr>)"
proof -
  have "0 < sm_count (ss_hdr s)" using assms(4) by (simp add: word_gt_0)
  then show ?thesis using assms(1-3) by (simp add: eval_nat_numeral calm_def sem_state_defs)
qed

context futex_kernel begin

lemma wake_one_of_two:
  assumes "a \<noteq> b"
  shows "\<exists>w d. {w, d} = {a, b} \<and> w \<noteq> d \<and> wk 1 [a, b] = [d]"
proof -
  have "length (wk 1 [a, b]) = 1" using wake_count [of 1 "[a, b]"] by simp
  then obtain d where d: "wk 1 [a, b] = [d]" by (cases "wk 1 [a, b]") auto
  then have "d \<in> {a, b}" using wake_subset [of 1 "[a, b]"] by simp
  with d assms show ?thesis by (intro exI [of _ "if d = a then b else a"] exI [of _ d]) auto
qed

end

section \<open>Properties\<close>

text \<open>
  C3. Tokens are conserved: in every reachable state, for arbitrary clients, kernels and
  schedules, the count plus the tokens taken by waits is the initial count plus the tokens added
  by posts. In particular the 32-bit counter never wraps in either direction.
\<close>

theorem semaphore_conserves_tokens:
  assumes "sem_reach policy n wk pid s"
  shows "unat (sm_count (ss_hdr s)) + ss_taken s = unat n + ss_posted s"
  using sem_conserve.reach_inv [OF assms] by (simp add: conserve_inv_def)

theorem semaphore_conserves_tokens_witness:
  "\<exists>s. sem_reach any_sem_client 0 fifo_wake (\<lambda>t. 7) s \<and> sm_count (ss_hdr s) = 1 \<and>
     unat (sm_count (ss_hdr s)) + ss_taken s = unat (0 :: u32) + ss_posted s"
proof -
  obtain s where s: "sem_run fifo_wake (\<lambda>t. 7) lost_wakeup (sem_start 0) = Some s"
    "sm_count (ss_hdr s) = 1" using lost_wakeup_run by blast
  have "sem_reach any_sem_client 0 fifo_wake (\<lambda>t. 7) s" using sem_run_reach [OF sem_start_reach s(1)] .
  from semaphore_conserves_tokens [OF this] this s(2) show ?thesis by blast
qed

text \<open>
  C22. With one waiting thread no wake-up is lost: while the waiter sleeps, either there is
  no token, or a thread that posted is about to make its wake call.
\<close>

theorem semaphore_single_waiter_wakeup:
  assumes "futex_kernel wk" and "sem_reach (single_waiter w) n wk pid s" and "t \<in> set (ss_queue s)"
  shows "t = w \<and> (sm_count (ss_hdr s) = 0 \<or> (\<exists>u. wakes (ss_pc s u)))"
  using futex_kernel.sem_waiter_reach [OF assms(1,2)] assms(3) by (auto simp: waiter_inv_def)

theorem semaphore_single_waiter_wakeup_witness:
  "\<exists>s :: sem_sys. ss_queue s = [1] \<and> (sm_count (ss_hdr s) = 0 \<or> (\<exists>u. wakes (ss_pc s u)))"
proof -
  obtain s where s: "sem_run fifo_wake (\<lambda>t. 7) (fall_asleep 1) (sem_start 0) = Some s"
    "ss_queue s = [1]" using fall_asleep_run by blast
  have "sem_reach (single_waiter 1) 0 fifo_wake (\<lambda>t. 7) s"
    using sem_run_policy [OF sem_start_reach _ s(1)] by (simp add: fall_asleep_def)
  from semaphore_single_waiter_wakeup [OF fifo.futex_kernel_axioms this] s(2) show ?thesis
    by (intro exI [of _ s]) auto
qed

text \<open>
  C27. With two sleeping waiters a wake-up is lost, for every kernel: from every state in which two threads
  sleep on an empty semaphore, in waits with at least one spin attempt, and nobody else is in a call, a first post adds a token and wakes one of
  them, a second post adds a token but, since it saw the count 1, wakes nobody; the woken thread takes
  its token, and then the other one sleeps although the count is 1 and all calls have returned. However
  many posts follow, they do not wake it, because the count does not become 0 again (its sleep ends only by
  a signal or a timeout, or if another waiter empties the semaphore).
\<close>

theorem semaphore_two_waiters_lost_wakeup:
  assumes "futex_kernel wk" and "ss_queue s = [a, b]" and "a \<noteq> b" and "sm_count (ss_hdr s) = 0"
    and "ss_pc s a = WSleep x" and "ss_pc s b = WSleep y" and "0 < wa_spin x" and "0 < wa_spin y"
    and "\<forall>t. t \<notin> {a, b} \<longrightarrow> (\<exists>r. ss_pc s t = SOut r)" and "u \<notin> {a, b}" and "v \<notin> {a, b}"
  shows "\<exists>w d s1 s2 s3. {w, d} = {a, b} \<and>
    sem_run wk pid (post_run u) s = Some s1 \<and> ss_posted s1 = ss_posted s + 1 \<and>
    sm_count (ss_hdr s1) = 1 \<and> ss_queue s1 = [d] \<and>
    sem_run wk pid (post_run v) s1 = Some s2 \<and> ss_posted s2 = ss_posted s1 + 1 \<and>
    sm_count (ss_hdr s2) = 2 \<and> ss_queue s2 = [d] \<and>
    sem_run wk pid (replicate 5 (SemStep w calm)) s2 = Some s3 \<and> ss_pc s3 w = SOut SRetTrue \<and>
    ss_taken s3 = ss_taken s + 1 \<and> sm_count (ss_hdr s3) = 1 \<and> (\<forall>t. t \<noteq> d \<longrightarrow> (\<exists>r. ss_pc s3 t = SOut r)) \<and>
    (\<forall>es s4. sem_run wk pid es s3 = Some s4 \<and> (\<forall>e \<in> set es. only_posts d e) \<longrightarrow>
      ss_queue s4 = [d] \<and> (\<exists>z. ss_pc s4 d = WSleep z) \<and> sm_count (ss_hdr s4) \<noteq> 0)"
proof -
  from futex_kernel.wake_one_of_two [OF assms(1,3)] obtain w d where
    wd: "{w, d} = {a, b}" "w \<noteq> d" "wk 1 [a, b] = [d]" by blast
  obtain p q where sl: "ss_pc s w = WSleep p" "ss_pc s d = WSleep q" "0 < wa_spin p"
    using wd(1) assms(5-8) by (metis doubleton_eq_iff)
  have uv: "u \<noteq> w" "u \<noteq> d" "v \<noteq> w" "v \<noteq> d" using wd(1) assms(10,11) by auto
  obtain ru rv where r: "ss_pc s u = SOut ru" "ss_pc s v = SOut rv" using assms(9-11) by blast
  have m: "(0 :: u32) < UINT32_MAX" "(1 :: u32) < UINT32_MAX" by (simp_all add: UINT32_MAX_def)
  let ?s1 = "s\<lparr>ss_hdr := (ss_hdr s)\<lparr>sm_count := 1\<rparr>, ss_queue := [d], ss_posted := Suc (ss_posted s),
    ss_pc := (ss_pc s)(u := SOut SRetNone)\<rparr>"
  have s1: "sem_run wk pid (post_run u) s = Some ?s1"
    using post1_run [OF r(1), of wk pid] assms(2,4) m(1) wd(3) by simp
  have "\<exists>r. ss_pc ?s1 v = SOut r" using r(2) by simp
  then obtain rv' where rv': "ss_pc ?s1 v = SOut rv'" by blast
  let ?s2 = "?s1\<lparr>ss_hdr := (ss_hdr s)\<lparr>sm_count := 2\<rparr>, ss_posted := Suc (Suc (ss_posted s)),
    ss_pc := (ss_pc ?s1)(v := SOut SRetNone)\<rparr>"
  have s2: "sem_run wk pid (post_run v) ?s1 = Some ?s2"
    using post1_run [OF rv', of wk pid] m(2) by simp
  let ?s3 = "?s2\<lparr>ss_hdr := (ss_hdr s)\<lparr>sm_count := 1, sm_last_pid := pid w, sm_last_ns := 0\<rparr>,
    ss_taken := Suc (ss_taken s), ss_pc := (ss_pc ?s2)(w := SOut SRetTrue)\<rparr>"
  have "ss_pc ?s2 w = WSleep p" "w \<notin> set (ss_queue ?s2)" "sm_count (ss_hdr ?s2) \<noteq> 0" using sl(1) uv wd(2) by simp_all
  from woken_takes [OF this(1,2) sl(3) this(3), of wk pid]
  have s3: "sem_run wk pid (replicate 5 (SemStep w calm)) ?s2 = Some ?s3" by simp
  have idle: "\<forall>t. t \<noteq> d \<longrightarrow> (\<exists>r. ss_pc ?s3 t = SOut r)" using assms(9) wd(1) by auto
  then have "forgotten d ?s3" using sl(2) uv wd(2) by (fastforce simp: forgotten_def)
  note stuck = forgotten_run [OF _ this]
  show ?thesis
    by (rule exI [of _ w], rule exI [of _ d], rule exI [of _ ?s1], rule exI [of _ ?s2], rule exI [of _ ?s3])
      (use wd(1) s1 s2 s3 idle stuck in \<open>auto simp: forgotten_def\<close>)
qed

text \<open>Two threads that have fallen asleep one after the other.\<close>

lemma two_asleep:
  "\<exists>s. sem_run fifo_wake (\<lambda>t. 7) (fall_asleep 1 @ fall_asleep 2) (sem_start 0) = Some s \<and> ss_queue s = [1, 2] \<and>
     sm_count (ss_hdr s) = 0 \<and> ss_pc s = (\<lambda>t. SOut SRetNone)
       (1 := WSleep \<lparr>wa_blocking = True, wa_timeout = - 1, wa_spin = 1\<rparr>,
        2 := WSleep \<lparr>wa_blocking = True, wa_timeout = - 1, wa_spin = 1\<rparr>)"
  by (simp add: sem_eval)

theorem semaphore_two_waiters_lost_wakeup_witness:
  "\<exists>s w d s1 s2 s3. sem_reach any_sem_client 0 fifo_wake (\<lambda>t. 7) s \<and> ss_queue s = [1, 2] \<and> {w, d} = {1, 2} \<and>
    sem_run fifo_wake (\<lambda>t. 7) (post_run 0) s = Some s1 \<and> sem_run fifo_wake (\<lambda>t. 7) (post_run 0) s1 = Some s2 \<and>
    sem_run fifo_wake (\<lambda>t. 7) (replicate 5 (SemStep w calm)) s2 = Some s3 \<and> sm_count (ss_hdr s3) = 1"
proof -
  let ?w = "\<lparr>wa_blocking = True, wa_timeout = - 1, wa_spin = 1\<rparr>"
  obtain s where s: "sem_run fifo_wake (\<lambda>t. 7) (fall_asleep 1 @ fall_asleep 2) (sem_start 0) = Some s"
    "ss_queue s = [1, 2]" "sm_count (ss_hdr s) = 0" "ss_pc s = (\<lambda>t. SOut SRetNone)(1 := WSleep ?w, 2 := WSleep ?w)"
    using two_asleep by blast
  have "ss_pc s 1 = WSleep ?w" "ss_pc s 2 = WSleep ?w" "0 < wa_spin ?w" "(1 :: tid) \<noteq> 2"
    "\<forall>t. t \<notin> {1, 2} \<longrightarrow> (\<exists>r. ss_pc s t = SOut r)" "(0 :: tid) \<notin> {1, 2}" by (simp_all add: s(4))
  from semaphore_two_waiters_lost_wakeup [OF fifo.futex_kernel_axioms s(2) this(4) s(3) this(1,2,3,3,5,6,6), of "\<lambda>t. 7"]
    sem_run_reach [OF sem_start_reach s(1)] s(2) show ?thesis by blast
qed

text \<open>
  A post without interference: it raises \<open>OverflowError\<close> and leaves the semaphore
  as it is when the count would exceed 32 bits, and adds the tokens otherwise, waking at most
  \<open>n\<close> threads, and only when the count was 0.
\<close>

theorem semaphore_post_functional:
  assumes "ss_pc s t = SOut r" and "1 \<le> n" and "n < 2 ^ 32" and "\<not> env_weak_fail e2"
    and "cur = sm_count (ss_hdr s)"
  shows "(uint cur + n < 2 ^ 32 \<longrightarrow>
      sem_run wk pid [SemCall t (CallPost n), SemStep t e1, SemStep t e2, SemStep t e3] s =
      Some (s\<lparr>ss_hdr := (ss_hdr s)\<lparr>sm_count := cur + word_of_int n\<rparr>,
         ss_queue := (if cur = 0 then wk (wake_n (word_of_int n)) (ss_queue s) else ss_queue s),
         ss_posted := ss_posted s + nat n, ss_pc := (ss_pc s)(t := SOut SRetNone)\<rparr>)) \<and>
    (2 ^ 32 \<le> uint cur + n \<longrightarrow>
      sem_run wk pid [SemCall t (CallPost n), SemStep t e1] s =
      Some (s\<lparr>ss_pc := (ss_pc s)(t := SOut SRetOverflow)\<rparr>))"
  using assms(1,4,5) post_entry [OF assms(2,3)] post_overflow_iff [OF assms(2,3), of cur]
    post_add [OF assms(2,3)]
  by (auto simp: sem_state_defs)

theorem semaphore_post_functional_witness:
  "\<exists>s. sem_run fifo_wake (\<lambda>t. 7) [SemCall 0 (CallPost 5), SemStep 0 calm, SemStep 0 calm, SemStep 0 calm]
      (sem_start 3) = Some s \<and> sm_count (ss_hdr s) = 8"
proof -
  have "ss_pc (sem_start 3) 0 = SOut SRetNone" "\<not> env_weak_fail calm"
    and c: "3 = sm_count (ss_hdr (sem_start 3))" by (simp_all add: sem_eval)
  note post = semaphore_post_functional [OF this(1) _ _ this(2) c, of 5,
      THEN conjunct1, THEN mp, of fifo_wake "\<lambda>t. 7" calm calm]
  show ?thesis by (rule exI, rule conjI, rule post) (simp_all add: sem_start_def)
qed

text \<open>
  A wait without interference on a semaphore that has tokens takes exactly one and
  records the process and the time.
\<close>

theorem semaphore_wait_takes_token:
  assumes "ss_pc s t = SOut r" and "sm_count (ss_hdr s) \<noteq> 0" and "0 < spin" and "\<not> env_weak_fail e2"
  shows "sem_run wk pid [SemCall t (CallWait b tmo spin), SemStep t e1, SemStep t e2, SemStep t e3,
      SemStep t e4] s =
    Some (s\<lparr>ss_hdr := (ss_hdr s)\<lparr>sm_count := sm_count (ss_hdr s) - 1, sm_last_pid := pid t,
        sm_last_ns := env_now e4\<rparr>,
      ss_taken := Suc (ss_taken s), ss_pc := (ss_pc s)(t := SOut SRetTrue)\<rparr>)"
  using assms by (simp add: sem_eval word_gt_0)

theorem semaphore_wait_takes_token_witness:
  "\<exists>s. sem_run fifo_wake (\<lambda>t. 7) [SemCall 0 (CallWait True (-1) 16), SemStep 0 calm, SemStep 0 calm,
      SemStep 0 calm, SemStep 0 calm] (sem_start 3) = Some s \<and> sm_count (ss_hdr s) = 2"
proof -
  have "ss_pc (sem_start 3) 0 = SOut SRetNone" "sm_count (ss_hdr (sem_start 3)) \<noteq> 0"
    "\<not> env_weak_fail calm" by (simp_all add: sem_eval)
  note wait = semaphore_wait_takes_token [OF this(1,2) _ this(3), of 16 fifo_wake "\<lambda>t. 7"]
  show ?thesis by (rule exI, rule conjI, rule wait) (simp_all add: sem_start_def)
qed

text \<open>
  A wait with \<open>spin \<le> 0\<close> never takes a token, however many there are and whatever
  the other threads do: every run of the system leaves it unfinished or returned \<open>False\<close>.
\<close>

theorem semaphore_wait_zero_spin:
  assumes "spin \<le> 0" and "ss_pc s t = sem_entry (CallWait b tmo spin)"
    and "sem_run wk pid es s = Some s'" and "\<forall>c. SemCall t c \<notin> set es"
  shows "ss_pc s' t \<noteq> SOut SRetTrue \<and> ss_pc s' t \<noteq> WPid"
proof -
  let ?a = "\<lparr>wa_blocking = b, wa_timeout = tmo, wa_spin = spin\<rparr>"
  have "no_spin_pc ?a (ss_pc s' t)"
    using no_spin_run [OF assms(3) _ _ assms(4), of ?a] assms(1,2) by simp
  then show ?thesis by auto
qed

theorem semaphore_wait_zero_spin_witness:
  "\<exists>s' :: sem_sys. sm_count (ss_hdr s') = 5 \<and> ss_pc s' 0 \<noteq> SOut SRetTrue \<and> ss_pc s' 0 \<noteq> WPid"
proof -
  let ?s = "(sem_start 5)\<lparr>ss_pc := (\<lambda>t. sem_entry (CallWait False (-1) 0))\<rparr>"
  obtain s' where s': "sem_run fifo_wake (\<lambda>t. 7) [SemStep 0 calm] ?s = Some s'"
    "sm_count (ss_hdr s') = 5" by (simp add: sem_eval)
  have "ss_pc ?s 0 = sem_entry (CallWait False (-1) 0)" by simp
  from semaphore_wait_zero_spin [OF _ this s'(1)] s'(2) show ?thesis by auto
qed

text \<open>
  Header layout: the constructor accepts exactly a 4-byte aligned view of at least 64 bytes;
  it then stores the magic and, when given, an initial count that fits into 32 bits, and every
  other field of the header keeps its value.
\<close>

lemma sem_init_spec:
  assumes "v_off view + v_len view \<le> length mem" and "SEM64_SIZE \<le> v_len view"
    and "v_addr view mod 4 = 0"
  defines "h \<equiv> sem64_at mem (v_off view)"
  shows "sem64_at (snd (FutexSemaphore_init view initial sh mem)) (v_off view) =
      (case initial of
         None \<Rightarrow> h\<lparr>sm_magic := SEM_MAGIC\<rparr>
       | Some n \<Rightarrow> if 0 \<le> n \<and> n < 2 ^ 32 then h\<lparr>sm_magic := SEM_MAGIC, sm_count := word_of_int n\<rparr>
           else h\<lparr>sm_magic := SEM_MAGIC\<rparr>) \<and>
    fst (FutexSemaphore_init view initial sh mem) =
      (case initial of
         None \<Rightarrow> Inr \<lparr>fs_base = v_off view, fs_shared = sh\<rparr>
       | Some n \<Rightarrow> if 0 \<le> n \<and> n < 2 ^ 32 then Inr \<lparr>fs_base = v_off view, fs_shared = sh\<rparr>
           else Inl OverflowError)"
  using assms(1-3)
  by (auto simp: FutexSemaphore_init_def h_def sem64_at_def sem_layout u32_store_rel_def Let_def
      buf_simps split: option.splits)

end
