(* ===== verification/Decimal.thy ===== *)
theory Decimal
  imports Prelude
begin

text \<open>
  What the program uses of Python's \<open>str\<close>: decimal numerals (\<open>str(n)\<close>,
  \<open>int(s)\<close>, \<open>s.isdigit()\<close>), \<open>s.split(sep)\<close> and
  \<open>sep.join(parts)\<close>. Strings are ASCII here: the program builds them from numbers and
  fixed separators and reads them from PID directories and layout leaves.
\<close>

section \<open>Numerals\<close>

definition is_digit :: "char \<Rightarrow> bool" where
  "is_digit c \<longleftrightarrow> 48 \<le> (of_char c :: nat) \<and> (of_char c :: nat) \<le> 57"

definition digit_val :: "char \<Rightarrow> nat" where
  "digit_val c = of_char c - 48"

definition digit_char :: "nat \<Rightarrow> char" where
  "digit_char d = char_of (48 + d)"

fun str_nat :: "nat \<Rightarrow> string" where
  "str_nat n = (if n < 10 then [digit_char n] else str_nat (n div 10) @ [digit_char (n mod 10)])"

declare str_nat.simps [simp del]

definition str_int :: "int \<Rightarrow> string" where
  "str_int v = (if v < 0 then CHR ''-'' # str_nat (nat (- v)) else str_nat (nat v))"

definition isdigit :: "string \<Rightarrow> bool" where
  "isdigit s \<longleftrightarrow> s \<noteq> [] \<and> list_all is_digit s"

definition is_space :: "char \<Rightarrow> bool" where
  "is_space c \<longleftrightarrow> (let n = (of_char c :: nat) in 9 \<le> n \<and> n \<le> 13 \<or> 28 \<le> n \<and> n \<le> 32)"

text \<open>
  \<open>int(s)\<close>: surrounding white space is dropped, a sign is optional, and single underscores
  may separate digits; \<open>after_digit\<close> says that the previous character was a digit.
\<close>

fun parse_digits :: "nat \<Rightarrow> bool \<Rightarrow> string \<Rightarrow> nat option" where
  "parse_digits acc after_digit [] = (if after_digit then Some acc else None)"
| "parse_digits acc after_digit (c # cs) =
     (if is_digit c then parse_digits (10 * acc + digit_val c) True cs
      else if c = CHR ''_'' \<and> after_digit then parse_digits acc False cs
      else None)"

fun parse_signed :: "string \<Rightarrow> int option" where
  "parse_signed [] = None"
| "parse_signed (c # cs) =
     (if c = CHR ''-'' then map_option (\<lambda>n. - int n) (parse_digits 0 False cs)
      else if c = CHR ''+'' then map_option int (parse_digits 0 False cs)
      else map_option int (parse_digits 0 False (c # cs)))"

definition strip_space :: "string \<Rightarrow> string" where
  "strip_space s = rev (dropWhile is_space (rev (dropWhile is_space s)))"

definition py_int :: "string \<Rightarrow> int res" where
  "py_int s = (case parse_signed (strip_space s) of None \<Rightarrow> Inl ValueError | Some v \<Rightarrow> Inr v)"

section \<open>Split and join\<close>

fun str_split :: "char \<Rightarrow> string \<Rightarrow> string list" where
  "str_split sep [] = [[]]"
| "str_split sep (c # cs) =
     (if c = sep then [] # str_split sep cs
      else (case str_split sep cs of [] \<Rightarrow> [[c]] | w # ws \<Rightarrow> (c # w) # ws))"

fun str_join :: "char \<Rightarrow> string list \<Rightarrow> string" where
  "str_join sep [] = []"
| "str_join sep [w] = w"
| "str_join sep (w # ws) = w @ sep # str_join sep ws"

section \<open>Lemmas on numerals\<close>

lemma of_char_digit_char: "d < 10 \<Longrightarrow> (of_char (digit_char d) :: nat) = 48 + d"
  by (simp add: digit_char_def)

lemma is_digit_digit_char: "d < 10 \<Longrightarrow> is_digit (digit_char d)"
  by (simp add: is_digit_def of_char_digit_char)

lemma digit_val_digit_char: "d < 10 \<Longrightarrow> digit_val (digit_char d) = d"
  by (simp add: digit_val_def of_char_digit_char)

lemma str_nat_nonempty: "str_nat n \<noteq> []"
  by (subst str_nat.simps) simp

lemma str_nat_digits: "list_all is_digit (str_nat n)"
proof (induction n rule: str_nat.induct)
  case (1 n)
  then show ?case
    by (subst str_nat.simps) (simp add: is_digit_digit_char del: str_nat.simps)
qed

lemma isdigit_str_nat [simp]: "isdigit (str_nat n)"
  by (simp add: isdigit_def str_nat_nonempty str_nat_digits)

lemma parse_digits_digits:
  "list_all is_digit xs \<Longrightarrow> parse_digits acc True xs = Some (fold (\<lambda>c v. 10 * v + digit_val c) xs acc)"
  by (induction xs arbitrary: acc) auto

lemma parse_digits_all:
  "list_all is_digit xs \<Longrightarrow> xs \<noteq> [] \<Longrightarrow>
    parse_digits acc a xs = Some (fold (\<lambda>c v. 10 * v + digit_val c) xs acc)"
  by (cases xs) (auto simp: parse_digits_digits)

lemma fold_str_nat: "fold (\<lambda>c v. 10 * v + digit_val c) (str_nat n) 0 = n"
proof (induction n rule: str_nat.induct)
  case (1 n)
  then show ?case
    by (subst str_nat.simps) (simp add: digit_val_digit_char del: str_nat.simps)
qed

lemma parse_digits_str_nat: "parse_digits 0 False (str_nat n) = Some n"
  by (simp add: parse_digits_all str_nat_digits str_nat_nonempty fold_str_nat)

lemma digit_not_special:
  "is_digit c \<Longrightarrow> c \<noteq> CHR ''-'' \<and> c \<noteq> CHR ''+'' \<and> c \<noteq> CHR '','' \<and> c \<noteq> CHR ''\<newline>'' \<and>
     c \<noteq> char_of (9 :: nat) \<and> c \<noteq> CHR ''/'' \<and> \<not> is_space c"
  unfolding is_digit_def is_space_def Let_def by auto

lemma parse_signed_digits: "isdigit s \<Longrightarrow> parse_signed s = map_option int (parse_digits 0 False s)"
  by (cases s) (auto simp: isdigit_def dest: digit_not_special)

lemma dropWhile_none: "xs = [] \<or> \<not> P (hd xs) \<Longrightarrow> dropWhile P xs = xs"
  by (cases xs) auto

lemma strip_space_id:
  assumes "s \<noteq> []" and "\<not> is_space (hd s)" and "\<not> is_space (last s)"
  shows "strip_space s = s"
  using assms by (simp add: strip_space_def dropWhile_none hd_rev)

lemma isdigit_ends: "isdigit s \<Longrightarrow> s \<noteq> [] \<and> \<not> is_space (hd s) \<and> \<not> is_space (last s)"
  unfolding isdigit_def list_all_iff using digit_not_special by auto

lemma strip_space_isdigit: "isdigit s \<Longrightarrow> strip_space s = s"
  using isdigit_ends [of s] strip_space_id [of s] by metis

lemma py_int_isdigit:
  assumes "isdigit s"
  shows "\<exists>n. py_int s = Inr (int n)"
proof -
  obtain n where "parse_digits 0 False s = Some n"
    using parse_digits_all [of s 0 False] assms unfolding isdigit_def by blast
  with assms show ?thesis by (simp add: py_int_def strip_space_isdigit parse_signed_digits)
qed

lemma py_int_str_nat [simp]: "py_int (str_nat n) = Inr (int n)"
  by (simp add: py_int_def strip_space_isdigit parse_signed_digits parse_digits_str_nat)

lemma py_int_str_int: "py_int (str_int v) = Inr v"
proof (cases "v < 0")
  case True
  have "strip_space (CHR ''-'' # str_nat (nat (- v))) = CHR ''-'' # str_nat (nat (- v))"
    using isdigit_ends [OF isdigit_str_nat, of "nat (- v)"]
    by (intro strip_space_id) (auto simp: is_space_def)
  with True show ?thesis by (simp add: str_int_def py_int_def parse_digits_str_nat)
qed (simp add: str_int_def)

lemma str_nat_inj: "str_nat m = str_nat n \<longleftrightarrow> m = n"
  by (metis fold_str_nat)

section \<open>Lemmas on split and join\<close>

lemma str_split_nonempty: "str_split sep s \<noteq> []"
  by (cases s) (auto split: list.splits)

lemma str_split_single: "sep \<notin> set s \<Longrightarrow> str_split sep s = [s]"
  by (induction s) auto

lemma str_split_sep: "sep \<notin> set w \<Longrightarrow> str_split sep (w @ sep # s) = w # str_split sep s"
  by (induction w) (auto split: list.splits)

lemma str_split_join:
  "ws \<noteq> [] \<Longrightarrow> \<forall>w \<in> set ws. sep \<notin> set w \<Longrightarrow> str_split sep (str_join sep ws) = ws"
  by (induction sep ws rule: str_join.induct) (auto simp: str_split_single str_split_sep)

lemma str_join_split: "str_join sep (str_split sep s) = s"
proof (induction s)
  case Nil
  show ?case by simp
next
  case (Cons c s)
  obtain w ws where ws: "str_split sep s = w # ws" using str_split_nonempty by (meson list.exhaust)
  with Cons show ?case by (cases ws) auto
qed

lemma str_join_digits:
  "\<forall>w \<in> set ws. list_all is_digit w \<Longrightarrow> c \<in> set (str_join sep ws) \<Longrightarrow> is_digit c \<or> c = sep"
  by (induction sep ws rule: str_join.induct) (auto simp: list_all_iff)

end
