(* ===== verification/Gsm.thy ===== *)
theory Gsm
  imports Decimal
begin

text \<open>
  \<open>fastipc.guarded_shared_memory\<close>: the state of the operating system that the class uses,
  the wrapped POSIX calls, the constructor with its retry loop, and the life cycle of a handle.

  Other processes act between the system calls of a handle: every operation takes an environment
  with an interference function (\<open>i_...\<close>, \<open>c_...\<close>) for each place where another
  process may run before the next system call, and with the error (\<open>f_...\<close>) that a system
  call is made to fail with. An environment in which nothing happens is \<open>quiet_attempt\<close>,
  \<open>quiet_init\<close> and \<open>quiet_close\<close>.

  Descriptors of all processes are numbers of one table, so a number is never used twice. The
  sleep between attempts and the cause attached to the final exception have no effect on the
  state and are left out.
\<close>

section \<open>The operating system\<close>

record os =
  os_shm :: "string \<rightharpoonup> nat"          \<comment> \<open>POSIX names of segments\<close>
  os_ino :: "nat \<Rightarrow> bytes"            \<comment> \<open>contents of the segments\<close>
  os_next_ino :: nat
  os_fds :: "nat \<rightharpoonup> nat"             \<comment> \<open>open descriptors\<close>
  os_next_fd :: nat
  os_dirs :: "string \<rightharpoonup> string list" \<comment> \<open>PID directories and the files in them\<close>
  os_kill :: "int \<Rightarrow> nat option"      \<comment> \<open>errno of \<open>kill(pid, 0)\<close>, if any\<close>

definition EBADF :: nat where "EBADF = 9"

definition alive :: "int \<Rightarrow> os \<Rightarrow> bool" where
  "alive pid s = (case os_kill s pid of None \<Rightarrow> True | Some e \<Rightarrow> e = 1)"

definition shm_open_error :: "nat \<Rightarrow> pyexc" where
  "shm_open_error err =
     (if err = 2 then FileNotFoundError else if err = 17 then FileExistsError else OSError err)"

definition new_fd :: "nat \<Rightarrow> os \<Rightarrow> nat \<times> os" where
  "new_fd ino s =
     (os_next_fd s, s\<lparr>os_fds := (os_fds s)(os_next_fd s \<mapsto> ino), os_next_fd := Suc (os_next_fd s)\<rparr>)"

text \<open>\<open>creat\<close>: the flags \<open>O_CREAT | O_EXCL\<close> are given.\<close>

definition shm_open_wrapped :: "nat option \<Rightarrow> string \<Rightarrow> bool \<Rightarrow> os \<Rightarrow> nat res \<times> os" where
  "shm_open_wrapped fault nm creat s =
     (case fault of
        Some e \<Rightarrow> (Inl (shm_open_error e), s)
      | None \<Rightarrow>
          (case os_shm s nm of
             Some ino \<Rightarrow>
               (if creat then (Inl (shm_open_error 17), s)
                else (case new_fd ino s of (fd, s') \<Rightarrow> (Inr fd, s')))
           | None \<Rightarrow>
               (if creat then
                  (let ino = os_next_ino s;
                       s1 = s\<lparr>os_shm := (os_shm s)(nm \<mapsto> ino), os_ino := (os_ino s)(ino := []),
                              os_next_ino := Suc ino\<rparr>
                   in case new_fd ino s1 of (fd, s') \<Rightarrow> (Inr fd, s'))
                else (Inl (shm_open_error 2), s))))"

definition shm_unlink_wrapped :: "nat option \<Rightarrow> string \<Rightarrow> os \<Rightarrow> unit res \<times> os" where
  "shm_unlink_wrapped fault nm s =
     (case fault of
        Some e \<Rightarrow> (if e = 2 then Inr () else Inl (OSError e), s)
      | None \<Rightarrow> (Inr (), s\<lparr>os_shm := (os_shm s)(nm := None)\<rparr>))"

definition os_ftruncate :: "nat option \<Rightarrow> nat \<Rightarrow> nat \<Rightarrow> os \<Rightarrow> unit res \<times> os" where
  "os_ftruncate fault fd n s =
     (case fault of
        Some e \<Rightarrow> (Inl (OSError e), s)
      | None \<Rightarrow>
          (case os_fds s fd of
             None \<Rightarrow> (Inl (OSError EBADF), s)
           | Some ino \<Rightarrow>
               (let m = os_ino s ino in
                (Inr (), s\<lparr>os_ino := (os_ino s)(ino := take n m @ replicate (n - length m) 0)\<rparr>))))"

definition os_close :: "nat \<Rightarrow> os \<Rightarrow> os" where
  "os_close fd s = s\<lparr>os_fds := (os_fds s)(fd := None)\<rparr>"

definition os_makedirs :: "string \<Rightarrow> os \<Rightarrow> os" where
  "os_makedirs d s =
     (case os_dirs s d of None \<Rightarrow> s\<lparr>os_dirs := (os_dirs s)(d \<mapsto> [])\<rparr> | Some fs \<Rightarrow> s)"

definition os_rmdir :: "string \<Rightarrow> os \<Rightarrow> os" where
  \<comment> \<open>an \<open>OSError\<close> (missing or not empty) is ignored by the caller\<close>
  "os_rmdir d s = (if os_dirs s d = Some [] then s\<lparr>os_dirs := (os_dirs s)(d := None)\<rparr> else s)"

definition os_touch :: "string \<Rightarrow> string \<Rightarrow> os \<Rightarrow> unit res \<times> os" where
  "os_touch d fn s =
     (case os_dirs s d of
        None \<Rightarrow> (Inl FileNotFoundError, s)
      | Some fs \<Rightarrow>
          (Inr (), s\<lparr>os_dirs := (os_dirs s)(d \<mapsto> (if fn \<in> set fs then fs else fs @ [fn]))\<rparr>))"

section \<open>The handle\<close>

record gsm =
  g_name :: string
  g_posix_name :: string
  g_try_cleanup :: bool
  g_pid :: nat
  g_size :: int
  g_fd :: "nat option"
  g_mmap :: "nat option"   \<comment> \<open>the mapped segment\<close>
  g_buf :: "nat option"    \<comment> \<open>the segment behind \<open>_buf\<close>\<close>
  g_closed :: bool
  g_unlinked :: bool
  g_pdir :: string
  g_created :: bool
  g_registered :: bool     \<comment> \<open>registered with \<open>atexit\<close>\<close>

record gsm_args =
  a_name :: string
  a_size :: int
  a_attach_only :: bool
  a_pid_dir :: string
  a_max_attempts :: int
  a_try_cleanup :: bool

definition gsm_args_of :: "string \<Rightarrow> int \<Rightarrow> gsm_args" where
  \<comment> \<open>the default arguments of the constructor\<close>
  "gsm_args_of nm sz =
     \<lparr>a_name = nm, a_size = sz, a_attach_only = False, a_pid_dir = ''/dev/shm/fastipc'',
      a_max_attempts = 128, a_try_cleanup = True\<rparr>"

record attempt_env =
  i_open :: "os \<Rightarrow> os"
  i_create :: "os \<Rightarrow> os"
  i_ftruncate :: "os \<Rightarrow> os"
  i_fstat :: "os \<Rightarrow> os"
  f_open :: "nat option"
  f_create :: "nat option"
  f_ftruncate :: "nat option"
  f_fstat :: "nat option"
  f_mmap :: "pyexc option"
  f_unlink :: "nat option"

record close_env =
  c_cleanup :: "os \<Rightarrow> os"
  c_remove :: "os \<Rightarrow> os"
  c_check :: "os \<Rightarrow> os"
  c_unlink :: "os \<Rightarrow> os"
  c_rmdir :: "os \<Rightarrow> os"
  cf_remove :: "nat option"
  cf_unlink :: "nat option"
  c_exports :: bool        \<comment> \<open>\<open>_buf\<close> has exported buffers\<close>

record init_env =
  ie_makedirs :: "nat option"
  ie_attempt :: "nat \<Rightarrow> attempt_env"
  ie_before_pid :: "os \<Rightarrow> os"
  ie_pid_file :: "nat option"
  ie_del :: close_env      \<comment> \<open>the finaliser of a constructor that raised\<close>

definition quiet_attempt :: attempt_env where
  "quiet_attempt = \<lparr>i_open = id, i_create = id, i_ftruncate = id, i_fstat = id, f_open = None,
     f_create = None, f_ftruncate = None, f_fstat = None, f_mmap = None, f_unlink = None\<rparr>"

definition quiet_close :: close_env where
  "quiet_close = \<lparr>c_cleanup = id, c_remove = id, c_check = id, c_unlink = id, c_rmdir = id,
     cf_remove = None, cf_unlink = None, c_exports = False\<rparr>"

definition quiet_init :: init_env where
  "quiet_init = \<lparr>ie_makedirs = None, ie_attempt = (\<lambda>i. quiet_attempt), ie_before_pid = id,
     ie_pid_file = None, ie_del = quiet_close\<rparr>"


section \<open>The constructor\<close>

text \<open>
  The body of the outer \<open>try\<close> up to the call of \<open>fstat\<close>: the local variables
  \<open>fd\<close> and \<open>created\<close>, and the exception if one was raised.
\<close>

definition try_open :: "string \<Rightarrow> int \<Rightarrow> bool \<Rightarrow> attempt_env \<Rightarrow> os \<Rightarrow>
    (nat option \<times> bool \<times> pyexc option) \<times> os" where
  "try_open posix_name sz attach_only e s =
     (case shm_open_wrapped (f_open e) posix_name False (i_open e s) of
        (Inr fd, s1) \<Rightarrow> ((Some fd, False, None), s1)
      | (Inl ex, s1) \<Rightarrow>
          (if ex = FileNotFoundError then
             (if attach_only then ((None, False, Some NoShmFoundError), s1)
              else
                (case shm_open_wrapped (f_create e) posix_name True (i_create e s1) of
                   (Inl ex2, s2) \<Rightarrow> ((None, False, Some ex2), s2)
                 | (Inr fd, s2) \<Rightarrow>
                     (case os_ftruncate (f_ftruncate e) fd (nat sz) (i_ftruncate e s2) of
                        (Inl ex3, s3) \<Rightarrow> ((Some fd, False, Some ex3), s3)
                      | (Inr u, s3) \<Rightarrow> ((Some fd, True, None), s3))))
           else ((None, False, Some ex), s1)))"

definition try_map :: "nat \<Rightarrow> int \<Rightarrow> attempt_env \<Rightarrow> os \<Rightarrow> (nat \<times> int) res \<times> os" where
  "try_map fd sz e s =
     (let s1 = i_fstat e s in
      (case f_fstat e of
         Some err \<Rightarrow> Inl (OSError err)
       | None \<Rightarrow>
           (case os_fds s1 fd of
              None \<Rightarrow> Inl (OSError EBADF)
            | Some ino \<Rightarrow>
                (let actual_size = int (length (os_ino s1 ino)) in
                 if actual_size < sz then Inl ValueError
                 else (case f_mmap e of Some ex \<Rightarrow> Inl ex | None \<Rightarrow> Inr (ino, actual_size)))), s1))"

datatype attempt_outcome = Attached nat nat int bool | Retry | Fail pyexc

definition drop_attempt :: "string \<Rightarrow> nat option \<Rightarrow> bool \<Rightarrow> attempt_env \<Rightarrow> os \<Rightarrow> os" where
  "drop_attempt posix_name fd created e s =
     (case fd of
        None \<Rightarrow> s
      | Some d \<Rightarrow>
          (let s1 = os_close d s in
           if created then snd (shm_unlink_wrapped (f_unlink e) posix_name s1) else s1))"

definition gsm_except :: "string \<Rightarrow> bool \<Rightarrow> pyexc \<Rightarrow> nat option \<Rightarrow> bool \<Rightarrow> attempt_env \<Rightarrow> os \<Rightarrow>
    attempt_outcome \<times> os" where
  "gsm_except posix_name attach_only ex fd created e s =
     (if ex \<in> {FileNotFoundError, FileExistsError, ValueError}
      then (Retry, drop_attempt posix_name fd created e s)
      else if attach_only then (Fail NoShmFoundError, s)
      else (Retry, drop_attempt posix_name fd created e s))"

definition gsm_attempt :: "string \<Rightarrow> int \<Rightarrow> bool \<Rightarrow> attempt_env \<Rightarrow> os \<Rightarrow> attempt_outcome \<times> os" where
  "gsm_attempt posix_name sz attach_only e s =
     (case try_open posix_name sz attach_only e s of
        ((fd, created, Some ex), s1) \<Rightarrow> gsm_except posix_name attach_only ex fd created e s1
      | ((None, created, None), s1) \<Rightarrow> (Retry, s1) \<comment> \<open>not possible: no exception means \<open>fd\<close> is set\<close>
      | ((Some fd, created, None), s1) \<Rightarrow>
          (case try_map fd sz e s1 of
             (Inl ex, s2) \<Rightarrow> gsm_except posix_name attach_only ex (Some fd) created e s2
           | (Inr (ino, actual_size), s2) \<Rightarrow> (Attached fd ino actual_size created, s2)))"

fun gsm_loop :: "string \<Rightarrow> int \<Rightarrow> bool \<Rightarrow> (nat \<Rightarrow> attempt_env) \<Rightarrow> nat \<Rightarrow> nat \<Rightarrow> os \<Rightarrow>
    (nat \<times> nat \<times> int \<times> bool) res \<times> os" where
  "gsm_loop posix_name sz attach_only env i 0 s = (Inl RuntimeError, s)"
| "gsm_loop posix_name sz attach_only env i (Suc n) s =
     (case gsm_attempt posix_name sz attach_only (env i) s of
        (Attached fd ino actual_size created, s') \<Rightarrow> (Inr (fd, ino, actual_size, created), s')
      | (Retry, s') \<Rightarrow> gsm_loop posix_name sz attach_only env (Suc i) n s'
      | (Fail ex, s') \<Rightarrow> (Inl ex, s'))"

definition rstrip_slash :: "string \<Rightarrow> string" where
  "rstrip_slash d = rev (dropWhile (\<lambda>c. c = CHR ''/'') (rev d))"

definition pdir_of :: "string option \<Rightarrow> string \<Rightarrow> string \<Rightarrow> string" where
  \<comment> \<open>the environment variable \<open>FASTIPC_PID_DIR\<close> has priority over the argument\<close>
  "pdir_of environ pid_dir nm =
     rstrip_slash (case environ of None \<Rightarrow> pid_dir | Some d \<Rightarrow> d) @ ''/'' @ nm @ ''.pids''"

definition GuardedSharedMemory_init :: "string option \<Rightarrow> nat \<Rightarrow> gsm_args \<Rightarrow> init_env \<Rightarrow> os \<Rightarrow>
    gsm res \<times> os" where
  "GuardedSharedMemory_init environ pid a ie s =
     (if a_size a \<le> 0 then (Inl ValueError, s)
      else if a_name a = [] then (Inl ValueError, s)
      else if CHR ''/'' \<in> set (a_name a) then (Inl ValueError, s)
      else
        (let posix_name = CHR ''/'' # a_name a;
             pdir = pdir_of environ (a_pid_dir a) (a_name a)
         in case ie_makedirs ie of
              Some e \<Rightarrow> (Inl (OSError e), s)
            | None \<Rightarrow>
                (case gsm_loop posix_name (a_size a) (a_attach_only a) (ie_attempt ie) 0
                   (nat (a_max_attempts a)) (os_makedirs pdir s) of
                   (Inl ex, s1) \<Rightarrow> (Inl ex, s1)
                 | (Inr (fd, ino, actual_size, created), s1) \<Rightarrow>
                     (let g = \<lparr>g_name = a_name a, g_posix_name = posix_name,
                               g_try_cleanup = a_try_cleanup a, g_pid = pid, g_size = actual_size,
                               g_fd = Some fd, g_mmap = Some ino, g_buf = Some ino,
                               g_closed = False, g_unlinked = False, g_pdir = pdir,
                               g_created = created, g_registered = a_try_cleanup a\<rparr>
                      in case ie_pid_file ie of
                           Some e \<Rightarrow> (Inl (OSError e), ie_before_pid ie s1)
                         | None \<Rightarrow>
                             (case os_touch pdir (str_nat pid) (ie_before_pid ie s1) of
                                (Inl ex, s2) \<Rightarrow> (Inl ex, s2)
                              | (Inr u, s2) \<Rightarrow> (Inr g, s2))))))"

section \<open>The life of a handle\<close>

definition get_num_procs :: "gsm \<Rightarrow> os \<Rightarrow> int" where
  "get_num_procs g s = (case os_dirs s (g_pdir g) of None \<Rightarrow> 0 | Some fs \<Rightarrow> int (length fs))"

definition pid_of :: "string \<Rightarrow> int" where
  "pid_of fn = (case py_int fn of Inl e \<Rightarrow> 0 | Inr v \<Rightarrow> v)"

definition cleanup_dead_pids :: "gsm \<Rightarrow> os \<Rightarrow> os" where
  "cleanup_dead_pids g s =
     (case os_dirs s (g_pdir g) of
        None \<Rightarrow> s
      | Some fs \<Rightarrow>
          s\<lparr>os_dirs := (os_dirs s)(g_pdir g \<mapsto>
              filter (\<lambda>fn. \<not> (isdigit fn \<and> \<not> alive (pid_of fn) s)) fs)\<rparr>)"

definition remove_pid_file :: "nat option \<Rightarrow> gsm \<Rightarrow> os \<Rightarrow> unit res \<times> os" where
  "remove_pid_file fault g s =
     (case fault of
        Some e \<Rightarrow> (if e = 2 then Inr () else Inl (OSError e), s)
      | None \<Rightarrow>
          (case os_dirs s (g_pdir g) of
             None \<Rightarrow> (Inr (), s)
           | Some fs \<Rightarrow>
               (Inr (), s\<lparr>os_dirs := (os_dirs s)(g_pdir g \<mapsto> removeAll (str_nat (g_pid g)) fs)\<rparr>)))"

definition has_other_alive_pids :: "gsm \<Rightarrow> os \<Rightarrow> bool" where
  "has_other_alive_pids g s =
     (case os_dirs s (g_pdir g) of
        None \<Rightarrow> False
      | Some fs \<Rightarrow>
          list_ex (\<lambda>fn. isdigit fn \<and> pid_of fn \<noteq> int (g_pid g) \<and> alive (pid_of fn) s) fs)"

definition gsm_unlink :: "nat option \<Rightarrow> gsm \<Rightarrow> os \<Rightarrow> unit res \<times> gsm \<times> os" where
  "gsm_unlink fault g s =
     (if g_unlinked g then (Inr (), g, s)
      else (case shm_unlink_wrapped fault (g_posix_name g) s of
              (Inl e, s') \<Rightarrow> (Inl e, g, s')
            | (Inr u, s') \<Rightarrow> (Inr (), g\<lparr>g_unlinked := True\<rparr>, s')))"

definition gsm_detach :: "bool \<Rightarrow> gsm \<Rightarrow> os \<Rightarrow> unit res \<times> gsm \<times> os" where
  "gsm_detach exports g s =
     (if g_buf g \<noteq> None \<and> exports then (Inl BufferError, g, s)
      else (Inr (), g\<lparr>g_buf := None, g_mmap := None, g_fd := None\<rparr>,
            (case g_fd g of None \<Rightarrow> s | Some fd \<Rightarrow> os_close fd s)))"

definition unregister_atexit :: "gsm \<Rightarrow> gsm" where
  "unregister_atexit g = (if g_try_cleanup g then g\<lparr>g_registered := False\<rparr> else g)"

definition detach_and_mark :: "bool \<Rightarrow> gsm \<Rightarrow> os \<Rightarrow> unit res \<times> gsm \<times> os" where
  \<comment> \<open>the three statements that end both branches of \<open>close\<close>\<close>
  "detach_and_mark exports g s =
     (case gsm_detach exports g s of
        (Inl e, g', s') \<Rightarrow> (Inl e, g', s')
      | (Inr u, g', s') \<Rightarrow> (Inr (), unregister_atexit (g'\<lparr>g_closed := True\<rparr>), s'))"

definition gsm_close :: "close_env \<Rightarrow> gsm \<Rightarrow> os \<Rightarrow> unit res \<times> gsm \<times> os" where
  "gsm_close ce g s =
     (if g_closed g then (Inr (), g, s)
      else
        (let s1 = cleanup_dead_pids g (c_cleanup ce s) in
         case remove_pid_file (cf_remove ce) g (c_remove ce s1) of
           (Inl e, s2) \<Rightarrow> (Inl e, g, s2)
         | (Inr u, s2) \<Rightarrow>
             (let s3 = c_check ce s2 in
              if has_other_alive_pids g s3 then detach_and_mark (c_exports ce) g s3
              else (case gsm_unlink (cf_unlink ce) g (c_unlink ce s3) of
                      (r, g', s4) \<Rightarrow>
                        detach_and_mark (c_exports ce) g'
                          (os_rmdir (g_pdir g) (c_rmdir ce s4))))))"

definition gsm_enter :: "gsm \<Rightarrow> gsm" where
  "gsm_enter g = g"

definition gsm_exit :: "close_env \<Rightarrow> gsm \<Rightarrow> os \<Rightarrow> unit res \<times> gsm \<times> os" where
  "gsm_exit ce g s = gsm_close ce g s"

definition gsm_del :: "close_env \<Rightarrow> gsm \<Rightarrow> os \<Rightarrow> gsm \<times> os" where
  "gsm_del ce g s =
     (if g_try_cleanup g then (case gsm_close ce g s of (r, g', s') \<Rightarrow> (unregister_atexit g', s'))
      else (unregister_atexit g, s))"

text \<open>
  An object whose constructor raised is finalised like any other: \<open>__del__\<close> calls \<open>close\<close> if the
  cleanup flag is set. What a failing constructor leaves depends on where it failed. Arguments that are refused
  at once leave an object without attributes, whose \<open>__del__\<close> fails without effect. A failure of
  \<open>makedirs\<close> or of every attempt leaves an open handle without a buffer and a descriptor. A failure of the
  PID file comes after the registration with \<open>atexit\<close>, which keeps the object alive; without the cleanup flag
  it is dropped, and its \<open>__del__\<close> has no effect.
\<close>

definition gsm_half_built :: "string option \<Rightarrow> nat \<Rightarrow> gsm_args \<Rightarrow> gsm" where
  "gsm_half_built environ pid a =
     \<lparr>g_name = a_name a, g_posix_name = CHR ''/'' # a_name a, g_try_cleanup = a_try_cleanup a,
      g_pid = pid, g_size = a_size a, g_fd = None, g_mmap = None, g_buf = None, g_closed = False,
      g_unlinked = False, g_pdir = pdir_of environ (a_pid_dir a) (a_name a), g_created = False,
      g_registered = False\<rparr>"

definition gsm_left_behind :: "string option \<Rightarrow> nat \<Rightarrow> gsm_args \<Rightarrow> init_env \<Rightarrow> os \<Rightarrow> gsm option" where
  \<comment> \<open>what a constructor that raises leaves to its finaliser\<close>
  "gsm_left_behind environ pid a ie s =
     (if a_size a \<le> 0 \<or> a_name a = [] \<or> CHR ''/'' \<in> set (a_name a) then None
      else
        (case ie_makedirs ie of
           Some e \<Rightarrow> Some (gsm_half_built environ pid a)
         | None \<Rightarrow>
             (case fst (gsm_loop (CHR ''/'' # a_name a) (a_size a) (a_attach_only a) (ie_attempt ie) 0
                (nat (a_max_attempts a)) (os_makedirs (pdir_of environ (a_pid_dir a) (a_name a)) s)) of
                Inl ex \<Rightarrow> Some (gsm_half_built environ pid a)
              | Inr r \<Rightarrow> None)))"

text \<open>
  The call \<open>GuardedSharedMemory(...)\<close>. When \<open>__init__\<close> raises, the traceback keeps the object alive
  for a while; what runs until the finaliser does is the interference before its first system call.
\<close>

definition GuardedSharedMemory_new :: "string option \<Rightarrow> nat \<Rightarrow> gsm_args \<Rightarrow> init_env \<Rightarrow> os \<Rightarrow>
    gsm res \<times> os" where
  "GuardedSharedMemory_new environ pid a ie s =
     (case GuardedSharedMemory_init environ pid a ie s of
        (Inr g, s') \<Rightarrow> (Inr g, s')
      | (Inl ex, s') \<Rightarrow>
          (case gsm_left_behind environ pid a ie s of
             None \<Rightarrow> (Inl ex, s')
           | Some h \<Rightarrow> (Inl ex, snd (gsm_del (ie_del ie) h s'))))"

lemma new_of_init:
  "GuardedSharedMemory_init environ pid a ie s = (Inr g, s') \<Longrightarrow>
    GuardedSharedMemory_new environ pid a ie s = (Inr g, s')"
  by (simp add: GuardedSharedMemory_new_def)

definition gsm_buf :: "gsm \<Rightarrow> nat res" where
  "gsm_buf g = (case g_buf g of None \<Rightarrow> Inl ValueError | Some ino \<Rightarrow> Inr ino)"

definition gsm_size :: "gsm \<Rightarrow> int" where
  "gsm_size g = g_size g"

definition gsm_name :: "gsm \<Rightarrow> string" where
  "gsm_name g = g_name g"

end
