(* ===== verification/Event.thy ===== *)
theory Event
  imports Semaphore Gsm
begin

text \<open>
  \<open>fastipc.sync.named_event\<close>: an event as one futex word in a shared segment. The
  constructor works on the bytes of the segment; the methods are machines of the atomic actions of
  the \<open>FutexWord\<close> methods they call, in the style of the mutex and semaphore theories.
\<close>

section \<open>The constructor\<close>

definition event_shm_name :: "string \<Rightarrow> string" where
  "event_shm_name nm = ''__pyfastipc_event_'' @ nm"

definition map_view :: "nat \<Rightarrow> gsm \<Rightarrow> bufview" where
  \<comment> \<open>the buffer of a handle whose mapping starts at \<open>addr\<close>\<close>
  "map_view addr g = \<lparr>v_base = addr, v_off = 0, v_len = nat (g_size g)\<rparr>"

definition NamedEvent_init :: "string option \<Rightarrow> nat \<Rightarrow> nat \<Rightarrow> string \<Rightarrow> init_env \<Rightarrow> os \<Rightarrow>
    (gsm \<times> FutexWord) res \<times> os" where
  "NamedEvent_init environ pid addr nm ie s =
     (case GuardedSharedMemory_new environ pid (gsm_args_of (event_shm_name nm) 4) ie s of
        (Inl e, s1) \<Rightarrow> (Inl e, s1)
      | (Inr g, s1) \<Rightarrow>
          (case gsm_buf g of
             Inl e \<Rightarrow> (Inl e, s1)
           | Inr ino \<Rightarrow>
               (case FutexWord_init (map_view addr g) True of
                  Inl e \<Rightarrow> (Inl e, s1)
                | Inr fw \<Rightarrow>
                    (Inr (g, fw),
                     if g_created g
                     then s1\<lparr>os_ino := (os_ino s1)(ino := FutexWord_store_release fw 0 (os_ino s1 ino))\<rparr>
                     else s1))))"

section \<open>The methods\<close>

datatype ev_result = EvNone | EvBool bool

datatype ev_pc =
    EOut ev_result
  | ESetStore         \<comment> \<open>\<open>set\<close>: store 1\<close>
  | ESetWake          \<comment> \<open>\<open>set\<close>: wake all\<close>
  | EClear            \<comment> \<open>\<open>clear\<close>: store 0\<close>
  | EWait int         \<comment> \<open>\<open>wait\<close>: about to call \<open>FUTEX_WAIT\<close> with 0\<close>
  | ESleep int        \<comment> \<open>in the kernel\<close>
  | EIsSet            \<comment> \<open>\<open>is_set\<close>: load\<close>

datatype ev_call = CallSet | CallClear | CallEvWait int | CallIsSet

record ev_mem =
  es_word :: u32
  es_queue :: "tid list"

record ev_sys = ev_mem +
  es_pc :: "tid \<Rightarrow> ev_pc"

fun NamedEvent_set :: "wakefn \<Rightarrow> ev_pc \<Rightarrow> ev_mem \<Rightarrow> (ev_pc \<times> ev_mem) option" where
  "NamedEvent_set wk ESetStore m = Some (ESetWake, m\<lparr>es_word := 1\<rparr>)"
| "NamedEvent_set wk ESetWake m = Some (EOut EvNone, m\<lparr>es_queue := wk INT_MAX (es_queue m)\<rparr>)"
| "NamedEvent_set wk pc m = None"

fun NamedEvent_clear :: "ev_pc \<Rightarrow> ev_mem \<Rightarrow> (ev_pc \<times> ev_mem) option" where
  "NamedEvent_clear EClear m = Some (EOut EvNone, m\<lparr>es_word := 0\<rparr>)"
| "NamedEvent_clear pc m = None"

definition ev_wait_return :: "int \<Rightarrow> waitret \<Rightarrow> ev_pc" where
  \<comment> \<open>one round of \<open>FutexWord.wait\<close>: the answer of the system call decides\<close>
  "ev_wait_return timeout_ns r =
     (case FutexWord_wait_loop (timespec timeout_ns \<noteq> None) [r] of
        Some (Inr b) \<Rightarrow> EOut (EvBool b)
      | _ \<Rightarrow> EWait timeout_ns)"

fun NamedEvent_wait :: "mx_env \<Rightarrow> tid \<Rightarrow> ev_pc \<Rightarrow> ev_mem \<Rightarrow> (ev_pc \<times> ev_mem) option" where
  "NamedEvent_wait env t (EWait timeout_ns) m =
     (if es_word m = 0 then Some (ESleep timeout_ns, m\<lparr>es_queue := es_queue m @ [t]\<rparr>)
      else Some (ev_wait_return timeout_ns (WaitErr EAGAIN), m))"
| "NamedEvent_wait env t (ESleep timeout_ns) m =
     (if t \<notin> set (es_queue m) then Some (ev_wait_return timeout_ns WaitOk, m)
      else (let m' = m\<lparr>es_queue := remove1 t (es_queue m)\<rparr> in
        case env_event env of
          Answered \<Rightarrow> Some (ev_wait_return timeout_ns WaitOk, m')
        | Interrupted \<Rightarrow> Some (ev_wait_return timeout_ns (WaitErr EINTR), m')
        | TimedOut \<Rightarrow>
            (if timespec timeout_ns \<noteq> None then Some (ev_wait_return timeout_ns (WaitErr ETIMEDOUT), m')
             else None)))"
| "NamedEvent_wait env t pc m = None"

fun NamedEvent_is_set :: "ev_pc \<Rightarrow> ev_mem \<Rightarrow> (ev_pc \<times> ev_mem) option" where
  "NamedEvent_is_set EIsSet m = Some (EOut (EvBool (es_word m \<noteq> 0)), m)"
| "NamedEvent_is_set pc m = None"

section \<open>The system of threads\<close>

fun ev_entry :: "ev_call \<Rightarrow> ev_pc" where
  "ev_entry CallSet = ESetStore"
| "ev_entry CallClear = EClear"
| "ev_entry (CallEvWait timeout_ns) = EWait timeout_ns"
| "ev_entry CallIsSet = EIsSet"

fun ev_pc_step :: "wakefn \<Rightarrow> mx_env \<Rightarrow> tid \<Rightarrow> ev_pc \<Rightarrow> ev_mem \<Rightarrow> (ev_pc \<times> ev_mem) option" where
  "ev_pc_step wk env t ESetStore m = NamedEvent_set wk ESetStore m"
| "ev_pc_step wk env t ESetWake m = NamedEvent_set wk ESetWake m"
| "ev_pc_step wk env t EClear m = NamedEvent_clear EClear m"
| "ev_pc_step wk env t EIsSet m = NamedEvent_is_set EIsSet m"
| "ev_pc_step wk env t pc m = NamedEvent_wait env t pc m"

datatype ev_event = EventCall tid ev_call | EventStep tid mx_env

definition with_ev :: "ev_sys \<Rightarrow> tid \<Rightarrow> ev_pc \<times> ev_mem \<Rightarrow> ev_sys" where
  "with_ev s t r =
     (case r of (pc, m) \<Rightarrow> \<lparr>es_word = es_word m, es_queue = es_queue m, es_pc = (es_pc s)(t := pc)\<rparr>)"

fun ev_exec :: "wakefn \<Rightarrow> ev_event \<Rightarrow> ev_sys \<Rightarrow> ev_sys option" where
  "ev_exec wk (EventCall t c) s =
     (case es_pc s t of EOut r \<Rightarrow> Some (s\<lparr>es_pc := (es_pc s)(t := ev_entry c)\<rparr>) | _ \<Rightarrow> None)"
| "ev_exec wk (EventStep t env) s =
     map_option (with_ev s t) (ev_pc_step wk env t (es_pc s t) (ev_mem.truncate s))"

fun ev_run :: "wakefn \<Rightarrow> ev_event list \<Rightarrow> ev_sys \<Rightarrow> ev_sys option" where
  "ev_run wk [] s = Some s"
| "ev_run wk (e # es) s = Option.bind (ev_exec wk e s) (ev_run wk es)"

fun ev_thread :: "ev_event \<Rightarrow> tid" where
  "ev_thread (EventCall t c) = t"
| "ev_thread (EventStep t env) = t"

inductive ev_step :: "nat \<Rightarrow> wakefn \<Rightarrow> ev_sys \<Rightarrow> ev_sys \<Rightarrow> bool" for n wk where
  \<comment> \<open>a system of \<open>n\<close> threads\<close>
  ev_stepI: "ev_thread e < n \<Longrightarrow> ev_exec wk e s = Some s' \<Longrightarrow> ev_step n wk s s'"

definition ev_init :: "ev_sys \<Rightarrow> bool" where
  "ev_init s \<longleftrightarrow> es_queue s = [] \<and> (\<forall>t. es_pc s t = EOut EvNone)"

end
