(* ===== verification/Gsm_Safety.thy ===== *)
theory Gsm_Safety
  imports Gsm
begin

text \<open>
  Properties of guarded shared memory: the invariant of the operating system state, what the
  constructor guarantees under interference and what it does without, the life cycle of a
  segment, and the situations in which a segment is removed while a handle still uses it.
\<close>

section \<open>The invariant of the system state\<close>

definition os_wf :: "os \<Rightarrow> bool" where
  "os_wf s \<longleftrightarrow> (\<forall>nm ino. os_shm s nm = Some ino \<longrightarrow> ino < os_next_ino s) \<and>
     (\<forall>fd ino. os_fds s fd = Some ino \<longrightarrow> ino < os_next_ino s \<and> fd < os_next_fd s) \<and>
     (\<forall>d fs. os_dirs s d = Some fs \<longrightarrow> distinct fs)"

text \<open>
  The contract of an action on the system state: it keeps the invariant. The locale is
  interpreted on the wrapped calls and on the operations of a handle.
\<close>

locale os_action =
  fixes act :: "os \<Rightarrow> os"
  assumes act_wf: "os_wf s \<Longrightarrow> os_wf (act s)"

locale os_actions = a: os_action f + b: os_action g for f g
begin

lemma comp_wf: "os_wf s \<Longrightarrow> os_wf (g (f s))"
  by (intro b.act_wf a.act_wf)

end

lemma os_wf_fresh_fd: "os_wf s \<Longrightarrow> os_fds s (os_next_fd s) = None"
  unfolding os_wf_def by (metis less_irrefl not_Some_eq)

interpretation close_fd: os_action "os_close fd" for fd
  by unfold_locales (auto simp: os_wf_def os_close_def)

interpretation makedirs: os_action "os_makedirs d" for d
  by unfold_locales (auto simp: os_wf_def os_makedirs_def split: option.splits)

interpretation rmdir: os_action "os_rmdir d" for d
  by unfold_locales (auto simp: os_wf_def os_rmdir_def)

interpretation touch: os_action "\<lambda>s. snd (os_touch d fn s)" for d fn
  by unfold_locales (auto simp: os_wf_def os_touch_def split: option.splits)

interpretation shm_open: os_action "\<lambda>s. snd (shm_open_wrapped fault nm creat s)" for fault nm creat
  by unfold_locales
    (auto simp: os_wf_def shm_open_wrapped_def new_fd_def Let_def less_Suc_eq split: option.splits)

interpretation shm_unlink: os_action "\<lambda>s. snd (shm_unlink_wrapped fault nm s)" for fault nm
  by unfold_locales (auto simp: os_wf_def shm_unlink_wrapped_def split: option.splits)

interpretation ftruncate: os_action "\<lambda>s. snd (os_ftruncate fault fd n s)" for fault fd n
  by unfold_locales (auto simp: os_wf_def os_ftruncate_def Let_def split: option.splits)

interpretation dead_pids: os_action "cleanup_dead_pids g" for g
  by unfold_locales (auto simp: os_wf_def cleanup_dead_pids_def split: option.splits)

interpretation pid_file: os_action "\<lambda>s. snd (remove_pid_file fault g s)" for fault g
  by unfold_locales
    (auto simp: os_wf_def remove_pid_file_def distinct_removeAll split: option.splits)

lemmas os_wf_intros = close_fd.act_wf makedirs.act_wf rmdir.act_wf touch.act_wf shm_open.act_wf
  shm_unlink.act_wf ftruncate.act_wf dead_pids.act_wf pid_file.act_wf

definition attempt_keeps_wf :: "attempt_env \<Rightarrow> bool" where
  "attempt_keeps_wf e \<longleftrightarrow> os_action (i_open e) \<and> os_action (i_create e) \<and>
     os_action (i_ftruncate e) \<and> os_action (i_fstat e)"

definition init_keeps_wf :: "init_env \<Rightarrow> bool" where
  "init_keeps_wf ie \<longleftrightarrow> (\<forall>i. attempt_keeps_wf (ie_attempt ie i)) \<and> os_action (ie_before_pid ie)"

definition close_keeps_wf :: "close_env \<Rightarrow> bool" where
  "close_keeps_wf ce \<longleftrightarrow> os_action (c_cleanup ce) \<and> os_action (c_remove ce) \<and>
     os_action (c_check ce) \<and> os_action (c_unlink ce) \<and> os_action (c_rmdir ce)"

lemma quiet_keeps_wf: "init_keeps_wf quiet_init" "close_keeps_wf quiet_close"
  by (simp_all add: init_keeps_wf_def attempt_keeps_wf_def close_keeps_wf_def quiet_init_def
      quiet_attempt_def quiet_close_def os_action_def)

lemma os_wf_next_fd: "os_wf s \<Longrightarrow> os_next_fd s \<le> n \<Longrightarrow> os_wf (s\<lparr>os_next_fd := n\<rparr>)"
  by (fastforce simp: os_wf_def)

lemma wf_of_snd: "f s = (r, s') \<Longrightarrow> os_wf (snd (f s)) \<Longrightarrow> os_wf s'"
  by simp

lemma try_open_wf:
  assumes "attempt_keeps_wf e" and "os_wf s" and "try_open nm sz ao e s = (r, s')"
  shows "os_wf s'"
proof -
  have env: "\<And>x. os_wf x \<Longrightarrow> os_wf (i_open e x)" "\<And>x. os_wf x \<Longrightarrow> os_wf (i_create e x)"
    "\<And>x. os_wf x \<Longrightarrow> os_wf (i_ftruncate e x)"
    using assms(1) by (auto simp: attempt_keeps_wf_def os_action_def)
  have o: "os_wf x \<Longrightarrow> shm_open_wrapped f nm c (i_open e x) = (q, y) \<Longrightarrow> os_wf y"
    "os_wf x \<Longrightarrow> shm_open_wrapped f nm c (i_create e x) = (q, y) \<Longrightarrow> os_wf y"
    "os_wf x \<Longrightarrow> os_ftruncate f fd n (i_ftruncate e x) = (q', y) \<Longrightarrow> os_wf y" for f c x q q' y fd n
    by (metis env shm_open.act_wf ftruncate.act_wf snd_conv)+
  show ?thesis using assms(2,3)
    by (auto simp: try_open_def split: prod.splits sum.splits if_splits) (metis o)+
qed

lemma drop_attempt_wf: "os_wf s \<Longrightarrow> os_wf (drop_attempt nm fd c e s)"
  by (auto simp: drop_attempt_def Let_def split: option.splits intro: os_wf_intros)

lemma gsm_except_wf: "os_wf s \<Longrightarrow> gsm_except nm ao ex fd c e s = (r, s') \<Longrightarrow> os_wf s'"
  by (auto simp: gsm_except_def split: if_splits intro: drop_attempt_wf)

lemma gsm_attempt_wf:
  assumes "attempt_keeps_wf e" and "os_wf s" and "gsm_attempt nm sz ao e s = (r, s')"
  shows "os_wf s'"
proof -
  have m: "os_wf x \<Longrightarrow> try_map fd sz e x = (q, y) \<Longrightarrow> os_wf y" for fd x q y
    using assms(1) by (auto simp: try_map_def Let_def attempt_keeps_wf_def os_action_def)
  show ?thesis using assms(2,3)
    by (auto simp: gsm_attempt_def split: prod.splits sum.splits option.splits)
      (metis try_open_wf [OF assms(1)] m gsm_except_wf)+
qed

lemma gsm_loop_wf:
  "\<forall>i. attempt_keeps_wf (env i) \<Longrightarrow> os_wf s \<Longrightarrow> gsm_loop nm sz ao env i n s = (r, s') \<Longrightarrow> os_wf s'"
  by (induction n arbitrary: i s)
    (auto split: prod.splits attempt_outcome.splits dest: gsm_attempt_wf)

lemma gsm_init_wf:
  assumes "init_keeps_wf ie" and "os_wf s" and "GuardedSharedMemory_init environ pid a ie s = (r, s')"
  shows "os_wf s'"
proof -
  have l: "os_wf x \<Longrightarrow> gsm_loop nm sz ao (ie_attempt ie) i n x = (q, y) \<Longrightarrow> os_wf (ie_before_pid ie y) \<and> os_wf y"
    for nm sz ao i n x q y
    using assms(1) by (auto simp: init_keeps_wf_def os_action_def dest: gsm_loop_wf)
  have t: "os_wf x \<Longrightarrow> os_touch d fn x = (q, y) \<Longrightarrow> os_wf y" for d fn x q y
    by (metis touch.act_wf snd_conv)
  show ?thesis using assms(2,3)
    by (auto simp: GuardedSharedMemory_init_def Let_def
        split: if_splits option.splits prod.splits sum.splits)
      (metis l t makedirs.act_wf)+
qed

lemma detach_and_mark_wf: "os_wf s \<Longrightarrow> os_wf (snd (snd (detach_and_mark ex g s)))"
  by (auto simp: detach_and_mark_def gsm_detach_def split: option.splits intro: os_wf_intros)

lemma gsm_unlink_wf: "os_wf s \<Longrightarrow> gsm_unlink f g s = (r, g', s') \<Longrightarrow> os_wf s'"
  by (auto simp: gsm_unlink_def split: if_splits prod.splits sum.splits)
    (metis shm_unlink.act_wf snd_conv)+

lemma gsm_close_wf:
  assumes "close_keeps_wf ce" and "os_wf s"
  shows "os_wf (snd (snd (gsm_close ce g s)))"
proof -
  have env: "os_wf x \<Longrightarrow> os_wf (c_cleanup ce x)" "os_wf x \<Longrightarrow> os_wf (c_remove ce x)"
    "os_wf x \<Longrightarrow> os_wf (c_check ce x)" "os_wf x \<Longrightarrow> os_wf (c_unlink ce x)" "os_wf x \<Longrightarrow> os_wf (c_rmdir ce x)" for x
    using assms(1) by (auto simp: close_keeps_wf_def os_action_def)
  obtain r2 s2 where r2: "remove_pid_file (cf_remove ce) g
      (c_remove ce (cleanup_dead_pids g (c_cleanup ce s))) = (r2, s2)" by force
  then have s2: "os_wf s2" using assms(2) env pid_file.act_wf dead_pids.act_wf by (metis snd_conv)
  obtain r4 g4 s4 where r4: "gsm_unlink (cf_unlink ce) g (c_unlink ce (c_check ce s2)) = (r4, g4, s4)"
    by (metis prod_cases3)
  have s3: "os_wf (c_check ce s2)" using s2 by (rule env(3))
  have "os_wf s4" using gsm_unlink_wf [OF env(4) [OF s3] r4] .
  then have "os_wf (os_rmdir (g_pdir g) (c_rmdir ce s4))" by (intro rmdir.act_wf env(5))
  then show ?thesis
    using s2 s3 r2 r4 assms(2)
    by (cases r2) (simp_all add: gsm_close_def Let_def detach_and_mark_wf)
qed

section \<open>The constructor without interference\<close>

definition good_args :: "gsm_args \<Rightarrow> bool" where
  "good_args a \<longleftrightarrow> 0 < a_size a \<and> a_name a \<noteq> [] \<and> CHR ''/'' \<notin> set (a_name a)"

abbreviation posix_of :: "gsm_args \<Rightarrow> string" where
  "posix_of a \<equiv> CHR ''/'' # a_name a"

definition handle_of :: "string option \<Rightarrow> nat \<Rightarrow> gsm_args \<Rightarrow> nat \<Rightarrow> nat \<Rightarrow> int \<Rightarrow> bool \<Rightarrow> gsm" where
  \<comment> \<open>the handle that a successful constructor returns\<close>
  "handle_of environ pid a fd ino sz created =
     \<lparr>g_name = a_name a, g_posix_name = posix_of a, g_try_cleanup = a_try_cleanup a, g_pid = pid,
      g_size = sz, g_fd = Some fd, g_mmap = Some ino, g_buf = Some ino, g_closed = False,
      g_unlinked = False, g_pdir = pdir_of environ (a_pid_dir a) (a_name a), g_created = created,
      g_registered = a_try_cleanup a\<rparr>"

definition add_pid :: "string \<Rightarrow> nat \<Rightarrow> os \<Rightarrow> os" where
  \<comment> \<open>the PID file of \<open>pid\<close> is in the directory \<open>d\<close>\<close>
  "add_pid d pid s = snd (os_touch d (str_nat pid) (os_makedirs d s))"

lemma makedirs_frame [simp]:
  "os_shm (os_makedirs d s) = os_shm s" "os_ino (os_makedirs d s) = os_ino s"
  "os_fds (os_makedirs d s) = os_fds s" "os_next_fd (os_makedirs d s) = os_next_fd s"
  "os_next_ino (os_makedirs d s) = os_next_ino s" "os_kill (os_makedirs d s) = os_kill s"
  by (simp_all add: os_makedirs_def split: option.splits)

lemma makedirs_dir: "\<exists>fs. os_dirs (os_makedirs d s) d = Some fs"
  by (simp add: os_makedirs_def split: option.splits)

lemma add_pid_frame [simp]:
  "os_shm (add_pid d pid s) = os_shm s" "os_ino (add_pid d pid s) = os_ino s"
  "os_fds (add_pid d pid s) = os_fds s" "os_next_fd (add_pid d pid s) = os_next_fd s"
  "os_next_ino (add_pid d pid s) = os_next_ino s" "os_kill (add_pid d pid s) = os_kill s"
  by (simp_all add: add_pid_def os_touch_def split: option.splits)

lemma add_pid_dirs:
  "os_dirs (add_pid d pid s) = (os_dirs s)(d \<mapsto>
     (let fs = (case os_dirs s d of None \<Rightarrow> [] | Some fs \<Rightarrow> fs) in
      if str_nat pid \<in> set fs then fs else fs @ [str_nat pid]))"
  by (auto simp: add_pid_def os_touch_def os_makedirs_def Let_def split: option.splits)

interpretation add_pid: os_actions "os_makedirs d" "\<lambda>s. snd (os_touch d fn s)" for d fn
  by unfold_locales

lemma add_pid_wf: "os_wf s \<Longrightarrow> os_wf (add_pid d pid s)"
  by (simp add: add_pid_def add_pid.comp_wf)

lemmas attempt_defs = gsm_attempt_def try_open_def try_map_def gsm_except_def drop_attempt_def
  shm_open_wrapped_def shm_unlink_wrapped_def os_ftruncate_def new_fd_def os_close_def
  shm_open_error_def quiet_attempt_def

lemma init_of_loop:
  assumes "good_args a" and d: "d = pdir_of environ (a_pid_dir a) (a_name a)"
    and "gsm_loop (posix_of a) (a_size a) (a_attach_only a) (\<lambda>i. quiet_attempt) 0
      (nat (a_max_attempts a)) (os_makedirs d s) = (Inr (fd, ino, n, c), s1)"
    and "os_dirs s1 = os_dirs (os_makedirs d s)"
  shows "GuardedSharedMemory_init environ pid a quiet_init s =
    (Inr (handle_of environ pid a fd ino n c), snd (os_touch d (str_nat pid) s1))"
  using assms makedirs_dir [of d s]
  by (auto simp: GuardedSharedMemory_init_def good_args_def quiet_init_def handle_of_def
      os_touch_def Let_def)

lemma attempt_creates:
  assumes "os_shm s nm = None" and "0 < sz"
  shows "gsm_attempt nm sz False quiet_attempt s =
    (Attached (os_next_fd s) (os_next_ino s) sz True,
     s\<lparr>os_shm := (os_shm s)(nm \<mapsto> os_next_ino s),
       os_ino := (os_ino s)(os_next_ino s := replicate (nat sz) 0), os_next_ino := Suc (os_next_ino s),
       os_fds := (os_fds s)(os_next_fd s \<mapsto> os_next_ino s), os_next_fd := Suc (os_next_fd s)\<rparr>)"
  using assms by (simp add: attempt_defs Let_def)

lemma attempt_attaches:
  assumes "os_shm s nm = Some ino" and "sz \<le> int (length (os_ino s ino))"
  shows "gsm_attempt nm sz ao quiet_attempt s =
    (Attached (os_next_fd s) ino (int (length (os_ino s ino))) False,
     s\<lparr>os_fds := (os_fds s)(os_next_fd s \<mapsto> ino), os_next_fd := Suc (os_next_fd s)\<rparr>)"
  using assms by (simp add: attempt_defs Let_def)

lemma attempt_too_small:
  assumes "os_shm s nm = Some ino" and "int (length (os_ino s ino)) < sz" and "os_wf s"
  shows "gsm_attempt nm sz ao quiet_attempt s = (Retry, s\<lparr>os_next_fd := Suc (os_next_fd s)\<rparr>)"
  using assms os_wf_fresh_fd [OF assms(3)] by (simp add: attempt_defs Let_def fun_upd_idem)

lemma attempt_absent:
  assumes "os_shm s nm = None"
  shows "gsm_attempt nm sz True quiet_attempt s = (Fail NoShmFoundError, s)"
  using assms by (simp add: attempt_defs)

lemma loop_too_small:
  assumes "os_shm s nm = Some ino" and "int (length (os_ino s ino)) < sz" and "os_wf s"
    and "\<forall>j \<ge> i. env j = quiet_attempt"
  shows "gsm_loop nm sz ao env i n s = (Inl RuntimeError, s\<lparr>os_next_fd := os_next_fd s + n\<rparr>)"
  using assms
proof (induction n arbitrary: i s)
  case (Suc n)
  let ?s = "s\<lparr>os_next_fd := Suc (os_next_fd s)\<rparr>"
  have "os_wf ?s" using Suc.prems(3) by (auto simp: os_wf_def less_Suc_eq)
  then show ?case
    using Suc.IH [of ?s "Suc i"] Suc.prems attempt_too_small [OF Suc.prems(1-3)] by simp
qed simp

lemma init_creates:
  assumes "good_args a" and "1 \<le> a_max_attempts a" and "\<not> a_attach_only a"
    and "os_shm s (posix_of a) = None"
  shows "GuardedSharedMemory_init environ pid a quiet_init s =
    (Inr (handle_of environ pid a (os_next_fd s) (os_next_ino s) (a_size a) True),
     add_pid (pdir_of environ (a_pid_dir a) (a_name a)) pid
       (s\<lparr>os_shm := (os_shm s)(posix_of a \<mapsto> os_next_ino s),
          os_ino := (os_ino s)(os_next_ino s := replicate (nat (a_size a)) 0),
          os_next_ino := Suc (os_next_ino s),
          os_fds := (os_fds s)(os_next_fd s \<mapsto> os_next_ino s), os_next_fd := Suc (os_next_fd s)\<rparr>))"
proof -
  let ?d = "pdir_of environ (a_pid_dir a) (a_name a)"
  obtain n where n: "nat (a_max_attempts a) = Suc n" using assms(2) by (cases "nat (a_max_attempts a)") auto
  have "os_shm (os_makedirs ?d s) (posix_of a) = None" "0 < a_size a"
    using assms(1,4) by (auto simp: good_args_def)
  note att = attempt_creates [OF this]
  have "gsm_loop (posix_of a) (a_size a) (a_attach_only a) (\<lambda>i. quiet_attempt) 0
      (nat (a_max_attempts a)) (os_makedirs ?d s) =
    (Inr (os_next_fd s, os_next_ino s, a_size a, True), (os_makedirs ?d s)
       \<lparr>os_shm := (os_shm s)(posix_of a \<mapsto> os_next_ino s),
          os_ino := (os_ino s)(os_next_ino s := replicate (nat (a_size a)) 0),
          os_next_ino := Suc (os_next_ino s),
          os_fds := (os_fds s)(os_next_fd s \<mapsto> os_next_ino s), os_next_fd := Suc (os_next_fd s)\<rparr>)"
    using assms(3) by (simp add: n att)
  from init_of_loop [OF assms(1) refl this] show ?thesis
    by (simp add: add_pid_def os_touch_def os_makedirs_def split: option.splits)
qed

lemma init_attaches:
  assumes "good_args a" and "1 \<le> a_max_attempts a" and "os_shm s (posix_of a) = Some ino"
    and "a_size a \<le> int (length (os_ino s ino))"
  shows "GuardedSharedMemory_init environ pid a quiet_init s =
    (Inr (handle_of environ pid a (os_next_fd s) ino (int (length (os_ino s ino))) False),
     add_pid (pdir_of environ (a_pid_dir a) (a_name a)) pid
       (s\<lparr>os_fds := (os_fds s)(os_next_fd s \<mapsto> ino), os_next_fd := Suc (os_next_fd s)\<rparr>))"
proof -
  let ?d = "pdir_of environ (a_pid_dir a) (a_name a)"
  obtain n where n: "nat (a_max_attempts a) = Suc n" using assms(2) by (cases "nat (a_max_attempts a)") auto
  have "os_shm (os_makedirs ?d s) (posix_of a) = Some ino"
    "a_size a \<le> int (length (os_ino (os_makedirs ?d s) ino))" using assms(3,4) by simp_all
  note att = attempt_attaches [OF this]
  have "gsm_loop (posix_of a) (a_size a) (a_attach_only a) (\<lambda>i. quiet_attempt) 0
      (nat (a_max_attempts a)) (os_makedirs ?d s) =
    (Inr (os_next_fd s, ino, int (length (os_ino s ino)), False), (os_makedirs ?d s)
       \<lparr>os_fds := (os_fds s)(os_next_fd s \<mapsto> ino), os_next_fd := Suc (os_next_fd s)\<rparr>)"
    by (simp add: n att)
  from init_of_loop [OF assms(1) refl this] show ?thesis
    by (simp add: add_pid_def os_touch_def os_makedirs_def split: option.splits)
qed

lemma init_too_small:
  assumes "good_args a" and "os_shm s (posix_of a) = Some ino"
    and "int (length (os_ino s ino)) < a_size a" and "os_wf s"
  shows "GuardedSharedMemory_init environ pid a quiet_init s =
    (Inl RuntimeError, (os_makedirs (pdir_of environ (a_pid_dir a) (a_name a)) s)
       \<lparr>os_next_fd := os_next_fd s + nat (a_max_attempts a)\<rparr>)"
  using assms(1) loop_too_small [of "os_makedirs (pdir_of environ (a_pid_dir a) (a_name a)) s"
      "posix_of a" ino "a_size a" 0 "\<lambda>i. quiet_attempt"] assms(2-4) makedirs.act_wf
  by (simp add: GuardedSharedMemory_init_def good_args_def quiet_init_def Let_def)

lemma init_bad_args: "\<not> good_args a \<Longrightarrow> GuardedSharedMemory_init environ pid a ie s = (Inl ValueError, s)"
  by (auto simp: GuardedSharedMemory_init_def good_args_def)

lemma init_absent:
  assumes "good_args a" and "os_shm s (posix_of a) = None" and "a_attach_only a" and "1 \<le> a_max_attempts a"
  shows "GuardedSharedMemory_init environ pid a quiet_init s =
    (Inl NoShmFoundError, os_makedirs (pdir_of environ (a_pid_dir a) (a_name a)) s)"
proof -
  obtain n where n: "nat (a_max_attempts a) = Suc n" using assms(4) by (cases "nat (a_max_attempts a)") auto
  show ?thesis using assms n
    by (simp add: GuardedSharedMemory_init_def good_args_def quiet_init_def Let_def attempt_absent)
qed

section \<open>Closing without interference\<close>

definition closed_handle :: "gsm \<Rightarrow> gsm" where
  "closed_handle g = unregister_atexit
     (g\<lparr>g_buf := None, g_mmap := None, g_fd := None, g_closed := True\<rparr>)"

definition without_fd :: "gsm \<Rightarrow> os \<Rightarrow> os" where
  "without_fd g s = (case g_fd g of None \<Rightarrow> s | Some fd \<Rightarrow> os_close fd s)"

lemmas close_defs = gsm_close_def cleanup_dead_pids_def remove_pid_file_def
  has_other_alive_pids_def gsm_unlink_def shm_unlink_wrapped_def detach_and_mark_def
  gsm_detach_def quiet_close_def

definition others_alive :: "gsm \<Rightarrow> string list \<Rightarrow> os \<Rightarrow> bool" where
  \<comment> \<open>some other process with a PID file is alive\<close>
  "others_alive g fs s \<longleftrightarrow> (\<exists>fn \<in> set fs. isdigit fn \<and> pid_of fn \<noteq> int (g_pid g) \<and> alive (pid_of fn) s)"

lemma pid_of_str_nat [simp]: "pid_of (str_nat n) = int n"
  by (simp add: pid_of_def)

lemma alive_dirs [simp]: "alive p (s\<lparr>os_dirs := x\<rparr>) = alive p s"
  by (simp add: alive_def)

definition live_files :: "gsm \<Rightarrow> string list \<Rightarrow> os \<Rightarrow> string list" where
  \<comment> \<open>what is left of the PID directory when the dead processes and this one are removed\<close>
  "live_files g fs s = removeAll (str_nat (g_pid g)) (filter (\<lambda>fn. \<not> (isdigit fn \<and> \<not> alive (pid_of fn) s)) fs)"

lemma others_alive_live_files: "others_alive g (live_files g fs s) s = others_alive g fs s"
  by (auto simp: others_alive_def live_files_def)

lemma close_prefix:
  assumes "os_dirs s (g_pdir g) = Some fs"
  shows "remove_pid_file None g (cleanup_dead_pids g s) =
      (Inr (), s\<lparr>os_dirs := (os_dirs s)(g_pdir g \<mapsto> live_files g fs s)\<rparr>)"
  using assms by (simp add: remove_pid_file_def cleanup_dead_pids_def live_files_def)

lemma close_check:
  "has_other_alive_pids g (s\<lparr>os_dirs := (os_dirs s)(g_pdir g \<mapsto> live_files g fs s)\<rparr>) = others_alive g fs s"
  using others_alive_live_files [of g fs s]
  by (simp add: has_other_alive_pids_def others_alive_def list_ex_iff)

lemma detach_and_mark_ok: "detach_and_mark False g s = (Inr (), closed_handle g, without_fd g s)"
  by (simp add: detach_and_mark_def gsm_detach_def closed_handle_def without_fd_def)

lemma gsm_close_quiet:
  assumes "\<not> g_closed g" and "os_dirs s (g_pdir g) = Some fs"
  defines "s2 \<equiv> s\<lparr>os_dirs := (os_dirs s)(g_pdir g \<mapsto> live_files g fs s)\<rparr>"
  shows "gsm_close quiet_close g s =
    (if others_alive g fs s then detach_and_mark False g s2
     else (case gsm_unlink None g s2 of (r, g', s4) \<Rightarrow> detach_and_mark False g' (os_rmdir (g_pdir g) s4)))"
  using assms(1) unfolding s2_def
  by (simp add: gsm_close_def quiet_close_def close_prefix [OF assms(2)] close_check Let_def)

lemma close_shared:
  assumes "\<not> g_closed g" and "os_dirs s (g_pdir g) = Some fs" and "others_alive g fs s"
  shows "gsm_close quiet_close g s =
    (Inr (), closed_handle g,
     without_fd g (s\<lparr>os_dirs := (os_dirs s)(g_pdir g \<mapsto> live_files g fs s)\<rparr>))"
  using gsm_close_quiet [OF assms(1,2)] assms(3) by (simp add: detach_and_mark_ok)

lemma close_last:
  assumes "\<not> g_closed g" and "\<not> g_unlinked g" and "os_dirs s (g_pdir g) = Some fs"
    and "\<not> others_alive g fs s"
  shows "gsm_close quiet_close g s =
    (Inr (), closed_handle (g\<lparr>g_unlinked := True\<rparr>),
     without_fd g (os_rmdir (g_pdir g)
       (s\<lparr>os_dirs := (os_dirs s)(g_pdir g \<mapsto> live_files g fs s),
          os_shm := (os_shm s)(g_posix_name g := None)\<rparr>)))"
  using gsm_close_quiet [OF assms(1,3)] assms(2,4)
  by (simp add: detach_and_mark_ok gsm_unlink_def shm_unlink_wrapped_def without_fd_def)

lemmas new_creates = init_creates [THEN new_of_init]
lemmas new_attaches = init_attaches [THEN new_of_init]

section \<open>A constructor that raises, with its finaliser\<close>

lemma gsm_new_wf:
  assumes "init_keeps_wf ie" and "close_keeps_wf (ie_del ie)" and "os_wf s"
    and "GuardedSharedMemory_new environ pid a ie s = (r, s')"
  shows "os_wf s'"
proof -
  obtain q s1 where i: "GuardedSharedMemory_init environ pid a ie s = (q, s1)" by force
  have wf: "os_wf s1" using gsm_init_wf [OF assms(1,3) i] .
  have "os_wf (snd (gsm_del (ie_del ie) h s1))" for h
    using gsm_close_wf [OF assms(2) wf, of h] wf by (simp add: gsm_del_def split_def)
  with assms(4) i wf show ?thesis
    by (auto simp: GuardedSharedMemory_new_def split: sum.splits option.splits)
qed

text \<open>What the finaliser does to the system when nobody interferes and the PID directory is there.\<close>

definition finalised :: "gsm \<Rightarrow> os \<Rightarrow> os" where
  "finalised h s =
     (case os_dirs s (g_pdir h) of
        None \<Rightarrow> s
      | Some fs \<Rightarrow>
          (let s1 = s\<lparr>os_dirs := (os_dirs s)(g_pdir h \<mapsto> live_files h fs s)\<rparr> in
           if \<not> g_try_cleanup h then s
           else if others_alive h fs s then s1
           else os_rmdir (g_pdir h) (s1\<lparr>os_shm := (os_shm s)(g_posix_name h := None)\<rparr>)))"

lemma gsm_del_half_built:
  assumes "os_dirs s (g_pdir (gsm_half_built environ pid a)) = Some fs"
  shows "snd (gsm_del quiet_close (gsm_half_built environ pid a) s) = finalised (gsm_half_built environ pid a) s"
proof -
  let ?h = "gsm_half_built environ pid a"
  have h: "\<not> g_closed ?h" "\<not> g_unlinked ?h" "g_fd ?h = None" by (simp_all add: gsm_half_built_def)
  show ?thesis
    using close_shared [OF h(1) assms] close_last [OF h(1,2) assms] assms h(3)
    by (auto simp: gsm_del_def finalised_def without_fd_def Let_def)
qed

lemma new_raises:
  assumes "good_args a" and "GuardedSharedMemory_init environ pid a quiet_init s = (Inl ex, s')"
    and "gsm_left_behind environ pid a quiet_init s = Some (gsm_half_built environ pid a)"
    and "os_dirs s' (g_pdir (gsm_half_built environ pid a)) = Some fs"
  shows "GuardedSharedMemory_new environ pid a quiet_init s = (Inl ex, finalised (gsm_half_built environ pid a) s')"
  using assms gsm_del_half_built [OF assms(4)] by (simp add: GuardedSharedMemory_new_def quiet_init_def)

lemma half_built_dir:
  "\<exists>fs. os_dirs (os_makedirs (pdir_of environ (a_pid_dir a) (a_name a)) s) (g_pdir (gsm_half_built environ pid a)) = Some fs"
  using makedirs_dir by (simp add: gsm_half_built_def)

lemma new_too_small:
  assumes "good_args a" and "os_shm s (posix_of a) = Some ino"
    and "int (length (os_ino s ino)) < a_size a" and "os_wf s"
  shows "GuardedSharedMemory_new environ pid a quiet_init s =
    (Inl RuntimeError, finalised (gsm_half_built environ pid a)
      ((os_makedirs (pdir_of environ (a_pid_dir a) (a_name a)) s)
         \<lparr>os_next_fd := os_next_fd s + nat (a_max_attempts a)\<rparr>))"
proof -
  have "gsm_left_behind environ pid a quiet_init s = Some (gsm_half_built environ pid a)"
    using assms(1) loop_too_small [of "os_makedirs (pdir_of environ (a_pid_dir a) (a_name a)) s"
        "posix_of a" ino "a_size a" 0 "\<lambda>i. quiet_attempt"] assms(2-4) makedirs.act_wf
    by (simp add: gsm_left_behind_def good_args_def quiet_init_def)
  with init_too_small [OF assms] half_built_dir [of environ a s pid] new_raises [OF assms(1)] show ?thesis by auto
qed

lemma new_absent:
  assumes "good_args a" and "os_shm s (posix_of a) = None" and "a_attach_only a" and "1 \<le> a_max_attempts a"
  shows "GuardedSharedMemory_new environ pid a quiet_init s =
    (Inl NoShmFoundError, finalised (gsm_half_built environ pid a)
      (os_makedirs (pdir_of environ (a_pid_dir a) (a_name a)) s))"
proof -
  obtain n where n: "nat (a_max_attempts a) = Suc n" using assms(4) by (cases "nat (a_max_attempts a)") auto
  have "gsm_left_behind environ pid a quiet_init s = Some (gsm_half_built environ pid a)"
    using assms n by (simp add: gsm_left_behind_def good_args_def quiet_init_def attempt_absent)
  with init_absent [OF assms] half_built_dir [of environ a s pid] new_raises [OF assms(1)] show ?thesis by auto
qed

lemma new_bad_args: "\<not> good_args a \<Longrightarrow> GuardedSharedMemory_new environ pid a ie s = (Inl ValueError, s)"
  by (auto simp: GuardedSharedMemory_new_def init_bad_args gsm_left_behind_def good_args_def)

lemma finalised_frame [simp]:
  "os_ino (finalised h s) = os_ino s" "os_fds (finalised h s) = os_fds s" "os_kill (finalised h s) = os_kill s"
  "os_next_ino (finalised h s) = os_next_ino s" "os_next_fd (finalised h s) = os_next_fd s"
  by (auto simp: finalised_def os_rmdir_def Let_def split: option.split)

lemma finalised_wf: "os_wf s \<Longrightarrow> os_wf (finalised h s)"
  by (auto simp: finalised_def os_rmdir_def live_files_def os_wf_def Let_def distinct_removeAll split: option.split)

lemma finalised_shm:
  assumes "os_dirs s (g_pdir h) = Some fs"
  shows "os_shm (finalised h s) =
    (if g_try_cleanup h \<and> \<not> has_other_alive_pids h s then (os_shm s)(g_posix_name h := None) else os_shm s)"
proof -
  have "has_other_alive_pids h s = others_alive h fs s"
    using assms by (simp add: has_other_alive_pids_def others_alive_def list_ex_iff)
  with assms show ?thesis by (auto simp: finalised_def os_rmdir_def Let_def)
qed

lemma others_alive_frame:
  assumes "os_kill s' = os_kill s" and "os_dirs s' = os_dirs (os_makedirs d s)"
  shows "has_other_alive_pids h s' = has_other_alive_pids h s"
  using assms by (auto simp: has_other_alive_pids_def os_makedirs_def list_ex_iff alive_def split: option.splits)

text \<open>A name is poisoned when it is linked to an empty segment, which is too small for every constructor.\<close>

definition poisoned :: "string \<Rightarrow> os \<Rightarrow> bool" where
  "poisoned nm s \<longleftrightarrow> (\<exists>ino. os_shm s nm = Some ino \<and> os_ino s ino = [])"

definition last_alive :: "gsm \<Rightarrow> os \<Rightarrow> bool" where
  \<comment> \<open>the cleanup flag is set and no other process with a PID file is alive\<close>
  "last_alive h s \<longleftrightarrow> g_try_cleanup h \<and> \<not> has_other_alive_pids h s"

lemma finalised_poisoned:
  assumes "poisoned nm s'" and "g_posix_name h = nm" and "os_dirs s' (g_pdir h) = Some fs"
    and "os_kill s' = os_kill s" and "os_dirs s' = os_dirs (os_makedirs d s)"
  shows "if last_alive h s then os_shm (finalised h s') nm = None else poisoned nm (finalised h s')"
  using assms(1-3) others_alive_frame [OF assms(4,5), of h]
  by (auto simp: finalised_shm last_alive_def poisoned_def)

lemma new_poisoned:
  assumes "good_args b" and "poisoned (posix_of b) s" and "os_wf s"
  shows "\<exists>s'. GuardedSharedMemory_new environ pid b quiet_init s = (Inl RuntimeError, s') \<and> os_wf s' \<and>
    (if last_alive (gsm_half_built environ pid b) s then os_shm s' (posix_of b) = None else poisoned (posix_of b) s')"
proof -
  define h where "h = gsm_half_built environ pid b"
  from assms(2) obtain ino where ino: "os_shm s (posix_of b) = Some ino" "os_ino s ino = []" by (auto simp: poisoned_def)
  let ?d = "pdir_of environ (a_pid_dir b) (a_name b)"
  let ?s = "(os_makedirs ?d s)\<lparr>os_next_fd := os_next_fd s + nat (a_max_attempts b)\<rparr>"
  have "int (length (os_ino s ino)) < a_size b" using assms(1) ino(2) by (simp add: good_args_def)
  note new = new_too_small [OF assms(1) ino(1) this assms(3), of environ pid, folded h_def]
  obtain fs where fs: "os_dirs ?s (g_pdir h) = Some fs" using half_built_dir [of environ b s pid] by (auto simp: h_def)
  have nm: "g_posix_name h = posix_of b" by (simp add: h_def gsm_half_built_def)
  have "poisoned (posix_of b) ?s" using ino by (simp add: poisoned_def)
  from finalised_poisoned [OF this nm fs, of s ?d] have "if last_alive h s then os_shm (finalised h ?s) (posix_of b) = None
      else poisoned (posix_of b) (finalised h ?s)" by simp
  moreover have "os_wf ?s" using makedirs.act_wf [OF assms(3), of ?d] by (fastforce simp: os_wf_def)
  ultimately show ?thesis using new finalised_wf unfolding h_def by auto
qed

section \<open>The constructor under interference\<close>

lemma try_map_size:
  "try_map fd sz e s = (Inr (ino, n), s') \<Longrightarrow> sz \<le> n"
  by (auto simp: try_map_def Let_def split: option.splits if_splits)

lemma try_open_attach_only:
  "try_open nm sz True e s = ((fd, c, ex), s') \<Longrightarrow> \<not> c"
  by (auto simp: try_open_def split: prod.splits sum.splits if_splits)

lemma gsm_attempt_attached:
  "gsm_attempt nm sz ao e s = (Attached fd ino n c, s') \<Longrightarrow> sz \<le> n \<and> (ao \<longrightarrow> \<not> c)"
  by (auto simp: gsm_attempt_def gsm_except_def split: prod.splits sum.splits option.splits if_splits
      dest: try_map_size try_open_attach_only)

lemma gsm_loop_attached:
  "gsm_loop nm sz ao env i n s = (Inr (fd, ino, k, c), s') \<Longrightarrow> sz \<le> k \<and> (ao \<longrightarrow> \<not> c)"
  by (induction n arbitrary: i s)
    (auto split: prod.splits attempt_outcome.splits dest: gsm_attempt_attached)

lemma touch_present: "os_touch d fn s = (Inr u, s') \<Longrightarrow> \<exists>fs. os_dirs s' d = Some fs \<and> fn \<in> set fs"
  by (auto simp: os_touch_def split: option.splits)

lemma init_shape:
  assumes "GuardedSharedMemory_init environ pid a ie s = (Inr g, s')"
  shows "good_args a \<and>
    (\<exists>fd ino n c. g = handle_of environ pid a fd ino n c \<and> a_size a \<le> n \<and> (a_attach_only a \<longrightarrow> \<not> c)) \<and>
    (\<exists>fs. os_dirs s' (g_pdir g) = Some fs \<and> str_nat pid \<in> set fs)"
  using assms
  by (auto simp: GuardedSharedMemory_init_def good_args_def handle_of_def Let_def
      split: if_splits option.splits prod.splits sum.splits
      dest: gsm_loop_attached touch_present)

section \<open>A concrete system\<close>

definition os_empty :: os where
  "os_empty = \<lparr>os_shm = (\<lambda>nm. None), os_ino = (\<lambda>i. []), os_next_ino = 0, os_fds = (\<lambda>fd. None),
     os_next_fd = 3, os_dirs = (\<lambda>d. None), os_kill = (\<lambda>p. None)\<rparr>"

abbreviation demo_args :: gsm_args where
  "demo_args \<equiv> gsm_args_of ''demo'' 64"

definition os_demo :: os where
  \<comment> \<open>the segment \<open>demo\<close> of 64 bytes exists\<close>
  "os_demo = os_empty\<lparr>os_shm := (os_shm os_empty)(''/demo'' \<mapsto> 0),
     os_ino := (\<lambda>i. replicate 64 0), os_next_ino := 1\<rparr>"

lemma os_empty_wf: "os_wf os_empty"
  by (simp add: os_wf_def os_empty_def)

lemma os_demo_wf: "os_wf os_demo"
  by (simp add: os_wf_def os_demo_def os_empty_def)

lemma demo_args_good: "good_args demo_args" "1 \<le> a_max_attempts demo_args"
  "\<not> a_attach_only demo_args" "a_name demo_args = ''demo''" "a_size demo_args = 64"
  by (simp_all add: good_args_def gsm_args_of_def)

section \<open>Properties\<close>

text \<open>
  C7. What the constructor guarantees whatever other processes do between its system calls and
  whichever of them fail: a handle it returns has valid arguments, at least the requested size, is
  open on a mapped segment, was not created by an \<open>attach_only\<close> call, and its PID file is
  in the PID directory.
\<close>

theorem gsm_init_guarantee:
  assumes "GuardedSharedMemory_init environ pid a ie s = (Inr g, s')"
  shows "0 < a_size a \<and> a_size a \<le> gsm_size g \<and> (a_attach_only a \<longrightarrow> \<not> g_created g) \<and>
    \<not> g_closed g \<and> g_fd g \<noteq> None \<and> g_buf g \<noteq> None \<and> g_buf g = g_mmap g \<and>
    gsm_name g = a_name a \<and> g_posix_name g = CHR ''/'' # a_name a \<and> CHR ''/'' \<notin> set (a_name a) \<and>
    (\<exists>fs. os_dirs s' (g_pdir g) = Some fs \<and> str_nat pid \<in> set fs)"
  using init_shape [OF assms] by (auto simp: good_args_def handle_of_def gsm_size_def gsm_name_def)

theorem gsm_init_guarantee_witness:
  "\<exists>g s'. GuardedSharedMemory_init None 7 demo_args quiet_init os_empty = (Inr g, s') \<and> 64 \<le> gsm_size g"
proof -
  have "os_shm os_empty (posix_of demo_args) = None" by (simp add: os_empty_def)
  from init_creates [OF demo_args_good(1-3) this, of None 7]
  obtain g s' where "GuardedSharedMemory_init None 7 demo_args quiet_init os_empty = (Inr g, s')" by blast
  from this gsm_init_guarantee [OF this] show ?thesis by (auto simp: demo_args_good)
qed

text \<open>
  The constructor creates a missing segment: it has exactly the requested size, contains
  zeros only, is linked under the name, and the handle says so.
\<close>

theorem gsm_init_creates_segment:
  assumes "0 < a_size a" and "a_name a \<noteq> []" and "CHR ''/'' \<notin> set (a_name a)"
    and "1 \<le> a_max_attempts a" and "\<not> a_attach_only a" and "os_shm s (CHR ''/'' # a_name a) = None"
  shows "\<exists>g ino s'. GuardedSharedMemory_init environ pid a quiet_init s = (Inr g, s') \<and>
    g_created g \<and> g_size g = a_size a \<and> g_buf g = Some ino \<and>
    os_ino s' ino = replicate (nat (a_size a)) 0 \<and>
    os_shm s' = (os_shm s)(CHR ''/'' # a_name a \<mapsto> ino) \<and>
    (\<forall>i. i \<noteq> ino \<longrightarrow> os_ino s' i = os_ino s i)"
proof -
  have "good_args a" using assms(1-3) by (simp add: good_args_def)
  from init_creates [OF this assms(4-6)] show ?thesis by (auto simp: handle_of_def)
qed

theorem gsm_init_creates_segment_witness:
  "\<exists>g ino s'. GuardedSharedMemory_init None 7 demo_args quiet_init os_empty = (Inr g, s') \<and>
    g_created g \<and> g_buf g = Some ino \<and> os_ino s' ino = replicate 64 0"
proof -
  have a: "0 < a_size demo_args" "a_name demo_args \<noteq> []" "CHR ''/'' \<notin> set (a_name demo_args)"
    "os_shm os_empty (posix_of demo_args) = None"
    by (simp_all add: demo_args_good os_empty_def)
  from gsm_init_creates_segment [OF a(1-3) demo_args_good(2,3) a(4), of None 7] show ?thesis
    by (auto simp: demo_args_good)
qed

text \<open>
  The constructor attaches to an existing segment that is large enough, with or without
  \<open>attach_only\<close>: the handle has the segment's own size and is not the creator, and neither
  the names nor the contents of segments change.
\<close>

theorem gsm_init_attaches_segment:
  assumes "0 < a_size a" and "a_name a \<noteq> []" and "CHR ''/'' \<notin> set (a_name a)"
    and "1 \<le> a_max_attempts a" and "os_shm s (CHR ''/'' # a_name a) = Some ino"
    and "a_size a \<le> int (length (os_ino s ino))"
  shows "\<exists>g s'. GuardedSharedMemory_init environ pid a quiet_init s = (Inr g, s') \<and>
    \<not> g_created g \<and> g_size g = int (length (os_ino s ino)) \<and> g_buf g = Some ino \<and>
    os_ino s' = os_ino s \<and> os_shm s' = os_shm s"
proof -
  have "good_args a" using assms(1-3) by (simp add: good_args_def)
  from init_attaches [OF this assms(4-6)] show ?thesis by (auto simp: handle_of_def)
qed

theorem gsm_init_attaches_segment_witness:
  "\<exists>g s'. GuardedSharedMemory_init None 7 demo_args quiet_init os_demo = (Inr g, s') \<and>
    \<not> g_created g \<and> g_buf g = Some 0"
proof -
  have a: "0 < a_size demo_args" "a_name demo_args \<noteq> []" "CHR ''/'' \<notin> set (a_name demo_args)"
    "os_shm os_demo (posix_of demo_args) = Some 0" "a_size demo_args \<le> int (length (os_ino os_demo 0))"
    by (simp_all add: demo_args_good os_demo_def os_empty_def)
  from gsm_init_attaches_segment [OF a(1-3) demo_args_good(2) a(4,5), of None 7] show ?thesis by blast
qed

text \<open>
  A segment that is too small is never mapped: after all attempts the constructor raises
  \<open>RuntimeError\<close>, and it leaves no descriptor open and every segment as it was. A missing
  segment makes an \<open>attach_only\<close> call raise \<open>NoShmFoundError\<close> at its first
  attempt.
\<close>

theorem gsm_init_failures:
  assumes "0 < a_size a" and "a_name a \<noteq> []" and "CHR ''/'' \<notin> set (a_name a)" and "os_wf s"
  shows "(\<forall>ino. os_shm s (CHR ''/'' # a_name a) = Some ino \<and> int (length (os_ino s ino)) < a_size a \<longrightarrow>
      (\<exists>s'. GuardedSharedMemory_init environ pid a quiet_init s = (Inl RuntimeError, s') \<and>
        os_fds s' = os_fds s \<and> os_shm s' = os_shm s \<and> os_ino s' = os_ino s)) \<and>
    (os_shm s (CHR ''/'' # a_name a) = None \<and> a_attach_only a \<and> 1 \<le> a_max_attempts a \<longrightarrow>
      (\<exists>s'. GuardedSharedMemory_init environ pid a quiet_init s = (Inl NoShmFoundError, s') \<and>
        os_fds s' = os_fds s \<and> os_shm s' = os_shm s \<and> os_ino s' = os_ino s))"
proof -
  have g: "good_args a" using assms(1-3) by (simp add: good_args_def)
  have "\<exists>s'. GuardedSharedMemory_init environ pid a quiet_init s = (Inl NoShmFoundError, s') \<and>
      os_fds s' = os_fds s \<and> os_shm s' = os_shm s \<and> os_ino s' = os_ino s"
    if "os_shm s (posix_of a) = None" "a_attach_only a" "1 \<le> a_max_attempts a"
    using g that init_absent by simp
  then show ?thesis using init_too_small [OF g _ _ assms(4), of _ environ pid] by auto
qed

theorem gsm_init_failures_witness:
  "\<exists>s'. GuardedSharedMemory_init None 7 (demo_args\<lparr>a_size := 4096\<rparr>) quiet_init os_demo =
     (Inl RuntimeError, s') \<and> os_fds s' = os_fds os_demo"
proof -
  let ?a = "demo_args\<lparr>a_size := 4096\<rparr>"
  have "0 < a_size ?a" "a_name ?a \<noteq> []" "CHR ''/'' \<notin> set (a_name ?a)"
    by (simp_all add: gsm_args_of_def)
  from gsm_init_failures [OF this os_demo_wf, THEN conjunct1, THEN spec, of 0 None 7] show ?thesis
    by (auto simp: os_demo_def gsm_args_of_def)
qed

text \<open>
  The last user removes the segment: when every PID file in the directory is the handle's own
  or belongs to a dead process, \<open>close\<close> unlinks the name, removes the PID directory, closes
  the descriptor, and the handle has no buffer any more.
\<close>

theorem gsm_close_last_user:
  assumes "\<not> g_closed g" and "\<not> g_unlinked g" and "g_fd g = Some fd"
    and "os_dirs s (g_pdir g) = Some fs"
    and "\<forall>fn \<in> set fs. fn = str_nat (g_pid g) \<or> isdigit fn \<and> \<not> alive (pid_of fn) s"
  shows "\<exists>g' s'. gsm_close quiet_close g s = (Inr (), g', s') \<and> g_closed g' \<and>
    gsm_buf g' = Inl ValueError \<and> os_shm s' = (os_shm s)(g_posix_name g := None) \<and>
    os_dirs s' = (os_dirs s)(g_pdir g := None) \<and> os_fds s' = (os_fds s)(fd := None) \<and>
    os_ino s' = os_ino s"
proof -
  have "\<not> others_alive g fs s" using assms(5) by (auto simp: others_alive_def)
  moreover have "live_files g fs s = []"
    using assms(5) by (auto simp: live_files_def removeAll_filter_not_eq filter_empty_conv)
  ultimately show ?thesis
    using close_last [OF assms(1,2,4)] assms(3)
    by (simp add: closed_handle_def unregister_atexit_def gsm_buf_def without_fd_def os_close_def
        os_rmdir_def)
qed

theorem gsm_close_last_user_witness:
  "\<exists>g' s'. gsm_close quiet_close (handle_of None 7 demo_args 3 0 64 True)
      (os_demo\<lparr>os_dirs := (\<lambda>d. Some [str_nat 7])\<rparr>) = (Inr (), g', s') \<and>
    os_shm s' ''/demo'' = None \<and> g_closed g'"
proof -
  let ?g = "handle_of None 7 demo_args 3 0 64 True" and ?s = "os_demo\<lparr>os_dirs := (\<lambda>d. Some [str_nat 7])\<rparr>"
  have "\<not> g_closed ?g" "\<not> g_unlinked ?g" "g_fd ?g = Some 3" "os_dirs ?s (g_pdir ?g) = Some [str_nat 7]"
    "\<forall>fn \<in> set [str_nat 7]. fn = str_nat (g_pid ?g) \<or> isdigit fn \<and> \<not> alive (pid_of fn) ?s"
    by (simp_all add: handle_of_def)
  from gsm_close_last_user [OF this] show ?thesis by (auto simp: handle_of_def demo_args_good)
qed

text \<open>
  A segment in use survives: when another live process has a PID file, \<open>close\<close> keeps the
  name and the contents of every segment and that PID file, and removes its own PID file, those of
  dead processes, and its descriptor.
\<close>

theorem gsm_close_keeps_shared:
  assumes "\<not> g_closed g" and "g_fd g = Some fd" and "os_dirs s (g_pdir g) = Some fs"
    and "str_nat q \<in> set fs" and "q \<noteq> g_pid g" and "alive (int q) s"
  shows "\<exists>g' s' fs'. gsm_close quiet_close g s = (Inr (), g', s') \<and> g_closed g' \<and>
    os_shm s' = os_shm s \<and> os_ino s' = os_ino s \<and> os_fds s' = (os_fds s)(fd := None) \<and>
    os_dirs s' = (os_dirs s)(g_pdir g \<mapsto> fs') \<and> str_nat q \<in> set fs' \<and>
    str_nat (g_pid g) \<notin> set fs' \<and>
    (\<forall>fn \<in> set fs'. fn \<in> set fs \<and> (isdigit fn \<longrightarrow> alive (pid_of fn) s))"
proof -
  have "others_alive g fs s" using assms(4-6) by (force simp: others_alive_def)
  note close = close_shared [OF assms(1,3) this]
  let ?fs = "live_files g fs s"
  have "str_nat q \<in> set ?fs" "str_nat (g_pid g) \<notin> set ?fs"
    "\<forall>fn \<in> set ?fs. fn \<in> set fs \<and> (isdigit fn \<longrightarrow> alive (pid_of fn) s)"
    using assms(4-6) by (auto simp: live_files_def str_nat_inj)
  with assms(2) show ?thesis
    by (intro exI [of _ "closed_handle g"] exI [of _ ?fs]
          exI [of _ "without_fd g (s\<lparr>os_dirs := (os_dirs s)(g_pdir g \<mapsto> ?fs)\<rparr>)"])
      (simp add: close closed_handle_def unregister_atexit_def without_fd_def os_close_def)
qed

theorem gsm_close_keeps_shared_witness:
  "\<exists>g' s'. gsm_close quiet_close (handle_of None 7 demo_args 3 0 64 True)
      (os_demo\<lparr>os_dirs := (\<lambda>d. Some [str_nat 7, str_nat 8])\<rparr>) = (Inr (), g', s') \<and>
    os_shm s' ''/demo'' = Some 0"
proof -
  let ?g = "handle_of None 7 demo_args 3 0 64 True"
  let ?s = "os_demo\<lparr>os_dirs := (\<lambda>d. Some [str_nat 7, str_nat 8])\<rparr>"
  have "\<not> g_closed ?g" "g_fd ?g = Some 3" "os_dirs ?s (g_pdir ?g) = Some [str_nat 7, str_nat 8]"
    "str_nat 8 \<in> set [str_nat 7, str_nat 8]" "8 \<noteq> g_pid ?g" "alive (int 8) ?s"
    by (simp_all add: handle_of_def alive_def os_demo_def os_empty_def)
  from gsm_close_keeps_shared [OF this] show ?thesis by (auto simp: os_demo_def)
qed

text \<open>
  C14. Create and close are inverse: creating a segment and closing the handle restores the names
  of segments, the PID directories and the open descriptors.
\<close>

theorem gsm_create_close_roundtrip:
  assumes "os_wf s" and "0 < a_size a" and "a_name a \<noteq> []" and "CHR ''/'' \<notin> set (a_name a)"
    and "1 \<le> a_max_attempts a" and "\<not> a_attach_only a" and "os_shm s (CHR ''/'' # a_name a) = None"
    and "os_dirs s (pdir_of environ (a_pid_dir a) (a_name a)) = None"
  shows "\<exists>g s1 g' s2. GuardedSharedMemory_init environ pid a quiet_init s = (Inr g, s1) \<and>
    gsm_close quiet_close g s1 = (Inr (), g', s2) \<and>
    os_shm s2 = os_shm s \<and> os_dirs s2 = os_dirs s \<and> os_fds s2 = os_fds s"
proof -
  have "good_args a" using assms(2-4) by (simp add: good_args_def)
  note init = init_creates [OF this assms(5-7), of environ pid]
  let ?g = "handle_of environ pid a (os_next_fd s) (os_next_ino s) (a_size a) True"
  let ?s1 = "snd (GuardedSharedMemory_init environ pid a quiet_init s)"
  have "os_dirs ?s1 (g_pdir ?g) = Some [str_nat pid]" "g_pid ?g = pid"
    using assms(8) by (simp_all add: init handle_of_def add_pid_dirs)
  moreover have "\<not> others_alive ?g [str_nat pid] ?s1" "live_files ?g [str_nat pid] ?s1 = []"
    by (simp_all add: others_alive_def live_files_def handle_of_def)
  ultimately have "gsm_close quiet_close ?g ?s1 = (Inr (), closed_handle (?g\<lparr>g_unlinked := True\<rparr>),
     without_fd ?g (os_rmdir (g_pdir ?g) (?s1\<lparr>os_dirs := (os_dirs ?s1)(g_pdir ?g \<mapsto> []),
       os_shm := (os_shm ?s1)(g_posix_name ?g := None)\<rparr>)))"
    using close_last [of ?g ?s1 "[str_nat pid]"] by (simp add: handle_of_def)
  then show ?thesis
    using assms(7,8) os_wf_fresh_fd [OF assms(1)]
    by (simp add: init handle_of_def without_fd_def os_close_def os_rmdir_def add_pid_dirs
        fun_upd_idem)
qed

theorem gsm_create_close_roundtrip_witness:
  "\<exists>g s1 g' s2. GuardedSharedMemory_init None 7 demo_args quiet_init os_empty = (Inr g, s1) \<and>
    gsm_close quiet_close g s1 = (Inr (), g', s2) \<and> os_shm s2 = os_shm os_empty"
proof -
  have a: "0 < a_size demo_args" "a_name demo_args \<noteq> []" "CHR ''/'' \<notin> set (a_name demo_args)"
    "os_shm os_empty (posix_of demo_args) = None"
    "os_dirs os_empty (pdir_of None (a_pid_dir demo_args) (a_name demo_args)) = None"
    by (simp_all add: demo_args_good os_empty_def)
  from gsm_create_close_roundtrip [OF os_empty_wf a(1-3) demo_args_good(2,3) a(4,5), of 7]
  show ?thesis by blast
qed

text \<open>
  Closing is final and idempotent, whatever happens between its system calls: after a
  \<open>close\<close> that returned, the handle has no buffer, mapping or descriptor, the buffer property
  raises \<open>ValueError\<close>, and every further \<open>close\<close> changes neither the handle nor
  the system.
\<close>

theorem gsm_close_final:
  assumes "gsm_close ce g s = (Inr (), g', s')"
    and "g_closed g \<longrightarrow> g_buf g = None \<and> g_mmap g = None \<and> g_fd g = None"
  shows "g_closed g' \<and> g_buf g' = None \<and> g_mmap g' = None \<and> g_fd g' = None \<and>
    gsm_buf g' = Inl ValueError \<and> gsm_close ce' g' t = (Inr (), g', t)"
proof -
  have m: "detach_and_mark ex h x = (Inr (), g', s') \<Longrightarrow>
      g_closed g' \<and> g_buf g' = None \<and> g_mmap g' = None \<and> g_fd g' = None" for ex h x
    by (auto simp: detach_and_mark_def gsm_detach_def unregister_atexit_def split: if_splits)
  have "g_closed g' \<and> g_buf g' = None \<and> g_mmap g' = None \<and> g_fd g' = None"
    using assms by (auto simp: gsm_close_def Let_def split: if_splits prod.splits sum.splits dest: m)
  then show ?thesis by (simp add: gsm_buf_def gsm_close_def)
qed

theorem gsm_close_final_witness:
  "\<exists>g' s'. gsm_close quiet_close (handle_of None 7 demo_args 3 0 64 True) os_demo = (Inr (), g', s') \<and>
    gsm_close quiet_close g' s' = (Inr (), g', s')"
proof -
  let ?g = "handle_of None 7 demo_args 3 0 64 True"
  obtain g' s' where "gsm_close quiet_close ?g os_demo = (Inr (), g', s')"
    by (simp add: close_defs handle_of_def os_demo_def os_empty_def)
  moreover have "g_closed ?g \<longrightarrow> g_buf ?g = None \<and> g_mmap ?g = None \<and> g_fd ?g = None"
    by (simp add: handle_of_def)
  ultimately show ?thesis using gsm_close_final [of quiet_close ?g os_demo g' s' quiet_close s'] by blast
qed

text \<open>
  The state invariant: segment numbers and descriptors stay below the next free ones and PID
  directories list no file twice. The constructor and \<open>close\<close> keep it, for every
  interference that does.
\<close>

theorem gsm_keeps_os_invariant:
  assumes "os_wf s" and "init_keeps_wf ie" and "close_keeps_wf ce"
  shows "os_wf (snd (GuardedSharedMemory_init environ pid a ie s)) \<and> os_wf (snd (snd (gsm_close ce g s)))"
  using gsm_init_wf [OF assms(2,1)] gsm_close_wf [OF assms(3,1)] by (metis surjective_pairing)

theorem gsm_keeps_os_invariant_witness:
  "os_wf (snd (GuardedSharedMemory_init None 7 demo_args quiet_init os_demo))"
  using gsm_keeps_os_invariant [OF os_demo_wf quiet_keeps_wf] by blast

text \<open>
  C32. A segment is removed under a process that has just attached: when another process runs its
  whole constructor after \<open>close\<close> has found no other live process and before it unlinks, the
  constructor succeeds and registers its PID, and \<open>close\<close> still removes the name. The segment
  of the other process can then not be found by anybody.
\<close>

theorem gsm_close_attach_race:
  assumes "\<not> g_closed g" and "\<not> g_unlinked g" and "os_dirs s (g_pdir g) = Some [str_nat (g_pid g)]"
    and "good_args a" and "1 \<le> a_max_attempts a" and "g_posix_name g = CHR ''/'' # a_name a"
    and "g_pdir g = pdir_of environ (a_pid_dir a) (a_name a)"
    and "os_shm s (g_posix_name g) = Some ino" and "a_size a \<le> int (length (os_ino s ino))"
  shows "\<exists>h g' s1 s2. let other = GuardedSharedMemory_init environ q a quiet_init in
    other (s\<lparr>os_dirs := (os_dirs s)(g_pdir g \<mapsto> [])\<rparr>) = (Inr h, s1) \<and> g_buf h = Some ino \<and>
    gsm_close (quiet_close\<lparr>c_unlink := (\<lambda>x. snd (other x))\<rparr>) g s = (Inr (), g', s2) \<and>
    os_dirs s2 (g_pdir g) = Some [str_nat q] \<and> os_shm s2 (g_posix_name g) = None"
proof -
  let ?s = "s\<lparr>os_dirs := (os_dirs s)(g_pdir g \<mapsto> [])\<rparr>"
  have "os_shm ?s (posix_of a) = Some ino" "a_size a \<le> int (length (os_ino ?s ino))"
    using assms(6,8,9) by simp_all
  note init = init_attaches [OF assms(4,5) this, of environ q]
  then obtain h s1 where i: "GuardedSharedMemory_init environ q a quiet_init ?s = (Inr h, s1)" by blast
  have h: "g_buf h = Some ino" "os_dirs s1 (g_pdir g) = Some [str_nat q]"
    using i init assms(7) by (auto simp: handle_of_def add_pid_dirs)
  have f: "live_files g [str_nat (g_pid g)] s = []" by (simp add: live_files_def)
  have "remove_pid_file None g (cleanup_dead_pids g s) = (Inr (), ?s)"
    using close_prefix [OF assms(3)] f by simp
  moreover have "\<not> has_other_alive_pids g ?s" by (simp add: has_other_alive_pids_def)
  ultimately have "\<exists>g' s2. gsm_close (quiet_close\<lparr>c_unlink :=
        (\<lambda>x. snd (GuardedSharedMemory_init environ q a quiet_init x))\<rparr>) g s = (Inr (), g', s2) \<and>
      os_dirs s2 (g_pdir g) = Some [str_nat q] \<and> os_shm s2 (g_posix_name g) = None"
    using assms(1,2) h(2)
    by (simp add: gsm_close_def quiet_close_def Let_def i gsm_unlink_def shm_unlink_wrapped_def
        detach_and_mark_ok without_fd_def os_rmdir_def os_close_def split: option.splits)
  with i h(1) show ?thesis unfolding Let_def by blast
qed

theorem gsm_close_attach_race_witness:
  "\<exists>g' s2. gsm_close (quiet_close\<lparr>c_unlink :=
        (\<lambda>x. snd (GuardedSharedMemory_init None 8 demo_args quiet_init x))\<rparr>)
      (handle_of None 7 demo_args 3 0 64 True) (os_demo\<lparr>os_dirs := (\<lambda>d. Some [str_nat 7])\<rparr>) =
        (Inr (), g', s2) \<and> os_shm s2 ''/demo'' = None"
proof -
  let ?g = "handle_of None 7 demo_args 3 0 64 True" and ?s = "os_demo\<lparr>os_dirs := (\<lambda>d. Some [str_nat 7])\<rparr>"
  have "\<not> g_closed ?g" "\<not> g_unlinked ?g" "os_dirs ?s (g_pdir ?g) = Some [str_nat (g_pid ?g)]"
    and "g_posix_name ?g = posix_of demo_args"
    "g_pdir ?g = pdir_of None (a_pid_dir demo_args) (a_name demo_args)"
    "os_shm ?s (g_posix_name ?g) = Some 0" "a_size demo_args \<le> int (length (os_ino ?s 0))"
    by (simp_all add: handle_of_def os_demo_def demo_args_good)
  from gsm_close_attach_race [OF this(1-3) demo_args_good(1,2) this(4-7), of 8] show ?thesis
    by (auto simp: Let_def handle_of_def demo_args_good)
qed

text \<open>
  The PID file counts processes, not handles: with two handles on one segment in the same
  process, closing the first unlinks the segment while the second is still open on it.
\<close>

theorem gsm_two_handles_one_process:
  assumes "os_shm s (CHR ''/'' # a_name a) = None" and "good_args a" and "1 \<le> a_max_attempts a"
    and "\<not> a_attach_only a" and "os_dirs s (pdir_of environ (a_pid_dir a) (a_name a)) = None"
  shows "\<exists>g h g' s1 s2 s3. GuardedSharedMemory_init environ pid a quiet_init s = (Inr g, s1) \<and>
    GuardedSharedMemory_init environ pid a quiet_init s1 = (Inr h, s2) \<and> g_buf h = g_buf g \<and>
    gsm_close quiet_close g s2 = (Inr (), g', s3) \<and> \<not> g_closed h \<and>
    os_shm s3 (g_posix_name h) = None"
proof -
  note init = init_creates [OF assms(2-4,1), of environ pid]
  let ?g = "handle_of environ pid a (os_next_fd s) (os_next_ino s) (a_size a) True"
  let ?s1 = "snd (GuardedSharedMemory_init environ pid a quiet_init s)"
  have "os_shm ?s1 (posix_of a) = Some (os_next_ino s)"
    "a_size a \<le> int (length (os_ino ?s1 (os_next_ino s)))"
    using assms(2) by (simp_all add: init good_args_def)
  note init2 = init_attaches [OF assms(2,3) this, of environ pid]
  let ?s2 = "snd (GuardedSharedMemory_init environ pid a quiet_init ?s1)"
  have d: "os_dirs ?s2 (g_pdir ?g) = Some [str_nat pid]"
    using assms(5) by (simp add: init2) (simp add: init handle_of_def add_pid_dirs)
  have "\<not> others_alive ?g [str_nat pid] ?s2" by (simp add: others_alive_def handle_of_def)
  note close = close_last [OF _ _ d this]
  have "\<exists>g' s3. gsm_close quiet_close ?g ?s2 = (Inr (), g', s3) \<and> os_shm s3 (posix_of a) = None"
    using close by (simp add: handle_of_def without_fd_def os_close_def os_rmdir_def)
  then show ?thesis using init init2 by (simp add: handle_of_def)
qed

theorem gsm_two_handles_one_process_witness:
  "\<exists>g s1. GuardedSharedMemory_init None 7 demo_args quiet_init os_empty = (Inr g, s1) \<and>
    (\<exists>h s2 g' s3. GuardedSharedMemory_init None 7 demo_args quiet_init s1 = (Inr h, s2) \<and>
      gsm_close quiet_close g s2 = (Inr (), g', s3) \<and> os_shm s3 (g_posix_name h) = None)"
proof -
  have a: "os_shm os_empty (posix_of demo_args) = None"
    "os_dirs os_empty (pdir_of None (a_pid_dir demo_args) (a_name demo_args)) = None"
    by (simp_all add: os_empty_def)
  from gsm_two_handles_one_process [OF a(1) demo_args_good(1-3) a(2), of 7] show ?thesis by blast
qed

text \<open>The run of a constructor whose first \<open>ftruncate\<close> fails.\<close>

abbreviation failing_ftruncate :: "nat \<Rightarrow> init_env" where
  "failing_ftruncate e \<equiv> quiet_init\<lparr>ie_attempt := (\<lambda>i. if i = 0 then quiet_attempt\<lparr>f_ftruncate := Some e\<rparr> else quiet_attempt)\<rparr>"

lemma ftruncate_fails:
  fixes environ :: "string option"
  assumes "os_wf s" and "os_shm s (posix_of a) = None" and "good_args a" and "1 \<le> a_max_attempts a" and "\<not> a_attach_only a"
  defines "s' \<equiv> (os_makedirs (pdir_of environ (a_pid_dir a) (a_name a)) s)
      \<lparr>os_shm := (os_shm s)(posix_of a \<mapsto> os_next_ino s), os_ino := (os_ino s)(os_next_ino s := []),
       os_next_ino := Suc (os_next_ino s), os_next_fd := os_next_fd s + nat (a_max_attempts a)\<rparr>"
  shows "GuardedSharedMemory_init environ pid a (failing_ftruncate e) s = (Inl RuntimeError, s') \<and>
    gsm_left_behind environ pid a (failing_ftruncate e) s = Some (gsm_half_built environ pid a) \<and>
    os_wf s' \<and> poisoned (posix_of a) s'"
proof -
  let ?env = "\<lambda>i :: nat. if i = 0 then quiet_attempt\<lparr>f_ftruncate := Some e\<rparr> else quiet_attempt"
  let ?d = "pdir_of environ (a_pid_dir a) (a_name a)" and ?nm = "posix_of a"
  let ?s1 = "(os_makedirs ?d s)\<lparr>os_shm := (os_shm s)(?nm \<mapsto> os_next_ino s),
     os_ino := (os_ino s)(os_next_ino s := []), os_next_ino := Suc (os_next_ino s),
     os_next_fd := Suc (os_next_fd s)\<rparr>"
  obtain n where n: "nat (a_max_attempts a) = Suc n" using assms(4) by (cases "nat (a_max_attempts a)") auto
  have "gsm_attempt ?nm (a_size a) False (?env 0) (os_makedirs ?d s) = (Retry, ?s1)"
    using assms(2) os_wf_fresh_fd [OF assms(1)] by (simp add: attempt_defs Let_def fun_upd_idem)
  moreover have w: "os_wf ?s1"
    using makedirs.act_wf [OF assms(1), of ?d] by (auto simp: os_wf_def less_Suc_eq)
  moreover have "os_shm ?s1 ?nm = Some (os_next_ino s)" "int (length (os_ino ?s1 (os_next_ino s))) < a_size a"
    using assms(3) by (simp_all add: good_args_def)
  note loop_too_small [OF this w, of 1 ?env False n]
  ultimately have loop: "gsm_loop ?nm (a_size a) False ?env 0 (nat (a_max_attempts a)) (os_makedirs ?d s) = (Inl RuntimeError, s')"
    using n by (simp add: s'_def)
  have "os_wf s'" using os_wf_next_fd [OF w, of "os_next_fd s + nat (a_max_attempts a)"] n by (simp add: s'_def)
  with loop assms(3,5) show ?thesis
    by (simp add: GuardedSharedMemory_init_def gsm_left_behind_def good_args_def quiet_init_def poisoned_def s'_def Let_def
        del: gsm_loop.simps)
qed

text \<open>
  C35. When \<open>ftruncate\<close> of a new segment fails (no space, for example), no attempt of the constructor recovers: the
  name stays linked to a segment of size 0, because \<open>created\<close> is only set after the \<open>ftruncate\<close>, and the
  call raises \<open>RuntimeError\<close>. What is left depends on the finaliser of the half-built object: with the cleanup flag
  and without another live process in the PID directory it unlinks the name; without the flag, which is how
  \<open>NamedHistoryBuffer.create\<close> calls it, or with another live process, the name stays poisoned. From
  then on every constructor for the name with valid arguments that nobody interferes with raises
  \<open>RuntimeError\<close>, whatever size it asks for, and leaves the name poisoned unless its own finaliser unlinks it
  in the same way.
\<close>

theorem gsm_ftruncate_failure_poisons:
  assumes "os_wf s" and "os_shm s (CHR ''/'' # a_name a) = None" and "good_args a"
    and "1 \<le> a_max_attempts a" and "\<not> a_attach_only a"
  defines "nm \<equiv> CHR ''/'' # a_name a"
  shows "(\<exists>s1. GuardedSharedMemory_init environ pid a (failing_ftruncate e) s = (Inl RuntimeError, s1) \<and> poisoned nm s1) \<and>
    (\<exists>s2. GuardedSharedMemory_new environ pid a (failing_ftruncate e) s = (Inl RuntimeError, s2) \<and> os_wf s2 \<and>
      (if last_alive (gsm_half_built environ pid a) s then os_shm s2 nm = None else poisoned nm s2)) \<and>
    (\<forall>environ' pid' b s'. good_args b \<and> a_name b = a_name a \<and> os_wf s' \<and> poisoned nm s' \<longrightarrow>
      (\<exists>s''. GuardedSharedMemory_new environ' pid' b quiet_init s' = (Inl RuntimeError, s'') \<and> os_wf s'' \<and>
        (if last_alive (gsm_half_built environ' pid' b) s' then os_shm s'' nm = None else poisoned nm s'')))"
proof -
  let ?h = "gsm_half_built environ pid a" and ?d = "pdir_of environ (a_pid_dir a) (a_name a)"
  obtain s1 where s1: "GuardedSharedMemory_init environ pid a (failing_ftruncate e) s = (Inl RuntimeError, s1)"
    "gsm_left_behind environ pid a (failing_ftruncate e) s = Some ?h" "os_wf s1" "poisoned nm s1"
    "os_dirs s1 = os_dirs (os_makedirs ?d s)" "os_kill s1 = os_kill s"
    using ftruncate_fails [OF assms(1-5), of environ pid e] by (auto simp: nm_def)
  obtain fs where fs: "os_dirs s1 (g_pdir ?h) = Some fs" using half_built_dir [of environ a s pid] s1(5) by auto
  have nm: "g_posix_name ?h = nm" by (simp add: nm_def gsm_half_built_def)
  have "if last_alive ?h s then os_shm (finalised ?h s1) nm = None else poisoned nm (finalised ?h s1)"
    using finalised_poisoned [OF s1(4) nm fs s1(6,5)] .
  moreover have "GuardedSharedMemory_new environ pid a (failing_ftruncate e) s = (Inl RuntimeError, finalised ?h s1)"
    using s1(1,2) gsm_del_half_built [OF fs] by (simp add: GuardedSharedMemory_new_def quiet_init_def)
  ultimately show ?thesis
    using s1 finalised_wf new_poisoned unfolding nm_def by (intro conjI) (blast, blast, metis)
qed

theorem gsm_ftruncate_failure_poisons_witness:
  "\<exists>s1 s2. GuardedSharedMemory_new None 7 (demo_args\<lparr>a_try_cleanup := False\<rparr>) (failing_ftruncate 28) os_empty =
      (Inl RuntimeError, s1) \<and> poisoned ''/demo'' s1 \<and>
    GuardedSharedMemory_new None 9 demo_args quiet_init s1 = (Inl RuntimeError, s2)"
proof -
  let ?a = "demo_args\<lparr>a_try_cleanup := False\<rparr>"
  have a: "os_shm os_empty (CHR ''/'' # a_name ?a) = None" "good_args ?a" "1 \<le> a_max_attempts ?a" "\<not> a_attach_only ?a"
    "a_name ?a = ''demo''" using demo_args_good by (simp_all add: os_empty_def good_args_def)
  note gen = gsm_ftruncate_failure_poisons [OF os_empty_wf a(1-4)]
  have "\<not> last_alive (gsm_half_built None 7 ?a) os_empty" by (simp add: last_alive_def gsm_half_built_def)
  with gen [of None 7 28, THEN conjunct2, THEN conjunct1] a(5) obtain s1 where
    s1: "GuardedSharedMemory_new None 7 ?a (failing_ftruncate 28) os_empty = (Inl RuntimeError, s1)"
      "os_wf s1" "poisoned ''/demo'' s1" by auto
  with gen [THEN conjunct2, THEN conjunct2, rule_format, of demo_args s1 None 9] a(5) demo_args_good show ?thesis by auto
qed

text \<open>
  C24. A constructor that fails can destroy a segment in use, even one of its own process: a process creates a segment
  that nobody else uses, then asks for the same name with a larger size and the cleanup flag, and gets
  \<open>RuntimeError\<close>. The finaliser of the half-built object removes the PID file that stands for the open handle,
  finds no other live process, unlinks the name and removes the PID directory while the handle is open. The handle
  keeps its mapping, but the next constructor for the name, of any process, gets another segment.
\<close>

theorem gsm_failed_constructor_unlinks_live_segment:
  assumes "os_wf s" and "os_shm s (CHR ''/'' # a_name a) = None" and "good_args a" and "1 \<le> a_max_attempts a"
    and "\<not> a_attach_only a" and "os_dirs s (pdir_of environ (a_pid_dir a) (a_name a)) = None"
    and "a_try_cleanup a" and "a_size a < n"
  shows "\<exists>g ino s1 s2 h s3. GuardedSharedMemory_new environ pid a quiet_init s = (Inr g, s1) \<and>
    GuardedSharedMemory_new environ pid (a\<lparr>a_size := n\<rparr>) quiet_init s1 = (Inl RuntimeError, s2) \<and>
    gsm_buf g = Inr ino \<and> \<not> g_closed g \<and> os_fds s2 (the (g_fd g)) = Some ino \<and>
    os_shm s2 (g_posix_name g) = None \<and> os_dirs s2 (g_pdir g) = None \<and>
    GuardedSharedMemory_new environ q a quiet_init s2 = (Inr h, s3) \<and> gsm_buf h \<noteq> gsm_buf g"
proof -
  let ?d = "pdir_of environ (a_pid_dir a) (a_name a)" and ?b = "a\<lparr>a_size := n\<rparr>"
  let ?g = "handle_of environ pid a (os_next_fd s) (os_next_ino s) (a_size a) True"
  obtain s1 where s1: "GuardedSharedMemory_init environ pid a quiet_init s = (Inr ?g, s1)"
    "os_shm s1 (posix_of a) = Some (os_next_ino s)" "length (os_ino s1 (os_next_ino s)) = nat (a_size a)"
    "os_dirs s1 ?d = Some [str_nat pid]" "os_fds s1 (os_next_fd s) = Some (os_next_ino s)"
    "os_next_ino s1 = Suc (os_next_ino s)"
    using init_creates [OF assms(3-5,2), of environ pid] assms(6) by (simp add: add_pid_dirs)
  have wf: "os_wf s1" using gsm_init_wf [OF quiet_keeps_wf(1) assms(1) s1(1)] .
  let ?h = "gsm_half_built environ pid ?b"
  let ?o = "(os_makedirs ?d s1)\<lparr>os_next_fd := os_next_fd s1 + nat (a_max_attempts a)\<rparr>"
  have b: "good_args ?b" "int (length (os_ino s1 (os_next_ino s))) < a_size ?b"
    using assms(3,8) s1(3) by (simp_all add: good_args_def)
  have new: "GuardedSharedMemory_new environ pid ?b quiet_init s1 = (Inl RuntimeError, finalised ?h ?o)"
    using new_too_small [OF b(1) _ b(2) wf, of environ pid] s1(2) by simp
  have dir: "os_dirs ?o (g_pdir ?h) = Some [str_nat pid]" "os_dirs (os_makedirs ?d s1) = os_dirs s1"
    using s1(4) by (simp_all add: os_makedirs_def gsm_half_built_def)
  have alone: "\<not> others_alive ?h [str_nat pid] ?o" "live_files ?h [str_nat pid] ?o = []" "g_try_cleanup ?h"
    "g_pdir ?h = ?d" "g_posix_name ?h = posix_of a"
    using assms(7) by (simp_all add: others_alive_def live_files_def gsm_half_built_def)
  let ?s2 = "finalised ?h ?o"
  have gone: "os_shm ?s2 (posix_of a) = None" "os_dirs ?s2 ?d = None"
    using dir alone by (simp_all add: finalised_def os_rmdir_def Let_def)
  from init_creates [OF assms(3-5) gone(1), of environ q] obtain h s3 where
    h: "GuardedSharedMemory_init environ q a quiet_init ?s2 = (Inr h, s3)" "g_buf h = Some (Suc (os_next_ino s))"
    using s1(6) by (auto simp: handle_of_def)
  show ?thesis
    using new_of_init [OF s1(1)] new gone s1(5) new_of_init [OF h(1)] h(2)
    by (intro exI [of _ ?g] exI [of _ "os_next_ino s"] exI [of _ s1] exI [of _ ?s2] exI [of _ h] exI [of _ s3])
      (simp add: handle_of_def gsm_buf_def)
qed

theorem gsm_failed_constructor_unlinks_live_segment_witness:
  "\<exists>g s1 s2. GuardedSharedMemory_new None 7 demo_args quiet_init os_empty = (Inr g, s1) \<and>
    GuardedSharedMemory_new None 7 (demo_args\<lparr>a_size := 4096\<rparr>) quiet_init s1 = (Inl RuntimeError, s2) \<and>
    os_shm s2 (g_posix_name g) = None"
proof -
  have a: "os_shm os_empty (posix_of demo_args) = None"
    "os_dirs os_empty (pdir_of None (a_pid_dir demo_args) (a_name demo_args)) = None"
    "a_try_cleanup demo_args" "a_size demo_args < 4096"
    by (simp_all add: os_empty_def gsm_args_of_def)
  from gsm_failed_constructor_unlinks_live_segment [OF os_empty_wf a(1) demo_args_good(1-3) a(2-4), of 7 8] show ?thesis
    by blast
qed

end
