(* ===== verification/Event_Safety.thy ===== *)
theory Event_Safety
  imports Event Semaphore_Safety Gsm_Safety
begin

text \<open>
  Properties of named events: no waiter sleeps on a set event unless its wake-up is on the way,
  what the methods return, and the constructor.
\<close>

section \<open>No wake-up is lost\<close>

definition ev_inv :: "nat \<Rightarrow> ev_sys \<Rightarrow> bool" where
  "ev_inv n s \<longleftrightarrow> distinct (es_queue s) \<and>
     (\<forall>t \<in> set (es_queue s). t < n \<and> (\<exists>x. es_pc s t = ESleep x)) \<and>
     (es_queue s = [] \<or> es_word s = 0 \<or> (\<exists>t. es_pc s t = ESetWake))"

lemmas ev_state_defs = with_ev_def ev_mem.truncate_def

lemma ev_wait_return_no_wake: "ev_wait_return x r \<noteq> ESetWake"
  by (simp add: ev_wait_return_def split: option.splits sum.splits)

lemma ev_step_result:
  assumes "ev_pc_step wk env t pc m = Some (pc', m')" and "wk INT_MAX (es_queue m) = []"
  shows "es_queue m' = [] \<or>
    es_queue m' = es_queue m \<and> (\<forall>x. pc = ESleep x \<longrightarrow> t \<notin> set (es_queue m)) \<and>
       (es_word m' = es_word m \<and> pc \<noteq> ESetWake \<or> es_word m' = 0 \<or> pc' = ESetWake) \<or>
    es_word m' = 0 \<and> es_queue m' = es_queue m @ [t] \<and> (\<exists>x. pc = EWait x \<and> pc' = ESleep x) \<or>
    es_word m' = es_word m \<and> es_queue m' = remove1 t (es_queue m) \<and> (\<exists>x. pc = ESleep x)"
  using assms by (cases pc) (auto simp: Let_def split: if_splits fut_event.splits)

context futex_kernel begin

lemma ev_inv_queue_bound: "ev_inv n s \<Longrightarrow> n \<le> INT_MAX \<Longrightarrow> wk INT_MAX (es_queue s) = []"
proof (rule wake_all)
  assume i: "ev_inv n s" "n \<le> INT_MAX"
  have "card (set (es_queue s)) \<le> card {..<n}" using i by (intro card_mono) (auto simp: ev_inv_def)
  then show "length (es_queue s) \<le> INT_MAX" using i by (simp add: ev_inv_def distinct_card)
qed

lemma ev_inv_act:
  assumes inv: "ev_inv n s" and n: "n \<le> INT_MAX" and t: "t < n"
    and st: "ev_pc_step wk env t (es_pc s t) (ev_mem.truncate s) = Some (pc', m')"
    and s': "s' = with_ev s t (pc', m')"
  shows "ev_inv n s'"
proof -
  have q: "es_queue (ev_mem.truncate s) = es_queue s" "es_word (ev_mem.truncate s) = es_word s"
    by (simp_all add: ev_mem.truncate_def)
  have i: "distinct (es_queue s)" "\<And>u. u \<in> set (es_queue s) \<Longrightarrow> u < n \<and> (\<exists>x. es_pc s u = ESleep x)"
    "es_queue s = [] \<or> es_word s = 0 \<or> (\<exists>u. es_pc s u = ESetWake)" using inv by (auto simp: ev_inv_def)
  have s'f: "es_queue s' = es_queue m'" "es_word s' = es_word m'"
    "\<And>u. es_pc s' u = (if u = t then pc' else es_pc s u)" by (simp_all add: s' with_ev_def)
  from ev_step_result [OF st] ev_inv_queue_bound [OF inv n] consider
      (empty) "es_queue m' = []"
    | (same) "es_queue m' = es_queue s" "\<forall>x. es_pc s t = ESleep x \<longrightarrow> t \<notin> set (es_queue s)"
        "es_word m' = es_word s \<and> es_pc s t \<noteq> ESetWake \<or> es_word m' = 0 \<or> pc' = ESetWake"
    | (sleep) x where "es_word m' = 0" "es_queue m' = es_queue s @ [t]" "es_pc s t = EWait x" "pc' = ESleep x"
    | (leave) x where "es_word m' = es_word s" "es_queue m' = remove1 t (es_queue s)" "es_pc s t = ESleep x"
    by (auto simp: q)
  then show ?thesis
  proof cases
    case empty
    then show ?thesis by (simp add: ev_inv_def s'f)
  next
    case same
    have "t \<notin> set (es_queue s)" using same(2) i(2) by blast
    then have "u < n \<and> (\<exists>x. es_pc s' u = ESleep x)" if "u \<in> set (es_queue s)" for u
      using i(2) [OF that] that s'f(3) [of u] by auto
    moreover have "es_queue s = [] \<or> es_word m' = 0 \<or> (\<exists>u. es_pc s' u = ESetWake)"
      using same(3) i(3) s'f(3) by metis
    ultimately show ?thesis using same(1) i(1) by (simp add: ev_inv_def s'f(1,2))
  next
    case sleep
    have "t \<notin> set (es_queue s)" using i(2) [of t] sleep(3) by auto
    then show ?thesis using sleep i(1,2) t by (auto simp: ev_inv_def s'f)
  next
    case leave
    have "u < n \<and> (\<exists>x. es_pc s' u = ESleep x)" if "u \<in> set (remove1 t (es_queue s))" for u
    proof -
      from that i(1) have "u \<in> set (es_queue s)" "u \<noteq> t" by (auto simp: set_remove1_eq)
      with i(2) s'f(3) [of u] show ?thesis by auto
    qed
    moreover have "remove1 t (es_queue s) = [] \<or> es_word s = 0 \<or> (\<exists>u. es_pc s' u = ESetWake)"
    proof -
      have "\<exists>u. es_pc s' u = ESetWake" if "es_pc s u = ESetWake" for u
        using that leave(3) s'f(3) [of u] by (intro exI [of _ u]) auto
      then show ?thesis using i(3) by auto
    qed
    ultimately show ?thesis using leave(1,2) i(1) by (simp add: ev_inv_def s'f(1,2))
  qed
qed

lemma ev_entry_not_sleep: "ev_entry c \<noteq> ESleep x"
  by (cases c) auto

lemma ev_inv_step:
  assumes inv: "ev_inv n s" and n: "n \<le> INT_MAX" and "ev_step n wk s s'"
  shows "ev_inv n s'"
proof -
  from assms(3) obtain e where t: "ev_thread e < n" and ex: "ev_exec wk e s = Some s'"
    by (auto elim: ev_step.cases)
  show ?thesis
  proof (cases e)
    case (EventCall t c)
    then obtain r where r: "es_pc s t = EOut r" and s': "s' = s\<lparr>es_pc := (es_pc s)(t := ev_entry c)\<rparr>"
      using ex by (auto split: ev_pc.splits)
    have "t \<notin> set (es_queue s)" using inv r by (auto simp: ev_inv_def)
    then have "es_pc s' u = es_pc s u" if "u \<in> set (es_queue s)" for u using that s' by auto
    moreover have "es_pc s' u = ESetWake" if "es_pc s u = ESetWake" for u using that r s' by auto
    moreover have "es_queue s' = es_queue s" "es_word s' = es_word s" using s' by simp_all
    ultimately show ?thesis using inv unfolding ev_inv_def by metis
  next
    case (EventStep t env)
    then obtain pc' m' where "ev_pc_step wk env t (es_pc s t) (ev_mem.truncate s) = Some (pc', m')"
      and "s' = with_ev s t (pc', m')" using ex by auto
    then show ?thesis using ev_inv_act [OF inv n] t EventStep by simp
  qed
qed

end

locale bounded_futex_kernel = futex_kernel +
  fixes n :: nat
  assumes threads_bound: "n \<le> INT_MAX"

sublocale bounded_futex_kernel \<subseteq> ev: inductive_invariant ev_init "ev_step n wk" "ev_inv n"
proof unfold_locales
  show "ev_inv n s" if "ev_init s" for s using that by (simp add: ev_init_def ev_inv_def)
  show "ev_inv n s'" if "ev_inv n s" and "ev_step n wk s s'" for s s'
    using that threads_bound by (blast intro: ev_inv_step)
qed

context bounded_futex_kernel begin

lemma ev_inv_reach: "reach ev_init (ev_step n wk) s \<Longrightarrow> ev_inv n s"
  by (rule ev.reach_inv)

end

interpretation fifo_two: bounded_futex_kernel fifo_wake 2
  by unfold_locales (simp add: INT_MAX_def)

section \<open>Runs\<close>

lemma ev_run_reach:
  "reach init (ev_step n wk) s \<Longrightarrow> list_all (\<lambda>e. ev_thread e < n) es \<Longrightarrow> ev_run wk es s = Some s' \<Longrightarrow>
    reach init (ev_step n wk) s'"
proof (induction es arbitrary: s)
  case (Cons e es)
  then obtain s1 where s1: "ev_exec wk e s = Some s1" "ev_run wk es s1 = Some s'"
    by (auto simp: bind_eq_Some_conv)
  moreover have "ev_step n wk s s1" using s1(1) Cons.prems(2) by (auto intro: ev_stepI)
  ultimately show ?case using Cons by (auto intro: reach.reach_step)
qed simp

definition ev_start :: "u32 \<Rightarrow> ev_sys" where
  "ev_start w = \<lparr>es_word = w, es_queue = [], es_pc = (\<lambda>t. EOut EvNone)\<rparr>"

lemma ev_start_reach: "reach ev_init (ev_step n wk) (ev_start w)"
  by (rule reach.reach_init) (simp add: ev_init_def ev_start_def)

lemmas ev_eval = ev_start_def with_ev_def ev_mem.truncate_def ev_wait_return_def calm_def

lemma ev_sleep_run:
  "\<exists>s. ev_run fifo_wake [EventCall 1 (CallEvWait (-1)), EventStep 1 calm] (ev_start 0) = Some s \<and> es_queue s = [1]"
  by (simp add: ev_eval)

section \<open>Properties\<close>

text \<open>
  C21. No wake-up of an event is lost: with fewer threads than a wake call can count, whatever
  they call and however they are scheduled, a thread that sleeps in \<open>wait\<close> sleeps on a cleared
  event, or a thread in \<open>set\<close> is about to wake all sleepers.
\<close>

theorem event_no_lost_wakeup:
  assumes "futex_kernel wk" and "n \<le> INT_MAX" and "reach ev_init (ev_step n wk) s"
    and "t \<in> set (es_queue s)"
  shows "es_word s = 0 \<or> (\<exists>u. es_pc s u = ESetWake)"
proof -
  have "bounded_futex_kernel wk n"
    using assms(1,2) by (simp add: bounded_futex_kernel_def bounded_futex_kernel_axioms_def)
  from bounded_futex_kernel.ev_inv_reach [OF this assms(3)] assms(4) show ?thesis
    by (auto simp: ev_inv_def)
qed

theorem event_no_lost_wakeup_witness:
  "\<exists>s :: ev_sys. es_queue s = [1] \<and> (es_word s = 0 \<or> (\<exists>u. es_pc s u = ESetWake))"
proof -
  obtain s where s: "ev_run fifo_wake [EventCall 1 (CallEvWait (-1)), EventStep 1 calm] (ev_start 0) = Some s"
    "es_queue s = [1]" using ev_sleep_run by blast
  have "reach ev_init (ev_step 2 fifo_wake) s" by (rule ev_run_reach [OF ev_start_reach _ s(1)]) simp
  from event_no_lost_wakeup [OF fifo.futex_kernel_axioms _ this, of 1] s(2) show ?thesis
    by (intro exI [of _ s]) (simp add: INT_MAX_def)
qed

text \<open>
  The methods of an event without interference: \<open>set\<close> makes the word 1 and wakes the
  sleepers, \<open>is_set\<close> then answers true and after \<open>clear\<close> false; a \<open>wait\<close> on a
  cleared event sleeps, and a \<open>wait\<close> on an event that is already set returns
  \<open>False\<close> at once.
\<close>

theorem event_methods:
  assumes "es_pc s t = EOut r"
  shows "ev_run wk [EventCall t CallSet, EventStep t e1, EventStep t e2] s =
      Some (s\<lparr>es_word := 1, es_queue := wk INT_MAX (es_queue s), es_pc := (es_pc s)(t := EOut EvNone)\<rparr>) \<and>
    ev_run wk [EventCall t CallClear, EventStep t e1] s =
      Some (s\<lparr>es_word := 0, es_pc := (es_pc s)(t := EOut EvNone)\<rparr>) \<and>
    ev_run wk [EventCall t CallIsSet, EventStep t e1] s =
      Some (s\<lparr>es_pc := (es_pc s)(t := EOut (EvBool (es_word s \<noteq> 0)))\<rparr>) \<and>
    ev_run wk [EventCall t (CallEvWait timeout_ns), EventStep t e1] s =
      Some (if es_word s = 0
        then s\<lparr>es_queue := es_queue s @ [t], es_pc := (es_pc s)(t := ESleep timeout_ns)\<rparr>
        else s\<lparr>es_pc := (es_pc s)(t := EOut (EvBool False))\<rparr>)"
  using assms by (simp add: ev_eval)

theorem event_methods_witness:
  "ev_run fifo_wake [EventCall 0 (CallEvWait (-1)), EventStep 0 calm] (ev_start 1) =
    Some ((ev_start 1)\<lparr>es_pc := (es_pc (ev_start 1))(0 := EOut (EvBool False))\<rparr>)"
proof -
  have "es_pc (ev_start 1) 0 = EOut EvNone" by (simp add: ev_start_def)
  from event_methods [OF this, of fifo_wake calm calm "-1"] show ?thesis
    by (simp add: ev_start_def del: ev_run.simps)
qed

end
