(* ===== verification/Mutex_Calls.thy ===== *)
theory Mutex_Calls
  imports Mutex
begin

text \<open>
  The mutex calls of one thread that nobody interferes with, on the bytes of the mapping, for the
  components that embed a mutex in their own segment. An acquisition gets the lock, is refused with
  \<open>RuntimeError\<close>, or goes to sleep, after it has marked the lock as contended; a thread that
  was woken runs the loop of the slow path again. The lemmas show that the byte-level calls are the runs
  of the machine of the mutex theory on the header record.
\<close>

datatype lock_attempt = Refused | Owned bytes | Sleeps bytes

definition store_owner :: "u32 \<Rightarrow> u64 \<Rightarrow> nat \<Rightarrow> bytes \<Rightarrow> bytes" where
  "store_owner pid now base mem =
     u64_store_rel_unaligned base MUTEX_OFF_LASTNS now (u32_store_rel base MUTEX_OFF_OWNER pid mem)"

definition mutex_acquire_slow :: "u32 \<Rightarrow> u64 \<Rightarrow> nat \<Rightarrow> bytes \<Rightarrow> lock_attempt" where
  \<comment> \<open>the body of the loop: exchange with 2, then sleep unless the lock was free\<close>
  "mutex_acquire_slow pid now base mem =
     (case u32_xchg_rel base MUTEX_OFF_STATE 2 mem of
        (c, mem1) \<Rightarrow> if c = 0 then Owned (store_owner pid now base mem1) else Sleeps mem1)"

definition mutex_acquire :: "u32 \<Rightarrow> u64 \<Rightarrow> nat \<Rightarrow> bytes \<Rightarrow> lock_attempt" where
  "mutex_acquire pid now base mem =
     (if u32_load_acq base MUTEX_OFF_OWNER mem = pid then Refused
      else case u32_cas_acqrel base MUTEX_OFF_STATE 0 1 mem of
             (True, mem1) \<Rightarrow> Owned (store_owner pid now base mem1)
           | (False, mem1) \<Rightarrow> mutex_acquire_slow pid now base mem1)"

definition mutex_release :: "u32 \<Rightarrow> nat \<Rightarrow> bytes \<Rightarrow> bytes res" where
  "mutex_release pid base mem =
     (if u32_load_acq base MUTEX_OFF_OWNER mem \<noteq> pid then Inl RuntimeError
      else case u32_xchg_rel base MUTEX_OFF_STATE 0 mem of
             (prev, mem1) \<Rightarrow> Inr (u32_store_rel base MUTEX_OFF_OWNER 0 mem1))"

definition mutex_force_release :: "nat \<Rightarrow> bytes \<Rightarrow> bytes" where
  "mutex_force_release base mem =
     (case u32_xchg_rel base MUTEX_OFF_STATE 0 mem of
        (prev, mem1) \<Rightarrow> u32_store_rel base MUTEX_OFF_OWNER 0 mem1)"

lemmas mutex_access_defs = store_owner_def u32_store_rel_def u32_load_acq_def u32_xchg_rel_def u32_cas_acqrel_def
  u64_store_rel_unaligned_def mutex_layout

lemma mutex_acquire_free:
  assumes "base + 64 \<le> length mem" and "mx_state (mutex64_at mem base) = 0"
    and "mx_owner (mutex64_at mem base) \<noteq> pid"
  shows "\<exists>mem'. mutex_acquire pid now base mem = Owned mem' \<and> length mem' = length mem \<and>
    mutex64_at mem' base = (mutex64_at mem base)\<lparr>mx_state := 1, mx_owner := pid, mx_last_ns := now\<rparr> \<and>
    (\<forall>c d. d \<le> base \<or> base + 64 \<le> c \<longrightarrow> pyslice mem' c d = pyslice mem c d)"
  using assms by (simp add: mutex_acquire_def mutex64_at_def mutex_access_defs buf_simps)

lemma mutex_acquire_held:
  assumes "base + 64 \<le> length mem" and "mx_state (mutex64_at mem base) \<noteq> 0"
    and "mx_owner (mutex64_at mem base) \<noteq> pid"
  shows "\<exists>mem'. mutex_acquire pid now base mem = Sleeps mem' \<and> length mem' = length mem \<and>
    mutex64_at mem' base = (mutex64_at mem base)\<lparr>mx_state := 2\<rparr> \<and>
    (\<forall>c d. d \<le> base \<or> base + 64 \<le> c \<longrightarrow> pyslice mem' c d = pyslice mem c d)"
  using assms by (simp add: mutex_acquire_def mutex_acquire_slow_def mutex64_at_def mutex_access_defs buf_simps)

lemma mutex_acquire_slow_free:
  assumes "base + 64 \<le> length mem" and "mx_state (mutex64_at mem base) = 0"
  shows "\<exists>mem'. mutex_acquire_slow pid now base mem = Owned mem' \<and> length mem' = length mem \<and>
    mutex64_at mem' base = (mutex64_at mem base)\<lparr>mx_state := 2, mx_owner := pid, mx_last_ns := now\<rparr> \<and>
    (\<forall>c d. d \<le> base \<or> base + 64 \<le> c \<longrightarrow> pyslice mem' c d = pyslice mem c d)"
  using assms by (simp add: mutex_acquire_slow_def mutex64_at_def mutex_access_defs buf_simps)

lemma mutex_release_owned:
  assumes "base + 64 \<le> length mem" and "mx_owner (mutex64_at mem base) = pid"
  shows "\<exists>mem'. mutex_release pid base mem = Inr mem' \<and> length mem' = length mem \<and>
    mutex64_at mem' base = (mutex64_at mem base)\<lparr>mx_state := 0, mx_owner := 0\<rparr> \<and>
    (\<forall>c d. d \<le> base \<or> base + 64 \<le> c \<longrightarrow> pyslice mem' c d = pyslice mem c d)"
  using assms by (simp add: mutex_release_def mutex64_at_def mutex_access_defs buf_simps)

lemma mutex_force_release_frees:
  assumes "base + 64 \<le> length mem"
  shows "length (mutex_force_release base mem) = length mem \<and>
    mutex64_at (mutex_force_release base mem) base = (mutex64_at mem base)\<lparr>mx_state := 0, mx_owner := 0\<rparr> \<and>
    (\<forall>c d. d \<le> base \<or> base + 64 \<le> c \<longrightarrow> pyslice (mutex_force_release base mem) c d = pyslice mem c d)"
  using assms by (simp add: mutex_force_release_def mutex64_at_def mutex_access_defs buf_simps)

lemma mutex64_at_slice:
  assumes "pyslice m base (base + 64) = pyslice m' base (base + 64)"
  shows "mutex64_at m base = mutex64_at m' base"
proof -
  have "pyslice m (base + a) (base + b) = pyslice m' (base + a) (base + b)" if "b \<le> 64" for a b
    using that slice_slice [of m base "base + 64" a b] slice_slice [of m' base "base + 64" a b] assms
    by (simp add: min_def)
  from this [of 4 0] this [of 8 4] this [of 12 8] this [of 16 12] this [of 24 16] show ?thesis
    by (simp add: mutex64_at_def mutex_layout u32_at_def u64_at_def add.assoc)
qed

text \<open>The machine of the mutex does to the header what these calls do.\<close>

lemma mutex_acquire_is_run:
  assumes "base + MUTEX64_SIZE \<le> length mem" and "ms_hdr s = mutex64_at mem base" and "ms_pc s t = Out r"
    and "env_now e = now"
  shows "case mutex_acquire (pid t) now base mem of
      Refused \<Rightarrow> \<exists>s'. mx_run wk pid [EvCall t (CallAcq Acquire), EvStep t e1] s = Some s' \<and>
        ms_hdr s' = ms_hdr s \<and> ms_pc s' t = Out RetRuntimeError
    | Owned mem' \<Rightarrow> \<exists>s'. mx_run wk pid [EvCall t (CallAcq Acquire), EvStep t e1, EvStep t e2, EvStep t e3, EvStep t e] s =
        Some s' \<and> ms_hdr s' = mutex64_at mem' base \<and> ms_pc s' t = Out RetTrue
    | Sleeps mem' \<Rightarrow> \<exists>s'. mx_run wk pid [EvCall t (CallAcq Acquire), EvStep t e1, EvStep t e2, EvStep t e3, EvStep t e] s =
        Some s' \<and> ms_hdr s' = mutex64_at mem' base \<and> ms_pc s' t = Acq Acquire ASleep"
proof -
  have l: "base + 64 \<le> length mem" using assms(1) by (simp add: MUTEX64_SIZE_def)
  have o: "u32_load_acq base MUTEX_OFF_OWNER mem = mx_owner (ms_hdr s)"
    by (simp add: assms(2) mutex64_at_def mutex_access_defs)
  consider "mx_owner (ms_hdr s) = pid t" | "mx_owner (ms_hdr s) \<noteq> pid t" "mx_state (ms_hdr s) = 0"
    | "mx_owner (ms_hdr s) \<noteq> pid t" "mx_state (ms_hdr s) \<noteq> 0" by blast
  then show ?thesis
  proof cases
    case 1
    then show ?thesis using assms(3) o
      by (simp add: mutex_acquire_def with_mem_def mx_mem.truncate_def)
  next
    case 2
    with mutex_acquire_free [OF l, of "pid t" now] assms(2) obtain mem' where
      "mutex_acquire (pid t) now base mem = Owned mem'"
      "mutex64_at mem' base = (ms_hdr s)\<lparr>mx_state := 1, mx_owner := pid t, mx_last_ns := now\<rparr>" by auto
    with 2 assms(3,4) show ?thesis by (simp add: cas_state_def win_def with_mem_def mx_mem.truncate_def)
  next
    case 3
    with mutex_acquire_held [OF l, of "pid t" now] assms(2) obtain mem' where
      "mutex_acquire (pid t) now base mem = Sleeps mem'" "mutex64_at mem' base = (ms_hdr s)\<lparr>mx_state := 2\<rparr>" by auto
    with 3 assms(3) show ?thesis
      by (simp add: cas_state_def xchg_state_def futex_wait_call_def with_mem_def mx_mem.truncate_def)
  qed
qed

end
