(* ===== verification/Named.thy ===== *)
theory Named
  imports Complex_Main Event_Safety Mutex_Calls Mutex_Safety
begin

text \<open>
  \<open>fastipc.sync.named_mutex\<close> and \<open>fastipc.sync.named_semaphore\<close>: the constructors on
  a guarded segment, and the methods as calls of the primitive they wrap.
\<close>

section \<open>NamedMutex\<close>

definition mutex_shm_name :: "string \<Rightarrow> string" where
  "mutex_shm_name nm = ''__pyfastipc_mutex_'' @ nm"

text \<open>
  What the creator of the segment does after it constructed the primitive: \<open>force_release\<close>
  and then zero the 64 bytes; an exception is swallowed.
\<close>

definition init_created_mutex :: "FutexMutex \<Rightarrow> bytes \<Rightarrow> bytes" where
  "init_created_mutex fm mem =
     (let mem1 = mutex_force_release (fm_base fm) mem
      in case memoryview_setslice mem1 0 64 (replicate 64 0) of Inl e \<Rightarrow> mem1 | Inr mem2 \<Rightarrow> mem2)"

definition NamedMutex_init :: "string option \<Rightarrow> nat \<Rightarrow> nat \<Rightarrow> string \<Rightarrow> init_env \<Rightarrow> os \<Rightarrow>
    (gsm \<times> FutexMutex) res \<times> os" where
  "NamedMutex_init environ pid addr nm ie s =
     (case GuardedSharedMemory_new environ pid (gsm_args_of (mutex_shm_name nm) 64) ie s of
        (Inl e, s1) \<Rightarrow> (Inl e, s1)
      | (Inr g, s1) \<Rightarrow>
          (case gsm_buf g of
             Inl e \<Rightarrow> (Inl e, s1)
           | Inr ino \<Rightarrow>
               (case FutexMutex_init (map_view addr g) True (os_ino s1 ino) of
                  Inl e \<Rightarrow> (Inl e, s1)
                | Inr (fm, mem) \<Rightarrow>
                    (Inr (g, fm),
                     s1\<lparr>os_ino := (os_ino s1)(ino := (if g_created g then init_created_mutex fm mem else mem))\<rparr>))))"

datatype nm_method =
    NmAcquire
  | NmAcquireNs int int
  | NmTryAcquire
  | NmRelease
  | NmTryRelease
  | NmForceRelease
  | NmEnter
  | NmExit

datatype py_value = PyNone | PyBool bool | PySelf | PyRaise pyexc

fun NamedMutex_call :: "nm_method \<Rightarrow> mx_call res" where
  "NamedMutex_call NmAcquire = Inr (CallAcq Acquire)"
| "NamedMutex_call (NmAcquireNs timeout_ns spin) = FutexMutex_acquire_ns_args timeout_ns spin"
| "NamedMutex_call NmTryAcquire = Inr (CallAcq TryAcquire)"
| "NamedMutex_call NmRelease = Inr CallRelease"
| "NamedMutex_call NmTryRelease = Inr CallRelease"
| "NamedMutex_call NmForceRelease = Inr CallForceRelease"
| "NamedMutex_call NmEnter = Inr (CallAcq Acquire)"
| "NamedMutex_call NmExit = Inr CallRelease"

fun prim_value :: "mx_result \<Rightarrow> py_value" where
  "prim_value RetTrue = PyBool True"
| "prim_value RetFalse = PyBool False"
| "prim_value RetSelf = PySelf"
| "prim_value RetNone = PyNone"
| "prim_value RetRuntimeError = PyRaise RuntimeError"

fun NamedMutex_result :: "nm_method \<Rightarrow> mx_result \<Rightarrow> py_value" where
  "NamedMutex_result NmTryRelease r = (if r = RetRuntimeError then PyBool False else PyBool True)"
| "NamedMutex_result NmEnter r = (if r = RetRuntimeError then PyRaise RuntimeError else PySelf)"
| "NamedMutex_result NmExit r = (if r = RetRuntimeError then PyRaise RuntimeError else PyNone)"
| "NamedMutex_result m r = prim_value r"

definition NamedMutex_owner_pid :: "FutexMutex \<Rightarrow> bytes \<Rightarrow> int" where
  "NamedMutex_owner_pid fm mem = FutexMutex_owner_pid fm mem"

definition NamedMutex_last_acquired_ns :: "FutexMutex \<Rightarrow> bytes \<Rightarrow> int" where
  "NamedMutex_last_acquired_ns fm mem = FutexMutex_last_acquired_ns fm mem"

section \<open>NamedSemaphore\<close>

definition sema_shm_name :: "string \<Rightarrow> string" where
  "sema_shm_name nm = ''__pyfastipc_sema_'' @ nm"

definition NamedSemaphore_init :: "string option \<Rightarrow> nat \<Rightarrow> nat \<Rightarrow> string \<Rightarrow> int option \<Rightarrow> init_env \<Rightarrow> os \<Rightarrow>
    (gsm \<times> FutexSemaphore) res \<times> os" where
  "NamedSemaphore_init environ pid addr nm initial ie s =
     (case GuardedSharedMemory_new environ pid (gsm_args_of (sema_shm_name nm) 64) ie s of
        (Inl e, s1) \<Rightarrow> (Inl e, s1)
      | (Inr g, s1) \<Rightarrow>
          (case gsm_buf g of
             Inl e \<Rightarrow> (Inl e, s1)
           | Inr ino \<Rightarrow>
               (let init_val = (if g_created g then initial else None) in
                case FutexSemaphore_init (map_view addr g) init_val True (os_ino s1 ino) of
                  (r, mem) \<Rightarrow>
                    (map_sum id (\<lambda>fs. (g, fs)) r, s1\<lparr>os_ino := (os_ino s1)(ino := mem)\<rparr>))))"

datatype ns_method = NsPost int | NsPost1 | NsWait bool rat int | NsWaitNs bool int int

definition py_trunc :: "rat \<Rightarrow> int" where
  \<comment> \<open>\<open>int(x)\<close> of a finite number: towards zero\<close>
  "py_trunc x = (if x < 0 then - \<lfloor>- x\<rfloor> else \<lfloor>x\<rfloor>)"

text \<open>
  In \<open>NsWait\<close> the number is the value of the product \<open>timeout * 1_000_000_000\<close> as the
  floating-point multiplication gives it.
\<close>

fun NamedSemaphore_call :: "ns_method \<Rightarrow> sem_call res" where
  "NamedSemaphore_call (NsPost n) = Inr (CallPost n)"
| "NamedSemaphore_call NsPost1 = Inr CallPost1"
| "NamedSemaphore_call (NsWaitNs blocking timeout_ns spin) =
     FutexSemaphore_wait_args blocking timeout_ns spin"
| "NamedSemaphore_call (NsWait blocking timeout_product spin) =
     FutexSemaphore_wait_args blocking (py_trunc timeout_product) spin"

definition NamedSemaphore_value :: "FutexSemaphore \<Rightarrow> bytes \<Rightarrow> int" where
  "NamedSemaphore_value fs mem = FutexSemaphore_value fs mem"

definition NamedSemaphore_last_acquired_ns :: "FutexSemaphore \<Rightarrow> bytes \<Rightarrow> int" where
  "NamedSemaphore_last_acquired_ns fs mem = FutexSemaphore_last_acquired_ns fs mem"

definition NamedSemaphore_last_pid :: "FutexSemaphore \<Rightarrow> bytes \<Rightarrow> int" where
  "NamedSemaphore_last_pid fs mem = FutexSemaphore_last_pid fs mem"

section \<open>Lemmas\<close>

lemma named_create:
  assumes "nm \<noteq> []" and "CHR ''/'' \<notin> set nm" and "0 < n" and "os_shm s (CHR ''/'' # nm) = None"
  shows "\<exists>g s1. GuardedSharedMemory_new environ pid (gsm_args_of nm n) quiet_init s = (Inr g, s1) \<and>
    gsm_buf g = Inr (os_next_ino s) \<and> g_created g \<and> g_size g = n \<and>
    os_ino s1 (os_next_ino s) = replicate (nat n) 0 \<and>
    os_shm s1 (CHR ''/'' # nm) = Some (os_next_ino s)"
proof -
  have "good_args (gsm_args_of nm n)" "1 \<le> a_max_attempts (gsm_args_of nm n)"
    "\<not> a_attach_only (gsm_args_of nm n)" "os_shm s (posix_of (gsm_args_of nm n)) = None"
    using assms by (simp_all add: good_args_def gsm_args_of_def)
  from new_creates [OF this, of environ pid] show ?thesis
    by (simp add: handle_of_def gsm_buf_def) (simp add: gsm_args_of_def)
qed

lemma named_attach:
  assumes "nm \<noteq> []" and "CHR ''/'' \<notin> set nm" and "0 < n" and "os_shm s (CHR ''/'' # nm) = Some ino"
    and "n \<le> int (length (os_ino s ino))"
  shows "\<exists>g s1. GuardedSharedMemory_new environ pid (gsm_args_of nm n) quiet_init s = (Inr g, s1) \<and>
    gsm_buf g = Inr ino \<and> \<not> g_created g \<and> g_size g = int (length (os_ino s ino)) \<and> os_ino s1 = os_ino s"
proof -
  have "good_args (gsm_args_of nm n)" "1 \<le> a_max_attempts (gsm_args_of nm n)"
    "os_shm s (posix_of (gsm_args_of nm n)) = Some ino" "a_size (gsm_args_of nm n) \<le> int (length (os_ino s ino))"
    using assms by (simp_all add: good_args_def gsm_args_of_def)
  from new_attaches [OF this, of environ pid] show ?thesis by (simp add: handle_of_def gsm_buf_def)
qed

text \<open>
  The creator of a segment with other processes acting just before it writes its PID file: they start
  in \<open>gap_state\<close>, in which the segment can already be found under its name.
\<close>

definition gap_state :: "string option \<Rightarrow> string \<Rightarrow> nat \<Rightarrow> os \<Rightarrow> os" where
  "gap_state environ nm n s =
     (os_makedirs (pdir_of environ ''/dev/shm/fastipc'' nm) s)
       \<lparr>os_shm := (os_shm s)(CHR ''/'' # nm \<mapsto> os_next_ino s),
        os_ino := (os_ino s)(os_next_ino s := replicate n 0), os_next_ino := Suc (os_next_ino s),
        os_fds := (os_fds s)(os_next_fd s \<mapsto> os_next_ino s), os_next_fd := Suc (os_next_fd s)\<rparr>"

lemma create_with_gap:
  assumes "nm \<noteq> []" and "CHR ''/'' \<notin> set nm" and "0 < n" and "os_shm s (CHR ''/'' # nm) = None"
  shows "GuardedSharedMemory_new environ pid (gsm_args_of nm (int n)) (quiet_init\<lparr>ie_before_pid := h\<rparr>) s =
    (case os_touch (pdir_of environ ''/dev/shm/fastipc'' nm) (str_nat pid) (h (gap_state environ nm n s)) of
       (Inl ex, s2) \<Rightarrow> (Inl ex, s2)
     | (Inr u, s2) \<Rightarrow>
         (Inr (handle_of environ pid (gsm_args_of nm (int n)) (os_next_fd s) (os_next_ino s) (int n) True), s2))"
proof -
  let ?d = "pdir_of environ ''/dev/shm/fastipc'' nm"
  have "os_shm (os_makedirs ?d s) (CHR ''/'' # nm) = None" "0 < int n" using assms(3,4) by simp_all
  note att = attempt_creates [OF this]
  have a: "a_attach_only (gsm_args_of nm (int n)) = False" "a_size (gsm_args_of nm (int n)) = int n"
    "a_name (gsm_args_of nm (int n)) = nm" "a_pid_dir (gsm_args_of nm (int n)) = ''/dev/shm/fastipc''"
    by (simp_all add: gsm_args_of_def)
  obtain k where k: "nat (a_max_attempts (gsm_args_of nm (int n))) = Suc k" by (simp add: gsm_args_of_def)
  have "gsm_loop (CHR ''/'' # nm) (int n) False (\<lambda>i. quiet_attempt) 0 (Suc k) (os_makedirs ?d s) =
    (Inr (os_next_fd s, os_next_ino s, int n, True), gap_state environ nm n s)"
    using att by (simp add: gap_state_def)
  note loop = this
  have "gsm_left_behind environ pid (gsm_args_of nm (int n)) (quiet_init\<lparr>ie_before_pid := h\<rparr>) s = None"
    using loop assms(1-3) by (simp add: gsm_left_behind_def a k quiet_init_def del: gsm_loop.simps)
  with loop show ?thesis
    using assms(1-3) unfolding handle_of_def a
    by (simp add: GuardedSharedMemory_new_def GuardedSharedMemory_init_def a k quiet_init_def Let_def
        split: sum.split prod.split del: gsm_loop.simps)
qed

lemma sem_init_view:
  assumes "g_size g = int n" and "addr mod 4 = 0" and "64 \<le> n" and "length mem = n"
    and "case initial of None \<Rightarrow> True | Some v \<Rightarrow> 0 \<le> v \<and> v < 2 ^ 32"
  shows "\<exists>fs mem'. FutexSemaphore_init (map_view addr g) initial True mem = (Inr fs, mem') \<and>
    sm_count (sem64_at mem' 0) =
      (case initial of None \<Rightarrow> sm_count (sem64_at mem 0) | Some v \<Rightarrow> word_of_int v)"
proof -
  let ?v = "map_view addr g"
  have v: "v_off ?v = 0" "v_len ?v = n" "v_addr ?v mod 4 = 0"
    using assms(1,2) by (simp_all add: map_view_def v_addr_def)
  then have w: "v_off ?v + v_len ?v \<le> length mem" "SEM64_SIZE \<le> v_len ?v"
    using assms(3,4) by (simp_all add: SEM64_SIZE_def)
  from sem_init_spec [OF w v(3), of initial True] assms(5) show ?thesis
    by (cases "FutexSemaphore_init ?v initial True mem") (auto simp: v(1) split: option.splits)
qed

section \<open>Properties\<close>

text \<open>
  A new named mutex: the constructor leaves all 64 bytes of the header zero. The mutex is
  free, but the magic number that the primitive wrote at offset 0 is erased again.
\<close>

theorem named_mutex_created_state:
  assumes "CHR ''/'' \<notin> set nm" and "os_shm s (CHR ''/'' # mutex_shm_name nm) = None" and "addr mod 4 = 0"
  shows "\<exists>g fm ino s'. NamedMutex_init environ pid addr nm quiet_init s = (Inr (g, fm), s') \<and>
    gsm_buf g = Inr ino \<and> os_ino s' ino = replicate 64 0 \<and>
    FutexMutex_magic fm (os_ino s' ino) = 0 \<and> FutexMutex_owner_pid fm (os_ino s' ino) = 0"
proof -
  have n: "mutex_shm_name nm \<noteq> []" "CHR ''/'' \<notin> set (mutex_shm_name nm)"
    using assms(1) by (simp_all add: mutex_shm_name_def)
  from named_create [OF n _ assms(2), of 64 environ pid] obtain g s1 where
    g: "GuardedSharedMemory_new environ pid (gsm_args_of (mutex_shm_name nm) 64) quiet_init s = (Inr g, s1)"
    "gsm_buf g = Inr (os_next_ino s)" "g_created g" "g_size g = 64"
    "os_ino s1 (os_next_ino s) = replicate 64 0" by auto
  let ?fm = "\<lparr>fm_base = 0, fm_shared = True\<rparr>"
  let ?m = "u32_store_rel 0 MUTEX_OFF_MAGIC MUTEX_MAGIC (replicate 64 0)"
  have l: "length ?m = 64" by (simp add: u32_store_rel_def MUTEX_OFF_MAGIC_def)
  have i: "FutexMutex_init (map_view addr g) True (replicate 64 0) = Inr (?fm, ?m)"
    using g(4) assms(3) by (simp add: FutexMutex_init_def map_view_def v_addr_def MUTEX64_SIZE_def)
  have l2: "length (mutex_force_release 0 ?m) = 64" using mutex_force_release_frees [of 0 ?m] l by simp
  then have z: "init_created_mutex ?fm ?m = replicate 64 0"
    by (simp add: init_created_mutex_def Let_def memoryview_setslice_def overwrite_def)
  have r: "u32_at (replicate 64 0) k = 0" if "k + 4 \<le> 64" for k
    using that by (simp add: u32_at_def pyslice_def)
  have "NamedMutex_init environ pid addr nm quiet_init s =
      (Inr (g, ?fm), s1\<lparr>os_ino := (os_ino s1)(os_next_ino s := replicate 64 0)\<rparr>)"
    using g i z by (simp add: NamedMutex_init_def)
  then show ?thesis using g(2) r
    by (simp add: FutexMutex_magic_def FutexMutex_owner_pid_def u32_load_acq_def mutex_layout)
qed

theorem named_mutex_created_state_witness:
  "\<exists>g fm ino s'. NamedMutex_init None 7 4096 ''m'' quiet_init os_empty = (Inr (g, fm), s') \<and>
    gsm_buf g = Inr ino \<and> FutexMutex_magic fm (os_ino s' ino) = 0"
proof -
  have a: "CHR ''/'' \<notin> set ''m''" "os_shm os_empty (CHR ''/'' # mutex_shm_name ''m'') = None" "(4096 :: nat) mod 4 = 0"
    by (simp_all add: os_empty_def)
  from named_mutex_created_state [OF a, of None 7] show ?thesis by blast
qed

text \<open>
  The mutex belongs to a process, not to a thread: while the owner field holds the caller's
  process id, \<open>acquire\<close> and \<open>with\<close> raise \<open>RuntimeError\<close> instead of waiting, and
  \<open>try_release\<close> of a process that is not the owner returns \<open>False\<close> and changes nothing.
\<close>

theorem named_mutex_owner_rules:
  assumes "ms_pc s t = Out r"
  shows "(mx_owner (ms_hdr s) = pid t \<longrightarrow>
      mx_run wk pid [EvCall t (CallAcq Acquire), EvStep t e] s =
        Some (s\<lparr>ms_pc := (ms_pc s)(t := Out RetRuntimeError)\<rparr>)) \<and>
    NamedMutex_call NmEnter = Inr (CallAcq Acquire) \<and>
    NamedMutex_result NmEnter RetRuntimeError = PyRaise RuntimeError \<and>
    (mx_owner (ms_hdr s) \<noteq> pid t \<longrightarrow>
      mx_run wk pid [EvCall t CallRelease, EvStep t e] s =
        Some (s\<lparr>ms_pc := (ms_pc s)(t := Out RetRuntimeError)\<rparr>)) \<and>
    NamedMutex_call NmTryRelease = Inr CallRelease \<and>
    NamedMutex_result NmTryRelease RetRuntimeError = PyBool False"
  using assms by (simp add: with_mem_def mx_mem.truncate_def)

theorem named_mutex_owner_rules_witness:
  "mx_run fifo_wake (\<lambda>t. 7) [EvCall 0 CallRelease, EvStep 0 calm] mx_start =
    Some (mx_start\<lparr>ms_pc := (ms_pc mx_start)(0 := Out RetRuntimeError)\<rparr>)"
proof -
  have "ms_pc mx_start 0 = Out RetNone" "mx_owner (ms_hdr mx_start) \<noteq> (\<lambda>t :: tid. 7) 0"
    by (simp_all add: mx_start_def)
  from named_mutex_owner_rules [OF this(1), of "\<lambda>t. 7" fifo_wake calm] this(2) show ?thesis by blast
qed

text \<open>
  The initial count of a named semaphore counts for the creator only: the process that
  creates the segment sets the count, one that attaches keeps the count that is there, whatever
  initial value it passes.
\<close>

theorem named_semaphore_initial:
  assumes "CHR ''/'' \<notin> set nm" and "addr mod 4 = 0" and "0 \<le> v" and "v < 2 ^ 32"
  shows "(os_shm s (CHR ''/'' # sema_shm_name nm) = None \<longrightarrow>
      (\<exists>g fs ino s'. NamedSemaphore_init environ pid addr nm (Some v) quiet_init s = (Inr (g, fs), s') \<and>
        gsm_buf g = Inr ino \<and> sm_count (sem64_at (os_ino s' ino) 0) = word_of_int v)) \<and>
    (\<forall>ino. os_shm s (CHR ''/'' # sema_shm_name nm) = Some ino \<and> 64 \<le> length (os_ino s ino) \<longrightarrow>
      (\<exists>g fs s'. NamedSemaphore_init environ pid addr nm initial quiet_init s = (Inr (g, fs), s') \<and>
        gsm_buf g = Inr ino \<and>
        sm_count (sem64_at (os_ino s' ino) 0) = sm_count (sem64_at (os_ino s ino) 0)))"
proof (intro conjI allI impI)
  have n: "sema_shm_name nm \<noteq> []" "CHR ''/'' \<notin> set (sema_shm_name nm)"
    using assms(1) by (simp_all add: sema_shm_name_def)
  {
    assume "os_shm s (CHR ''/'' # sema_shm_name nm) = None"
    from named_create [OF n _ this, of 64 environ pid] obtain g s1 where
      g: "GuardedSharedMemory_new environ pid (gsm_args_of (sema_shm_name nm) 64) quiet_init s = (Inr g, s1)"
      "gsm_buf g = Inr (os_next_ino s)" "g_created g" "g_size g = 64"
      "os_ino s1 (os_next_ino s) = replicate 64 0" by auto
    note i = sem_init_view [of g 64 addr "replicate 64 0" "Some v"]
    show "\<exists>g fs ino s'. NamedSemaphore_init environ pid addr nm (Some v) quiet_init s = (Inr (g, fs), s') \<and>
        gsm_buf g = Inr ino \<and> sm_count (sem64_at (os_ino s' ino) 0) = word_of_int v"
      using g i assms(2-4) by (auto simp: NamedSemaphore_init_def Let_def split: prod.splits)
  next
    fix ino assume a: "os_shm s (CHR ''/'' # sema_shm_name nm) = Some ino \<and> 64 \<le> length (os_ino s ino)"
    then have "64 \<le> int (length (os_ino s ino))" by simp
    with named_attach [OF n, of 64 s ino environ pid] a obtain g s1 where
      g: "GuardedSharedMemory_new environ pid (gsm_args_of (sema_shm_name nm) 64) quiet_init s = (Inr g, s1)"
      "gsm_buf g = Inr ino" "\<not> g_created g" "g_size g = int (length (os_ino s ino))" "os_ino s1 = os_ino s" by auto
    note i = sem_init_view [of g "length (os_ino s ino)" addr "os_ino s ino" None]
    show "\<exists>g fs s'. NamedSemaphore_init environ pid addr nm initial quiet_init s = (Inr (g, fs), s') \<and>
        gsm_buf g = Inr ino \<and> sm_count (sem64_at (os_ino s' ino) 0) = sm_count (sem64_at (os_ino s ino) 0)"
      using g i assms(2) a by (auto simp: NamedSemaphore_init_def Let_def split: prod.splits)
  }
qed

theorem named_semaphore_initial_witness:
  "\<exists>g fs ino s'. NamedSemaphore_init None 7 4096 ''s'' (Some 3) quiet_init os_empty = (Inr (g, fs), s') \<and>
    gsm_buf g = Inr ino \<and> sm_count (sem64_at (os_ino s' ino) 0) = 3"
proof -
  have "CHR ''/'' \<notin> set ''s''" "(4096 :: nat) mod 4 = 0" by simp_all
  from named_semaphore_initial [OF this, of 3 os_empty None 7] show ?thesis by (simp add: os_empty_def)
qed

end
