(* ===== verification/Utf8.thy ===== *)
theory Utf8
  imports Prelude
begin

text \<open>
  Python's \<open>str.encode("utf-8")\<close> and \<open>bytes.decode("utf-8")\<close> on lists of code
  points, for the metadata of history buffers: the strict codec, which rejects surrogates,
  overlong forms and truncated sequences.
\<close>

type_synonym pystr = "nat list"

definition scalar :: "nat \<Rightarrow> bool" where
  "scalar c \<longleftrightarrow> c < 0xD800 \<or> 0xE000 \<le> c \<and> c < 0x110000"

definition utf8_char :: "nat \<Rightarrow> nat list" where
  "utf8_char c =
     (if c < 0x80 then [c]
      else if c < 0x800 then [192 + c div 64, 128 + c mod 64]
      else if c < 0x10000 then [224 + c div 4096, 128 + c div 64 mod 64, 128 + c mod 64]
      else [240 + c div 262144, 128 + c div 4096 mod 64, 128 + c div 64 mod 64, 128 + c mod 64])"

definition utf8_encode :: "pystr \<Rightarrow> bytes" where
  "utf8_encode s = map of_nat (concat (map utf8_char s))"

definition str_encode :: "pystr \<Rightarrow> bytes res" where
  "str_encode s = (if list_all scalar s then Inr (utf8_encode s) else Inl UnicodeEncodeError)"

definition cont :: "nat \<Rightarrow> bool" where
  "cont b \<longleftrightarrow> 128 \<le> b \<and> b < 192"

fun utf8_dec :: "nat list \<Rightarrow> pystr option" where
  "utf8_dec [] = Some []"
| "utf8_dec (b0 # bs) =
     (if b0 < 0x80 then map_option (Cons b0) (utf8_dec bs)
      else if b0 < 224 then
        (case bs of
           b1 # r \<Rightarrow>
             (let c = (b0 - 192) * 64 + (b1 - 128) in
              if 192 \<le> b0 \<and> cont b1 \<and> 0x80 \<le> c then map_option (Cons c) (utf8_dec r) else None)
         | _ \<Rightarrow> None)
      else if b0 < 240 then
        (case bs of
           b1 # b2 # r \<Rightarrow>
             (let c = (b0 - 224) * 4096 + (b1 - 128) * 64 + (b2 - 128) in
              if cont b1 \<and> cont b2 \<and> 0x800 \<le> c \<and> scalar c then map_option (Cons c) (utf8_dec r) else None)
         | _ \<Rightarrow> None)
      else
        (case bs of
           b1 # b2 # b3 # r \<Rightarrow>
             (let c = (b0 - 240) * 262144 + (b1 - 128) * 4096 + (b2 - 128) * 64 + (b3 - 128) in
              if cont b1 \<and> cont b2 \<and> cont b3 \<and> 0x10000 \<le> c \<and> scalar c
              then map_option (Cons c) (utf8_dec r) else None)
         | _ \<Rightarrow> None))"

definition utf8_decode :: "bytes \<Rightarrow> pystr res" where
  "utf8_decode bs = (case utf8_dec (map unat bs) of None \<Rightarrow> Inl UnicodeDecodeError | Some s \<Rightarrow> Inr s)"

lemma cont_mod: "cont (128 + x mod 64)"
  by (simp add: cont_def)

lemma recombine2: "c div 64 * 64 + c mod 64 = (c :: nat)"
  by simp

lemma recombine3: "c div 4096 * 4096 + c div 64 mod 64 * 64 + c mod 64 = (c :: nat)"
proof -
  have "c div 64 = c div 4096 * 64 + c div 64 mod 64"
    using div_mult_mod_eq [of "c div 64" 64] by (simp add: div_mult2_eq [symmetric])
  then show ?thesis using div_mult_mod_eq [of c 64] by linarith
qed

lemma recombine4:
  "c div 262144 * 262144 + c div 4096 mod 64 * 4096 + c div 64 mod 64 * 64 + c mod 64 = (c :: nat)"
proof -
  have "c div 4096 = c div 262144 * 64 + c div 4096 mod 64"
    using div_mult_mod_eq [of "c div 4096" 64] by (simp add: div_mult2_eq [symmetric])
  then show ?thesis using recombine3 [of c] by linarith
qed

lemma utf8_dec_char:
  assumes "scalar c"
  shows "utf8_dec (utf8_char c @ r) = map_option (Cons c) (utf8_dec r)"
proof -
  consider "c < 0x80" | "0x80 \<le> c" "c < 0x800" | "0x800 \<le> c" "c < 0x10000" | "0x10000 \<le> c" "c < 0x110000"
    using assms by (force simp: scalar_def)
  then show ?thesis
  proof cases
    case 1
    then show ?thesis by (simp add: utf8_char_def)
  next
    case 2
    then have "c div 64 < 32" "\<not> 192 + c div 64 < 128" by auto
    with 2 show ?thesis by (simp add: utf8_char_def cont_mod recombine2 Let_def)
  next
    case 3
    then have "c div 4096 < 16" "\<not> 224 + c div 4096 < 128" by auto
    with 3 show ?thesis using recombine3 [of c] assms
      by (simp add: utf8_char_def cont_mod Let_def)
  next
    case 4
    then have "c div 262144 < 16" "\<not> 240 + c div 262144 < 128" by auto
    with 4 show ?thesis using recombine4 [of c] assms
      by (simp add: utf8_char_def cont_mod Let_def)
  qed
qed

lemma utf8_char_byte: "scalar c \<Longrightarrow> b \<in> set (utf8_char c) \<Longrightarrow> b < 256"
  by (auto simp: utf8_char_def scalar_def split: if_splits)

lemma utf8_dec_encode: "\<forall>c \<in> set s. scalar c \<Longrightarrow> utf8_dec (concat (map utf8_char s)) = Some s"
  by (induction s) (simp_all add: utf8_dec_char)

lemma utf8_roundtrip:
  assumes "\<forall>c \<in> set s. scalar c"
  shows "utf8_decode (utf8_encode s) = Inr s"
proof -
  have "map unat (utf8_encode s) = concat (map utf8_char s)"
    unfolding utf8_encode_def map_map
    using assms by (intro map_idI) (auto simp: unat_of_nat dest!: utf8_char_byte)
  then show ?thesis using utf8_dec_encode [OF assms] by (simp add: utf8_decode_def)
qed

end
