(* ===== verification/History.thy ===== *)
theory History
  imports Mutex_Calls Utf8 Gsm
begin

text \<open>
  \<open>fastipc.data.named_history_buffer\<close>: a ring of slots in a shared segment. The operations
  work on the bytes of the mapped segment; \<open>NamedHistoryBuffer_create\<close> and
  \<open>NamedHistoryBuffer_init\<close> get that segment from guarded shared memory. The structures of
  \<open>ctypes\<close> are fields at fixed offsets: with \<open>_pack_ = 64\<close> the header has 128 bytes
  and a slot header has 64. Assigning to an unsigned or signed 64-bit field reduces modulo
  \<open>2^64\<close>.

  A call runs without interference of another writer (the mutex is for that); a
  \<open>publish\<close> that goes to sleep on the mutex does not return: \<open>None\<close>.
\<close>

section \<open>The structures\<close>

definition HB_MAGIC :: u64 where "HB_MAGIC = 0x50464842"
definition HB_HEADER_SIZE :: nat where "HB_HEADER_SIZE = 128"
definition SLOT_HEADER_SIZE :: nat where "SLOT_HEADER_SIZE = 64"

record NamedHistoryBufferHeader =
  hb_magic :: u64
  hb_meta_size :: u64
  hb_num_slots :: u64
  hb_slot_size :: u64
  hb_msg_idx :: u64    \<comment> \<open>a \<open>c_int64\<close>: read as a signed number\<close>

definition hb_header_at :: "bytes \<Rightarrow> NamedHistoryBufferHeader" where
  "hb_header_at buf =
     \<lparr>hb_magic = u64_at buf 0, hb_meta_size = u64_at buf 8, hb_num_slots = u64_at buf 16,
      hb_slot_size = u64_at buf 24, hb_msg_idx = u64_at buf 32\<rparr>"

definition calc_total_size :: "NamedHistoryBufferHeader \<Rightarrow> int" where
  "calc_total_size h =
     int HB_HEADER_SIZE + uint (hb_num_slots h) * (int SLOT_HEADER_SIZE + uint (hb_slot_size h))
       + (uint (hb_meta_size h) div 64 + 1) * 64"

definition calc_meta_offset :: "NamedHistoryBufferHeader \<Rightarrow> int" where
  "calc_meta_offset h = int HB_HEADER_SIZE"

definition calc_slot_offset :: "NamedHistoryBufferHeader \<Rightarrow> int \<Rightarrow> int" where
  "calc_slot_offset h slot_index =
     int HB_HEADER_SIZE + slot_index * (int SLOT_HEADER_SIZE + uint (hb_slot_size h))"

definition validate_magic :: "NamedHistoryBufferHeader \<Rightarrow> unit res" where
  "validate_magic h = (if hb_magic h \<noteq> HB_MAGIC then Inl ValueError else Inr ())"

record SlotHeader =
  sl_size :: u64
  sl_start_version :: u64
  sl_end_version :: u64

definition slot_header_at :: "bytes \<Rightarrow> nat \<Rightarrow> SlotHeader" where
  "slot_header_at buf off =
     \<lparr>sl_size = u64_at buf off, sl_start_version = u64_at buf (off + 8),
      sl_end_version = u64_at buf (off + 16)\<rparr>"

definition from_buffer :: "nat \<Rightarrow> bytes \<Rightarrow> int \<Rightarrow> nat res" where
  \<comment> \<open>\<open>Structure.from_buffer(buf, offset)\<close> of a structure with \<open>n\<close> bytes\<close>
  "from_buffer n buf offset =
     (if offset < 0 \<or> int (length buf) < offset + int n then Inl ValueError else Inr (nat offset))"

section \<open>Operations on the segment\<close>

definition get_slot_header :: "bytes \<Rightarrow> int \<Rightarrow> nat res" where
  \<comment> \<open>the place of the slot header\<close>
  "get_slot_header buf slot_index =
     from_buffer SLOT_HEADER_SIZE buf (calc_slot_offset (hb_header_at buf) slot_index)"

definition py_mod :: "int \<Rightarrow> int \<Rightarrow> int res" where
  "py_mod a b = (if b = 0 then Inl ZeroDivisionError else Inr (a mod b))"

text \<open>The initialisation that \<open>create\<close> writes into the segment.\<close>

definition hb_format :: "int \<Rightarrow> int \<Rightarrow> bytes \<Rightarrow> bytes \<Rightarrow> unit res \<times> bytes" where
  "hb_format num_slots slot_size meta buf =
     (case from_buffer HB_HEADER_SIZE buf 0 of
        Inl e \<Rightarrow> (Inl e, buf)
      | Inr off \<Rightarrow>
          (let buf1 = u64_put 32 0 (u64_put 24 (word_of_int slot_size) (u64_put 16 (word_of_int num_slots)
                        (u64_put 8 (of_nat (length meta)) (u64_put 0 HB_MAGIC buf))))
           in case memoryview_setslice buf1 64 128 (replicate 64 0) of
                Inl e \<Rightarrow> (Inl e, buf1)
              | Inr buf2 \<Rightarrow>
                  (let buf3 = mutex_force_release 64 (u32_store_rel 64 MUTEX_OFF_MAGIC MUTEX_MAGIC buf2)
                   in case memoryview_setslice buf3 128 (128 + length meta) meta of
                        Inl e \<Rightarrow> (Inl e, buf3)
                      | Inr buf4 \<Rightarrow> (Inr (), buf4))))"

definition hb_attach :: "bytes \<Rightarrow> unit res \<times> bytes" where
  \<comment> \<open>\<open>_attach\<close>: check the magic, construct the mutex on bytes 64 to 127\<close>
  "hb_attach buf =
     (case from_buffer HB_HEADER_SIZE buf 0 of
        Inl e \<Rightarrow> (Inl e, buf)
      | Inr off \<Rightarrow>
          (if hb_magic (hb_header_at buf) \<noteq> HB_MAGIC then (Inl ValueError, buf)
           else (Inr (), u32_store_rel 64 MUTEX_OFF_MAGIC MUTEX_MAGIC buf)))"

definition get_meta :: "bytes \<Rightarrow> pystr res" where
  "get_meta buf =
     (let h = hb_header_at buf; off = nat (calc_meta_offset h)
      in utf8_decode (pyslice buf off (off + unat (hb_meta_size h))))"

definition publish_slot :: "u64 \<Rightarrow> u64 \<Rightarrow> bytes \<Rightarrow> bytes \<Rightarrow> unit res \<times> bytes" where
  \<comment> \<open>the body of the \<open>try\<close>; \<open>t1\<close>, \<open>t2\<close>: the two values of \<open>monotonic_ns()\<close>\<close>
  "publish_slot t1 t2 data buf =
     (let h = hb_header_at buf; msg_idx = sint (hb_msg_idx h) in
      case py_mod msg_idx (uint (hb_num_slots h)) of
        Inl e \<Rightarrow> (Inl e, buf)
      | Inr slot_index \<Rightarrow>
          (case get_slot_header buf slot_index of
             Inl e \<Rightarrow> (Inl e, buf)
           | Inr off \<Rightarrow>
               (let buf1 = u64_put (off + 8) t1 (u64_put off (of_nat (length data)) buf);
                    payload_offset = off + SLOT_HEADER_SIZE
                in case memoryview_setslice buf1 payload_offset (payload_offset + length data) data of
                     Inl e \<Rightarrow> (Inl e, buf1)
                   | Inr buf2 \<Rightarrow>
                       (let buf3 = u64_put (off + 16) t2 buf2
                        in (Inr (), u64_put 32 (hb_msg_idx (hb_header_at buf3) + 1) buf3)))))"

definition publish :: "u32 \<Rightarrow> u64 \<Rightarrow> u64 \<Rightarrow> u64 \<Rightarrow> bytes \<Rightarrow> bytes \<Rightarrow> (unit res \<times> bytes) option" where
  "publish pid now t1 t2 data buf =
     (if length data > unat (hb_slot_size (hb_header_at buf)) then Some (Inl ValueError, buf)
      else case mutex_acquire pid now 64 buf of
             Sleeps buf1 \<Rightarrow> None
           | Refused \<Rightarrow> Some (Inl RuntimeError, buf)
           | Owned buf1 \<Rightarrow>
               (case publish_slot t1 t2 data buf1 of
                  (r, buf2) \<Rightarrow>
                    (case mutex_release pid 64 buf2 of
                       Inl e \<Rightarrow> Some (Inl e, buf2)
                     | Inr buf3 \<Rightarrow> Some (r, buf3))))"

definition get_latest :: "bytes \<Rightarrow> bytes res" where
  "get_latest buf =
     (let h = hb_header_at buf; msg_idx = sint (hb_msg_idx h) in
      if msg_idx = 0 then Inl ValueError
      else
        res_bind (py_mod (msg_idx - 1) (uint (hb_num_slots h))) (\<lambda>slot_index.
        res_bind (get_slot_header buf slot_index) (\<lambda>off.
        let payload_offset = off + SLOT_HEADER_SIZE
        in Inr (pyslice buf payload_offset (payload_offset + unat (sl_size (slot_header_at buf off)))))))"

text \<open>
  \<open>get_latest(copy=False)\<close> returns the slice itself: a view of the segment, given here by its
  first index and its (clipped) length.
\<close>

definition get_latest_view :: "bytes \<Rightarrow> (nat \<times> nat) res" where
  "get_latest_view buf =
     (let h = hb_header_at buf; msg_idx = sint (hb_msg_idx h) in
      if msg_idx = 0 then Inl ValueError
      else
        res_bind (py_mod (msg_idx - 1) (uint (hb_num_slots h))) (\<lambda>slot_index.
        res_bind (get_slot_header buf slot_index) (\<lambda>off.
        let payload_offset = off + SLOT_HEADER_SIZE
        in Inr (payload_offset,
             length (pyslice buf payload_offset (payload_offset + unat (sl_size (slot_header_at buf off))))))))"

definition view_bytes :: "nat \<times> nat \<Rightarrow> bytes \<Rightarrow> bytes" where
  \<comment> \<open>the contents of a view when the segment holds \<open>buf\<close>\<close>
  "view_bytes v buf = pyslice buf (fst v) (fst v + snd v)"

section \<open>Creating and attaching\<close>

definition hb_shm_name :: "string \<Rightarrow> string" where
  "hb_shm_name nm = ''__pyfastipc_history_buffer_'' @ nm"

definition put_ino :: "nat \<Rightarrow> bytes \<Rightarrow> os \<Rightarrow> os" where
  "put_ino ino b s = s\<lparr>os_ino := (os_ino s)(ino := b)\<rparr>"

text \<open>Run an operation on the segment that a handle maps; two operations one after the other.\<close>

definition on_segment :: "gsm \<Rightarrow> (bytes \<Rightarrow> unit res \<times> bytes) \<Rightarrow> os \<Rightarrow> unit res \<times> os" where
  "on_segment g f s =
     (case gsm_buf g of
        Inl e \<Rightarrow> (Inl e, s)
      | Inr ino \<Rightarrow> (case f (os_ino s ino) of (r, b) \<Rightarrow> (r, put_ino ino b s)))"

definition and_then :: "(bytes \<Rightarrow> unit res \<times> bytes) \<Rightarrow> (bytes \<Rightarrow> unit res \<times> bytes) \<Rightarrow> bytes \<Rightarrow> unit res \<times> bytes" where
  "and_then f g b = (case f b of (Inl e, b1) \<Rightarrow> (Inl e, b1) | (Inr u, b1) \<Rightarrow> g b1)"

definition NamedHistoryBuffer_create :: "string option \<Rightarrow> nat \<Rightarrow> string \<Rightarrow> int \<Rightarrow> int \<Rightarrow> pystr \<Rightarrow>
    init_env \<Rightarrow> os \<Rightarrow> gsm res \<times> os" where
  "NamedHistoryBuffer_create environ pid nm num_slots slot_size meta ie s =
     (case str_encode meta of
        Inl e \<Rightarrow> (Inl e, s)
      | Inr meta_encoded \<Rightarrow>
          (let shm_size = int HB_HEADER_SIZE + num_slots * (int SLOT_HEADER_SIZE + slot_size)
                            + (int (length meta_encoded) div 64 + 1) * 64;
               a = (gsm_args_of (hb_shm_name nm) shm_size)\<lparr>a_try_cleanup := False\<rparr>
           in case GuardedSharedMemory_new environ pid a ie s of
                (Inl e, s1) \<Rightarrow> (Inl e, s1)
              | (Inr g, s1) \<Rightarrow>
                  (case on_segment g (and_then (hb_format num_slots slot_size meta_encoded) hb_attach) s1 of
                     (Inl e, s2) \<Rightarrow> (Inl e, s2)
                   | (Inr u, s2) \<Rightarrow> (Inr g, s2))))"

definition NamedHistoryBuffer_init :: "string option \<Rightarrow> nat \<Rightarrow> string \<Rightarrow> init_env \<Rightarrow> init_env \<Rightarrow> os \<Rightarrow>
    gsm res \<times> os" where
  \<comment> \<open>attach to an existing buffer: map the header, compute the size, map all of it\<close>
  "NamedHistoryBuffer_init environ pid nm ie ie2 s =
     (let a = (gsm_args_of (hb_shm_name nm) (int HB_HEADER_SIZE))\<lparr>a_attach_only := True, a_try_cleanup := False\<rparr>
      in case GuardedSharedMemory_new environ pid a ie s of
           (Inl e, s1) \<Rightarrow> (Inl e, s1)
         | (Inr tmp, s1) \<Rightarrow>
             (case gsm_buf tmp of
                Inl e \<Rightarrow> (Inl e, s1)
              | Inr ino \<Rightarrow>
                  (let h = hb_header_at (os_ino s1 ino) in
                   if hb_magic h \<noteq> HB_MAGIC then (Inl ValueError, s1)
                   else
                     (case gsm_detach False tmp s1 of
                        (r, tmp', s2) \<Rightarrow>
                          (case GuardedSharedMemory_new environ pid (a\<lparr>a_size := calc_total_size h\<rparr>) ie2 s2 of
                             (Inl e, s3) \<Rightarrow> (Inl e, s3)
                           | (Inr g, s3) \<Rightarrow>
                               (case on_segment g hb_attach s3 of
                                  (Inl e, s4) \<Rightarrow> (Inl e, s4)
                                | (Inr u, s4) \<Rightarrow> (Inr g, s4)))))))"

end
