(* ===== verification/Named_Shared.thy ===== *)
theory Named_Shared
  imports Named History
begin

text \<open>
  A named mutex between processes: the constructors on guarded shared memory composed with the calls
  of the primitive on the bytes of the segment. A process that attaches does not disturb a mutex that
  is in use; the process that creates the segment does, because it initialises the header after the
  segment can be found under its name.
\<close>

section \<open>Clients\<close>

abbreviation mutex_args :: "string \<Rightarrow> gsm_args" where
  "mutex_args nm \<equiv> gsm_args_of (mutex_shm_name nm) 64"

abbreviation mutex_path :: "string \<Rightarrow> string" where
  "mutex_path nm \<equiv> CHR ''/'' # mutex_shm_name nm"

definition mutex_pdir :: "string option \<Rightarrow> string \<Rightarrow> string" where
  "mutex_pdir environ nm = pdir_of environ ''/dev/shm/fastipc'' (mutex_shm_name nm)"

datatype lock_visit = Locked nat | Waiting nat | Failed pyexc

definition open_and_lock :: "string option \<Rightarrow> nat \<Rightarrow> nat \<Rightarrow> u64 \<Rightarrow> string \<Rightarrow> init_env \<Rightarrow> os \<Rightarrow> lock_visit \<times> os" where
  \<comment> \<open>\<open>NamedMutex(nm).acquire()\<close>: the process holds the mutex of a segment, or sleeps on it\<close>
  "open_and_lock environ pid addr now nm ie s =
     (case NamedMutex_init environ pid addr nm ie s of
        (Inl e, s1) \<Rightarrow> (Failed e, s1)
      | (Inr (g, fm), s1) \<Rightarrow>
          (case gsm_buf g of
             Inl e \<Rightarrow> (Failed e, s1)
           | Inr ino \<Rightarrow>
               (case mutex_acquire (of_nat pid) now (fm_base fm) (os_ino s1 ino) of
                  Owned mem \<Rightarrow> (Locked ino, put_ino ino mem s1)
                | Sleeps mem \<Rightarrow> (Waiting ino, put_ino ino mem s1)
                | Refused \<Rightarrow> (Failed RuntimeError, s1))))"

section \<open>Lemmas\<close>

lemma mutex_args_ok:
  assumes "CHR ''/'' \<notin> set nm"
  shows "good_args (mutex_args nm)" "1 \<le> a_max_attempts (mutex_args nm)"
    "\<not> a_attach_only (mutex_args nm)" "a_size (mutex_args nm) = 64" "a_name (mutex_args nm) = mutex_shm_name nm"
    "pdir_of environ (a_pid_dir (mutex_args nm)) (mutex_shm_name nm) = mutex_pdir environ nm"
  using assms by (simp_all add: good_args_def gsm_args_of_def mutex_shm_name_def mutex_pdir_def)

text \<open>The header after a process has constructed the primitive on it.\<close>

abbreviation with_magic :: "bytes \<Rightarrow> bytes" where
  "with_magic mem \<equiv> u32_store_rel 0 MUTEX_OFF_MAGIC MUTEX_MAGIC mem"

lemma with_magic_header:
  assumes "64 \<le> length mem"
  shows "length (with_magic mem) = length mem"
    "mutex64_at (with_magic mem) 0 = (mutex64_at mem 0)\<lparr>mx_magic := MUTEX_MAGIC\<rparr>"
  using assms by (simp_all add: mutex64_at_def mutex_access_defs buf_simps)

lemma primitive_on_handle:
  assumes "addr mod 4 = 0" and "64 \<le> g_size g"
  shows "FutexMutex_init (map_view addr g) True mem = Inr (\<lparr>fm_base = 0, fm_shared = True\<rparr>, with_magic mem)"
proof -
  have "64 \<le> nat (g_size g)" using assms(2) by linarith
  then show ?thesis using assms(1) by (simp add: FutexMutex_init_def map_view_def v_addr_def MUTEX64_SIZE_def)
qed

lemma attach_mutex:
  assumes "CHR ''/'' \<notin> set nm" and "addr mod 4 = 0" and "os_shm s (mutex_path nm) = Some ino"
    and "64 \<le> length (os_ino s ino)"
  shows "\<exists>g s'. NamedMutex_init environ pid addr nm quiet_init s =
      (Inr (g, \<lparr>fm_base = 0, fm_shared = True\<rparr>), s') \<and> gsm_buf g = Inr ino \<and>
    os_ino s' = (os_ino s)(ino := with_magic (os_ino s ino)) \<and> os_shm s' = os_shm s \<and>
    os_dirs s' = os_dirs (add_pid (mutex_pdir environ nm) pid s)"
proof -
  note a = mutex_args_ok [OF assms(1)]
  have "os_shm s (posix_of (mutex_args nm)) = Some ino" "a_size (mutex_args nm) \<le> int (length (os_ino s ino))"
    using assms(3,4) by (simp_all add: a)
  note i = new_attaches [OF a(1,2) this, of environ pid, unfolded a(5,6)]
  let ?g = "handle_of environ pid (mutex_args nm) (os_next_fd s) ino (int (length (os_ino s ino))) False"
  have g: "64 \<le> g_size ?g" "gsm_buf ?g = Inr ino" "\<not> g_created ?g"
    using assms(4) by (simp_all add: handle_of_def gsm_buf_def)
  show ?thesis
    using primitive_on_handle [OF assms(2) g(1)] g(2,3)
    by (simp add: NamedMutex_init_def i add_pid_dirs)
qed

lemma create_mutex:
  assumes "CHR ''/'' \<notin> set nm" and "addr mod 4 = 0" and "os_shm s (mutex_path nm) = None"
  shows "\<exists>g s'. NamedMutex_init environ pid addr nm quiet_init s =
      (Inr (g, \<lparr>fm_base = 0, fm_shared = True\<rparr>), s') \<and> gsm_buf g = Inr (os_next_ino s) \<and>
    os_ino s' = (os_ino s)(os_next_ino s := init_created_mutex \<lparr>fm_base = 0, fm_shared = True\<rparr> (with_magic (replicate 64 0))) \<and>
    os_shm s' = (os_shm s)(mutex_path nm \<mapsto> os_next_ino s)"
proof -
  note a = mutex_args_ok [OF assms(1)]
  have "os_shm s (posix_of (mutex_args nm)) = None" using assms(3) by (simp add: a)
  note i = new_creates [OF a(1-3) this, of environ pid, unfolded a(4-6)]
  let ?g = "handle_of environ pid (mutex_args nm) (os_next_fd s) (os_next_ino s) 64 True"
  have g: "64 \<le> g_size ?g" "gsm_buf ?g = Inr (os_next_ino s)" "g_created ?g"
    by (simp_all add: handle_of_def gsm_buf_def)
  show ?thesis
    using primitive_on_handle [OF assms(2) g(1)] g(2,3)
    by (simp add: NamedMutex_init_def i)
qed

lemma created_header_zero:
  assumes "length mem = 64"
  shows "init_created_mutex \<lparr>fm_base = 0, fm_shared = True\<rparr> mem = replicate 64 0"
proof -
  have "length (mutex_force_release 0 mem) = 64" using mutex_force_release_frees [of 0 mem] assms by simp
  then show ?thesis by (simp add: init_created_mutex_def Let_def memoryview_setslice_def overwrite_def)
qed

lemma zero_header:
  "mx_state (mutex64_at (replicate 64 0) 0) = 0" "mx_owner (mutex64_at (replicate 64 0) 0) = 0"
  by (simp_all add: mutex64_at_def u32_at_def pyslice_def mutex_layout)

lemma lock_free_mutex:
  assumes "CHR ''/'' \<notin> set nm" and "addr mod 4 = 0" and "os_shm s (mutex_path nm) = Some ino"
    and "64 \<le> length (os_ino s ino)" and "mx_state (mutex64_at (os_ino s ino) 0) = 0"
    and "mx_owner (mutex64_at (os_ino s ino) 0) \<noteq> of_nat pid"
  shows "\<exists>s'. open_and_lock environ pid addr now nm quiet_init s = (Locked ino, s') \<and>
    length (os_ino s' ino) = length (os_ino s ino) \<and> os_shm s' = os_shm s \<and>
    mutex64_at (os_ino s' ino) 0 = (mutex64_at (os_ino s ino) 0)
      \<lparr>mx_magic := MUTEX_MAGIC, mx_state := 1, mx_owner := of_nat pid, mx_last_ns := now\<rparr> \<and>
    os_dirs s' = os_dirs (add_pid (mutex_pdir environ nm) pid s)"
proof -
  let ?m = "with_magic (os_ino s ino)"
  note m = with_magic_header [OF assms(4)]
  from attach_mutex [OF assms(1-4), of environ pid] obtain g s1 where
    g: "NamedMutex_init environ pid addr nm quiet_init s = (Inr (g, \<lparr>fm_base = 0, fm_shared = True\<rparr>), s1)"
    "gsm_buf g = Inr ino" "os_ino s1 = (os_ino s)(ino := ?m)" "os_shm s1 = os_shm s"
    "os_dirs s1 = os_dirs (add_pid (mutex_pdir environ nm) pid s)" by blast
  obtain m' where "mutex_acquire (of_nat pid) now 0 ?m = Owned m'" "length m' = length ?m"
    "mutex64_at m' 0 = (mutex64_at ?m 0)\<lparr>mx_state := 1, mx_owner := of_nat pid, mx_last_ns := now\<rparr>"
    using mutex_acquire_free [of 0 ?m "of_nat pid" now] m assms(4-6) by auto
  then show ?thesis using g m by (simp add: open_and_lock_def put_ino_def)
qed

lemma lock_busy_mutex:
  assumes "CHR ''/'' \<notin> set nm" and "addr mod 4 = 0" and "os_shm s (mutex_path nm) = Some ino"
    and "64 \<le> length (os_ino s ino)" and "mx_state (mutex64_at (os_ino s ino) 0) \<noteq> 0"
    and "mx_owner (mutex64_at (os_ino s ino) 0) \<noteq> of_nat pid"
  shows "\<exists>s'. open_and_lock environ pid addr now nm quiet_init s = (Waiting ino, s') \<and>
    length (os_ino s' ino) = length (os_ino s ino) \<and> os_shm s' = os_shm s \<and>
    mutex64_at (os_ino s' ino) 0 = (mutex64_at (os_ino s ino) 0)\<lparr>mx_magic := MUTEX_MAGIC, mx_state := 2\<rparr>"
proof -
  let ?m = "with_magic (os_ino s ino)"
  note m = with_magic_header [OF assms(4)]
  from attach_mutex [OF assms(1-4), of environ pid] obtain g s1 where
    g: "NamedMutex_init environ pid addr nm quiet_init s = (Inr (g, \<lparr>fm_base = 0, fm_shared = True\<rparr>), s1)"
    "gsm_buf g = Inr ino" "os_ino s1 = (os_ino s)(ino := ?m)" "os_shm s1 = os_shm s" by blast
  obtain m' where "mutex_acquire (of_nat pid) now 0 ?m = Sleeps m'" "length m' = length ?m"
    "mutex64_at m' 0 = (mutex64_at ?m 0)\<lparr>mx_state := 2\<rparr>"
    using mutex_acquire_held [of 0 ?m "of_nat pid" now] m assms(4-6) by auto
  then show ?thesis using g m by (simp add: open_and_lock_def put_ino_def)
qed

lemma pid_words:
  assumes "0 < p" and "p < 2 ^ 32" and "q < 2 ^ 32" and "p \<noteq> q"
  shows "of_nat p \<noteq> (0 :: u32)" "of_nat p \<noteq> (of_nat q :: u32)"
proof -
  have e: "unat (of_nat k :: u32) = k" if "k < 2 ^ 32" for k
    using that by (simp add: unat_of_nat)
  show "of_nat p \<noteq> (0 :: u32)" using e [OF assms(2)] assms(1) by (metis unsigned_0 less_irrefl)
  show "of_nat p \<noteq> (of_nat q :: u32)" using e [OF assms(2)] e [OF assms(3)] assms(4) by metis
qed

abbreviation created_state :: "string option \<Rightarrow> string \<Rightarrow> os \<Rightarrow> os" where
  "created_state environ nm s \<equiv> gap_state environ (mutex_shm_name nm) 64 s"

lemma init_with_interference:
  assumes "CHR ''/'' \<notin> set nm" and "os_shm s (mutex_path nm) = None"
  shows "GuardedSharedMemory_new environ pid (mutex_args nm) (quiet_init\<lparr>ie_before_pid := h\<rparr>) s =
    (case os_touch (mutex_pdir environ nm) (str_nat pid) (h (created_state environ nm s)) of
       (Inl ex, s2) \<Rightarrow> (Inl ex, s2)
     | (Inr u, s2) \<Rightarrow>
         (Inr (handle_of environ pid (mutex_args nm) (os_next_fd s) (os_next_ino s) 64 True), s2))"
proof -
  have "mutex_shm_name nm \<noteq> []" "CHR ''/'' \<notin> set (mutex_shm_name nm)" "(0 :: nat) < 64"
    using assms(1) by (simp_all add: mutex_shm_name_def)
  from create_with_gap [OF this assms(2), of environ pid h, unfolded of_nat_numeral]
  show ?thesis unfolding mutex_pdir_def .
qed

section \<open>Properties\<close>

text \<open>
  C13. A named mutex excludes processes that know its name only: after one process has created and
  acquired it, a second process that opens the same name and acquires it does not get it but goes to
  sleep, having marked the state word as contended (2) and left the owner as it is. After the owner
  released it, the loop of the second process takes it, and keeps the mark.
\<close>

theorem named_mutex_between_processes:
  assumes "CHR ''/'' \<notin> set nm" and "os_shm s (CHR ''/'' # mutex_shm_name nm) = None"
    and "addr mod 4 = 0" and "addr' mod 4 = 0"
    and "0 < p" and "p < 2 ^ 32" and "0 < q" and "q < 2 ^ 32" and "p \<noteq> q"
  shows "\<exists>ino s1 s2 m m'. open_and_lock environ p addr now nm quiet_init s = (Locked ino, s1) \<and>
    mx_state (mutex64_at (os_ino s1 ino) 0) = 1 \<and> mx_owner (mutex64_at (os_ino s1 ino) 0) = of_nat p \<and>
    open_and_lock environ q addr' now' nm quiet_init s1 = (Waiting ino, s2) \<and>
    mx_state (mutex64_at (os_ino s2 ino) 0) = 2 \<and> mx_owner (mutex64_at (os_ino s2 ino) 0) = of_nat p \<and>
    mutex_release (of_nat p) 0 (os_ino s2 ino) = Inr m \<and> mx_state (mutex64_at m 0) = 0 \<and>
    mutex_acquire_slow (of_nat q) now'' 0 m = Owned m' \<and>
    mx_state (mutex64_at m' 0) = 2 \<and> mx_owner (mutex64_at m' 0) = of_nat q"
proof -
  let ?i = "os_next_ino s" and ?z = "replicate 64 (0 :: u8)"
  note pw = pid_words [OF assms(5,6,8,9)]
  have z: "init_created_mutex \<lparr>fm_base = 0, fm_shared = True\<rparr> (with_magic ?z) = ?z"
    by (rule created_header_zero) (simp add: with_magic_header)
  from create_mutex [OF assms(1,3,2), of environ p, unfolded z] obtain g s0 where
    g: "NamedMutex_init environ p addr nm quiet_init s = (Inr (g, \<lparr>fm_base = 0, fm_shared = True\<rparr>), s0)"
    "gsm_buf g = Inr ?i" "os_ino s0 ?i = ?z" "os_shm s0 (mutex_path nm) = Some ?i" by auto
  obtain m1 where m1: "mutex_acquire (of_nat p) now 0 ?z = Owned m1" "length m1 = 64"
    "mx_state (mutex64_at m1 0) = 1" "mx_owner (mutex64_at m1 0) = of_nat p"
    using mutex_acquire_free [of 0 ?z "of_nat p" now] zero_header pw(1) by auto
  let ?s1 = "put_ino ?i m1 s0"
  have s1: "open_and_lock environ p addr now nm quiet_init s = (Locked ?i, ?s1)"
    "os_shm ?s1 (mutex_path nm) = Some ?i" "os_ino ?s1 ?i = m1"
    using g m1(1) by (simp_all add: open_and_lock_def put_ino_def)
  from lock_busy_mutex [OF assms(1,4) s1(2), of q environ now'] s1(3) m1(2-4) pw(2) obtain s2 where
    s2: "open_and_lock environ q addr' now' nm quiet_init ?s1 = (Waiting ?i, s2)" "length (os_ino s2 ?i) = 64"
    "mx_state (mutex64_at (os_ino s2 ?i) 0) = 2" "mx_owner (mutex64_at (os_ino s2 ?i) 0) = of_nat p" by auto
  obtain m where m: "mutex_release (of_nat p) 0 (os_ino s2 ?i) = Inr m" "length m = 64"
    "mx_state (mutex64_at m 0) = 0"
    using mutex_release_owned [of 0 "os_ino s2 ?i" "of_nat p"] s2(2,4) by auto
  obtain m' where "mutex_acquire_slow (of_nat q) now'' 0 m = Owned m'"
    "mx_state (mutex64_at m' 0) = 2" "mx_owner (mutex64_at m' 0) = of_nat q"
    using mutex_acquire_slow_free [of 0 m "of_nat q" now''] m(2,3) by auto
  moreover have "mx_state (mutex64_at (os_ino ?s1 ?i) 0) = 1" "mx_owner (mutex64_at (os_ino ?s1 ?i) 0) = of_nat p"
    unfolding s1(3) by (rule m1(3), rule m1(4))
  ultimately show ?thesis using s1(1) s2(1,3,4) m(1,3) by blast
qed

theorem named_mutex_between_processes_witness:
  "\<exists>ino s1 s2. open_and_lock None 7 4096 1 ''m'' quiet_init os_empty = (Locked ino, s1) \<and>
    open_and_lock None 8 8192 2 ''m'' quiet_init s1 = (Waiting ino, s2)"
proof -
  have "CHR ''/'' \<notin> set ''m''" "os_shm os_empty (mutex_path ''m'') = None"
    "(4096 :: nat) mod 4 = 0" "(8192 :: nat) mod 4 = 0" "(0 :: nat) < 7" "(7 :: nat) < 2 ^ 32" "(0 :: nat) < 8"
    "(8 :: nat) < 2 ^ 32" "(7 :: nat) \<noteq> 8"
    by (simp_all add: os_empty_def)
  from named_mutex_between_processes [OF this, of None 1 2 3] show ?thesis by blast
qed

text \<open>
  C30. The initialisation by the creator is not atomic: there is a state \<open>x\<close>, between the creation of
  the segment and the initialisation of its header, in which a second process can open the mutex by
  name and acquire it. Whatever the interference is that takes \<open>x\<close> to the state after that
  acquisition, the creator goes on to reset the header and its own \<open>acquire\<close> succeeds as well:
  two processes hold one mutex. The PID files of both are there.
\<close>

theorem named_mutex_creation_race:
  assumes "CHR ''/'' \<notin> set nm" and "os_shm s (CHR ''/'' # mutex_shm_name nm) = None"
    and "addr mod 4 = 0" and "addr' mod 4 = 0"
    and "0 < p" and "p < 2 ^ 32" and "0 < q" and "q < 2 ^ 32" and "p \<noteq> q"
    and "os_dirs s (mutex_pdir environ nm) = None"
  shows "\<exists>x y ino s'. open_and_lock environ q addr' now' nm quiet_init x = (Locked ino, y) \<and>
    (\<forall>h. h x = y \<longrightarrow>
      open_and_lock environ p addr now nm (quiet_init\<lparr>ie_before_pid := h\<rparr>) s = (Locked ino, s')) \<and>
    mx_owner (mutex64_at (os_ino y ino) 0) = of_nat q \<and> mx_owner (mutex64_at (os_ino s' ino) 0) = of_nat p \<and>
    os_dirs s' (mutex_pdir environ nm) = Some [str_nat q, str_nat p]"
proof -
  let ?i = "os_next_ino s" and ?z = "replicate 64 (0 :: u8)" and ?x = "created_state environ nm s"
    and ?d = "mutex_pdir environ nm" and ?g = "handle_of environ p (mutex_args nm) (os_next_fd s) (os_next_ino s) 64 True"
  note pw = pid_words [OF assms(5,6,8,9)] and qw = pid_words(1) [OF assms(7,8,6) assms(9) [symmetric]]
  have x: "os_shm ?x (mutex_path nm) = Some ?i" "os_ino ?x ?i = ?z" "os_dirs ?x ?d = Some []"
    using assms(10) by (simp_all add: gap_state_def mutex_pdir_def os_makedirs_def)
  from lock_free_mutex [OF assms(1,4) x(1), of q environ now'] x(2) zero_header qw obtain y where
    y: "open_and_lock environ q addr' now' nm quiet_init ?x = (Locked ?i, y)" "length (os_ino y ?i) = 64"
    "mx_owner (mutex64_at (os_ino y ?i) 0) = of_nat q" "os_dirs y ?d = Some [str_nat q]"
    using x(3) by (auto simp: add_pid_dirs)
  let ?s2 = "y\<lparr>os_dirs := (os_dirs y)(?d \<mapsto> [str_nat q, str_nat p])\<rparr>"
  have "str_nat p \<noteq> str_nat q" using assms(9) str_nat_inj by blast
  then have touch: "os_touch ?d (str_nat p) y = (Inr (), ?s2)" using y(4) by (simp add: os_touch_def)
  have g: "64 \<le> g_size ?g" "gsm_buf ?g = Inr ?i" "g_created ?g" by (simp_all add: handle_of_def gsm_buf_def)
  have z: "init_created_mutex \<lparr>fm_base = 0, fm_shared = True\<rparr> (with_magic (os_ino y ?i)) = ?z"
    using y(2) by (intro created_header_zero) (simp add: with_magic_header)
  obtain m where m: "mutex_acquire (of_nat p) now 0 ?z = Owned m" "mx_owner (mutex64_at m 0) = of_nat p"
    using mutex_acquire_free [of 0 ?z "of_nat p" now] zero_header pw(1) by auto
  let ?s' = "put_ino ?i m (?s2\<lparr>os_ino := (os_ino ?s2)(?i := ?z)\<rparr>)"
  have "open_and_lock environ p addr now nm (quiet_init\<lparr>ie_before_pid := h\<rparr>) s = (Locked ?i, ?s')" if "h ?x = y" for h
  proof -
    have "NamedMutex_init environ p addr nm (quiet_init\<lparr>ie_before_pid := h\<rparr>) s =
        (Inr (?g, \<lparr>fm_base = 0, fm_shared = True\<rparr>), ?s2\<lparr>os_ino := (os_ino ?s2)(?i := ?z)\<rparr>)"
      using primitive_on_handle [OF assms(3) g(1)] g(2,3) z
      by (simp add: NamedMutex_init_def init_with_interference [OF assms(1,2)] that touch)
    then show ?thesis using g(2) m(1) by (simp add: open_and_lock_def)
  qed
  moreover have "mx_owner (mutex64_at (os_ino ?s' ?i) 0) = of_nat p" "os_dirs ?s' ?d = Some [str_nat q, str_nat p]"
    using m(2) by (simp_all add: put_ino_def)
  ultimately show ?thesis using y(1,3) by blast
qed

theorem named_mutex_creation_race_witness:
  "\<exists>x y ino. open_and_lock None 8 8192 2 ''m'' quiet_init x = (Locked ino, y) \<and>
    fst (open_and_lock None 7 4096 1 ''m'' (quiet_init\<lparr>ie_before_pid := (\<lambda>z. y)\<rparr>) os_empty) = Locked ino"
proof -
  have "CHR ''/'' \<notin> set ''m''" "os_shm os_empty (mutex_path ''m'') = None"
    "(4096 :: nat) mod 4 = 0" "(8192 :: nat) mod 4 = 0" "(0 :: nat) < 7" "(7 :: nat) < 2 ^ 32" "(0 :: nat) < 8"
    "(8 :: nat) < 2 ^ 32" "(7 :: nat) \<noteq> 8" "os_dirs os_empty (mutex_pdir None ''m'') = None"
    by (simp_all add: os_empty_def)
  from named_mutex_creation_race [OF this, of 2 1] obtain x y ino s' where
    q: "open_and_lock None 8 8192 2 ''m'' quiet_init x = (Locked ino, y)" and
    p: "\<forall>h. h x = y \<longrightarrow> open_and_lock None 7 4096 1 ''m'' (quiet_init\<lparr>ie_before_pid := h\<rparr>) os_empty = (Locked ino, s')"
    by auto
  from p [rule_format, of "\<lambda>z. y"] q show ?thesis by (intro exI conjI) auto
qed

end
