(* ===== verification/Gsm_System.thy ===== *)
theory Gsm_System
  imports Gsm_Safety Transition
begin

text \<open>
  Several processes with guarded handles on one name: each process opens and closes a handle,
  writes to the segment, or dies without closing. A constructor that raises is followed by the finaliser of its
  object. The calls of different processes do not overlap here and no system call fails (the previous theory has
  the races of overlapping calls and failing calls), a process has at most one handle on the name, and the id of
  a dead process is not used again.
\<close>

section \<open>The system\<close>

record gsys =
  gs_os :: os
  gs_handle :: "nat \<rightharpoonup> gsm"   \<comment> \<open>the open handle of a process\<close>

datatype gsys_event =
    GOpen nat int bool   \<comment> \<open>process, size, \<open>attach_only\<close>\<close>
  | GClose nat
  | GWrite nat bytes     \<comment> \<open>the new contents of the mapped segment\<close>
  | GDie nat

definition kill_process :: "nat \<Rightarrow> os \<Rightarrow> os" where
  \<comment> \<open>\<open>kill(p, 0)\<close> answers \<open>ESRCH\<close> from now on\<close>
  "kill_process p s = s\<lparr>os_kill := (os_kill s)(int p := Some 3)\<rparr>"

abbreviation open_args :: "string \<Rightarrow> int \<Rightarrow> bool \<Rightarrow> gsm_args" where
  "open_args nm n ao \<equiv> (gsm_args_of nm n)\<lparr>a_attach_only := ao\<rparr>"

fun gsys_exec :: "string option \<Rightarrow> string \<Rightarrow> gsys_event \<Rightarrow> gsys \<Rightarrow> gsys option" where
  "gsys_exec environ nm (GOpen p n ao) s =
     (if gs_handle s p = None \<and> alive (int p) (gs_os s) then
        (case GuardedSharedMemory_new environ p (open_args nm n ao) quiet_init (gs_os s) of
           (Inl e, os') \<Rightarrow> Some (s\<lparr>gs_os := os'\<rparr>)
         | (Inr g, os') \<Rightarrow> Some (s\<lparr>gs_os := os', gs_handle := (gs_handle s)(p \<mapsto> g)\<rparr>))
      else None)"
| "gsys_exec environ nm (GClose p) s =
     (case gs_handle s p of
        None \<Rightarrow> None
      | Some g \<Rightarrow>
          (case gsm_close quiet_close g (gs_os s) of
             (Inl e, g', os') \<Rightarrow> Some (s\<lparr>gs_os := os', gs_handle := (gs_handle s)(p \<mapsto> g')\<rparr>)
           | (Inr u, g', os') \<Rightarrow> Some (s\<lparr>gs_os := os', gs_handle := (gs_handle s)(p := None)\<rparr>)))"
| "gsys_exec environ nm (GWrite p b) s =
     (case gs_handle s p of
        None \<Rightarrow> None
      | Some g \<Rightarrow>
          (case gsm_buf g of
             Inl e \<Rightarrow> None
           | Inr ino \<Rightarrow>
               (if length b = length (os_ino (gs_os s) ino)
                then Some (s\<lparr>gs_os := (gs_os s)\<lparr>os_ino := (os_ino (gs_os s))(ino := b)\<rparr>\<rparr>)
                else None)))"
| "gsys_exec environ nm (GDie p) s =
     (let os' = kill_process p (gs_os s)
      in Some (s\<lparr>gs_os := (case gs_handle s p of None \<Rightarrow> os' | Some g \<Rightarrow> without_fd g os'),
                 gs_handle := (gs_handle s)(p := None)\<rparr>))"

inductive gsys_step :: "string option \<Rightarrow> string \<Rightarrow> gsys \<Rightarrow> gsys \<Rightarrow> bool" for environ nm where
  gsys_stepI: "gsys_exec environ nm e s = Some s' \<Longrightarrow> gsys_step environ nm s s'"

inductive_cases gsys_stepE: "gsys_step environ nm s s'"

abbreviation px :: "string \<Rightarrow> string" where
  "px nm \<equiv> CHR ''/'' # nm"

abbreviation pdir :: "string option \<Rightarrow> string \<Rightarrow> string" where
  "pdir environ nm \<equiv> pdir_of environ ''/dev/shm/fastipc'' nm"

definition gsys_init :: "string option \<Rightarrow> string \<Rightarrow> gsys \<Rightarrow> bool" where
  \<comment> \<open>nobody has used the name yet\<close>
  "gsys_init environ nm s \<longleftrightarrow> os_wf (gs_os s) \<and> os_shm (gs_os s) (px nm) = None \<and>
     os_dirs (gs_os s) (pdir environ nm) = None \<and> gs_handle s = (\<lambda>p. None)"

section \<open>The invariant\<close>

definition handle_ok :: "string option \<Rightarrow> string \<Rightarrow> os \<Rightarrow> nat \<Rightarrow> gsm \<Rightarrow> bool" where
  "handle_ok environ nm s p g \<longleftrightarrow> g_pid g = p \<and> \<not> g_closed g \<and> \<not> g_unlinked g \<and> g_posix_name g = px nm \<and>
     g_pdir g = pdir environ nm \<and> alive (int p) s \<and>
     (\<exists>fd ino fs. g_fd g = Some fd \<and> os_fds s fd = Some ino \<and> g_buf g = Some ino \<and> os_shm s (px nm) = Some ino \<and>
        g_size g = int (length (os_ino s ino)) \<and> os_dirs s (pdir environ nm) = Some fs \<and> str_nat p \<in> set fs)"

definition handles_ok :: "string option \<Rightarrow> string \<Rightarrow> os \<Rightarrow> (nat \<rightharpoonup> gsm) \<Rightarrow> bool" where
  "handles_ok environ nm s hs \<longleftrightarrow> (\<forall>p g. hs p = Some g \<longrightarrow> handle_ok environ nm s p g)"

definition fds_distinct :: "(nat \<rightharpoonup> gsm) \<Rightarrow> bool" where
  "fds_distinct hs \<longleftrightarrow> (\<forall>p q g h. hs p = Some g \<longrightarrow> hs q = Some h \<longrightarrow> g_fd g = g_fd h \<longrightarrow> p = q)"

definition file_ok :: "os \<Rightarrow> (nat \<rightharpoonup> gsm) \<Rightarrow> string \<Rightarrow> bool" where
  \<comment> \<open>a PID file belongs to an open handle or to a dead process\<close>
  "file_ok s hs fn \<longleftrightarrow> (\<exists>q. fn = str_nat q \<and> (alive (int q) s \<longrightarrow> hs q \<noteq> None))"

definition files_ok :: "string option \<Rightarrow> string \<Rightarrow> os \<Rightarrow> (nat \<rightharpoonup> gsm) \<Rightarrow> bool" where
  "files_ok environ nm s hs \<longleftrightarrow>
     (\<forall>fs. os_dirs s (pdir environ nm) = Some fs \<longrightarrow> (\<forall>fn \<in> set fs. file_ok s hs fn))"

definition crash_left :: "string option \<Rightarrow> string \<Rightarrow> os \<Rightarrow> bool" where
  \<comment> \<open>a process died without closing and nobody has cleaned up since\<close>
  "crash_left environ nm s \<longleftrightarrow> (\<exists>fs q. os_dirs s (pdir environ nm) = Some fs \<and> str_nat q \<in> set fs \<and> \<not> alive (int q) s)"

definition gsys_inv :: "string option \<Rightarrow> string \<Rightarrow> gsys \<Rightarrow> bool" where
  "gsys_inv environ nm s \<longleftrightarrow> os_wf (gs_os s) \<and> handles_ok environ nm (gs_os s) (gs_handle s) \<and>
     fds_distinct (gs_handle s) \<and> files_ok environ nm (gs_os s) (gs_handle s) \<and>
     (os_shm (gs_os s) (px nm) \<noteq> None \<longrightarrow> (\<exists>p. gs_handle s p \<noteq> None) \<or> crash_left environ nm (gs_os s))"

lemma handles_okD: "gsys_inv environ nm s \<Longrightarrow> gs_handle s p = Some g \<Longrightarrow> handle_ok environ nm (gs_os s) p g"
  by (simp add: gsys_inv_def handles_ok_def)

lemma fds_distinctD: "gsys_inv environ nm s \<Longrightarrow> gs_handle s p = Some g \<Longrightarrow> gs_handle s q = Some h \<Longrightarrow>
    p \<noteq> q \<Longrightarrow> g_fd g \<noteq> g_fd h"
  unfolding gsys_inv_def fds_distinct_def by blast

lemma linkedD: "gsys_inv environ nm s \<Longrightarrow> os_shm (gs_os s) (px nm) \<noteq> None \<Longrightarrow>
    (\<exists>p. gs_handle s p \<noteq> None) \<or> crash_left environ nm (gs_os s)"
  by (simp add: gsys_inv_def)

lemma fds_distinct_upd:
  "fds_distinct hs \<Longrightarrow> fds_distinct (hs(p := None))"
  "fds_distinct hs \<Longrightarrow> (\<And>q h. hs q = Some h \<Longrightarrow> g_fd h \<noteq> g_fd g) \<Longrightarrow> fds_distinct (hs(p \<mapsto> g))"
  unfolding fds_distinct_def by (auto split: if_splits) metis+

lemma handles_ok_upd:
  assumes "\<And>q h. hs q = Some h \<Longrightarrow> q \<noteq> p \<Longrightarrow> handle_ok environ nm s q h"
  shows "handles_ok environ nm s (hs(p := None))"
    and "handle_ok environ nm s p g \<Longrightarrow> handles_ok environ nm s (hs(p \<mapsto> g))"
  using assms by (auto simp: handles_ok_def)

lemma file_ok_upd:
  "file_ok s hs fn \<Longrightarrow> file_ok s (hs(p \<mapsto> g)) fn"
  "file_ok s hs fn \<Longrightarrow> fn \<noteq> str_nat p \<Longrightarrow> file_ok s (hs(p := None)) fn"
  "file_ok s (hs(p \<mapsto> g)) (str_nat p)"
  unfolding file_ok_def by (auto simp: str_nat_inj)

lemma file_ok_kill: "os_kill s' = os_kill s \<Longrightarrow> file_ok s' hs fn = file_ok s hs fn"
  by (simp add: file_ok_def alive_def)

lemma handle_ok_frame:
  assumes "handle_ok environ nm s p g" and "os_shm s' (px nm) = os_shm s (px nm)"
    and "\<And>i. length (os_ino s' i) = length (os_ino s i)" and "\<And>fd. g_fd g = Some fd \<Longrightarrow> os_fds s' fd = os_fds s fd"
    and "alive (int p) s' = alive (int p) s"
    and "\<And>fs. os_dirs s (pdir environ nm) = Some fs \<Longrightarrow> str_nat p \<in> set fs \<Longrightarrow>
       \<exists>fs'. os_dirs s' (pdir environ nm) = Some fs' \<and> str_nat p \<in> set fs'"
  shows "handle_ok environ nm s' p g"
  using assms unfolding handle_ok_def by (metis (no_types, lifting))

section \<open>Opening\<close>

lemma alive_kill: "os_kill s' = os_kill s \<Longrightarrow> alive p s' = alive p s"
  by (simp add: alive_def)

lemma open_fail_inv:
  assumes "gsys_inv environ nm s" and "os_wf os'" and "os_shm os' = os_shm (gs_os s)" and "os_ino os' = os_ino (gs_os s)"
    and "os_fds os' = os_fds (gs_os s)" and "os_kill os' = os_kill (gs_os s)"
    and "os_dirs os' = os_dirs (os_makedirs (pdir environ nm) (gs_os s))"
  shows "gsys_inv environ nm (s\<lparr>gs_os := os'\<rparr>)"
proof -
  let ?d = "pdir environ nm"
  have al: "alive q os' = alive q (gs_os s)" for q using assms(6) by (rule alive_kill)
  have dir: "os_dirs os' ?d = os_dirs (gs_os s) ?d \<or> os_dirs (gs_os s) ?d = None \<and> os_dirs os' ?d = Some []"
    using assms(7) by (auto simp: os_makedirs_def split: option.splits)
  have "handle_ok environ nm os' q h" if "gs_handle s q = Some h" for q h
    using dir by (intro handle_ok_frame [OF handles_okD [OF assms(1) that]]) (auto simp: assms(3-5) al)
  then have "handles_ok environ nm os' (gs_handle s)" by (simp add: handles_ok_def)
  moreover have "files_ok environ nm os' (gs_handle s)"
    using assms(1) dir file_ok_kill [OF assms(6)] unfolding gsys_inv_def files_ok_def by auto
  moreover have "crash_left environ nm (gs_os s) \<Longrightarrow> crash_left environ nm os'"
    using dir al unfolding crash_left_def by auto
  ultimately show ?thesis using assms(1-3) by (auto simp: gsys_inv_def)
qed

lemma open_ok_inv:
  assumes "gsys_inv environ nm s" and "os_wf os'" and "os_kill os' = os_kill (gs_os s)"
    and "os_dirs os' (pdir environ nm) = Some fs'"
    and "set fs' = insert (str_nat p) (case os_dirs (gs_os s) (pdir environ nm) of None \<Rightarrow> {} | Some fs \<Rightarrow> set fs)"
    and "handle_ok environ nm os' p g"
    and "\<And>q h. gs_handle s q = Some h \<Longrightarrow> handle_ok environ nm os' q h \<and> g_fd h \<noteq> g_fd g"
  shows "gsys_inv environ nm (s\<lparr>gs_os := os', gs_handle := (gs_handle s)(p \<mapsto> g)\<rparr>)"
proof -
  have "file_ok os' ((gs_handle s)(p \<mapsto> g)) fn" if "fn \<in> set fs'" for fn
    using that assms(1,5) file_ok_kill [OF assms(3)] file_ok_upd
    by (auto simp: gsys_inv_def files_ok_def split: option.splits)
  then have "files_ok environ nm os' ((gs_handle s)(p \<mapsto> g))" using assms(4) by (simp add: files_ok_def)
  moreover have "handles_ok environ nm os' ((gs_handle s)(p \<mapsto> g))"
    using assms(6,7) by (intro handles_ok_upd) auto
  moreover have "fds_distinct ((gs_handle s)(p \<mapsto> g))"
    using assms(1,7) by (intro fds_distinct_upd) (auto simp: gsys_inv_def)
  ultimately show ?thesis using assms(2) by (auto simp: gsys_inv_def)
qed

lemma add_pid_files:
  "\<exists>fs'. os_dirs (add_pid d p s) d = Some fs' \<and>
     set fs' = insert (str_nat p) (case os_dirs s d of None \<Rightarrow> {} | Some fs \<Rightarrow> set fs)"
  by (auto simp: add_pid_dirs Let_def split: option.splits)

lemma open_creates_inv:
  assumes "gsys_inv environ nm s" and "gs_handle s p = None" and "alive (int p) (gs_os s)" and "good_args (open_args nm n False)"
    and "os_shm (gs_os s) (px nm) = None"
  shows "\<exists>g os'. GuardedSharedMemory_new environ p (open_args nm n False) quiet_init (gs_os s) = (Inr g, os') \<and>
    gsys_inv environ nm (s\<lparr>gs_os := os', gs_handle := (gs_handle s)(p \<mapsto> g)\<rparr>)"
proof -
  let ?a = "open_args nm n False" and ?os = "gs_os s" and ?d = "pdir environ nm"
  have a: "good_args ?a" "1 \<le> a_max_attempts ?a" "\<not> a_attach_only ?a" "os_shm ?os (posix_of ?a) = None"
    using assms(4,5) by (simp_all add: gsm_args_of_def)
  let ?g = "handle_of environ p ?a (os_next_fd ?os) (os_next_ino ?os) n True"
  let ?o = "?os\<lparr>os_shm := (os_shm ?os)(px nm \<mapsto> os_next_ino ?os),
    os_ino := (os_ino ?os)(os_next_ino ?os := replicate (nat n) 0), os_next_ino := Suc (os_next_ino ?os),
    os_fds := (os_fds ?os)(os_next_fd ?os \<mapsto> os_next_ino ?os), os_next_fd := Suc (os_next_fd ?os)\<rparr>"
  have i: "GuardedSharedMemory_new environ p ?a quiet_init ?os = (Inr ?g, add_pid ?d p ?o)"
    using new_creates [OF a, of environ p] by (simp add: gsm_args_of_def)
  have wf: "os_wf ?o" using assms(1) by (auto simp: gsys_inv_def os_wf_def less_Suc_eq)
  have none: "gs_handle s q = None" for q
    using handles_okD [OF assms(1), of q] assms(5) by (cases "gs_handle s q") (auto simp: handle_ok_def)
  from add_pid_files [of ?d p ?o] obtain fs' where fs': "os_dirs (add_pid ?d p ?o) ?d = Some fs'"
    "set fs' = insert (str_nat p) (case os_dirs ?os ?d of None \<Rightarrow> {} | Some fs \<Rightarrow> set fs)" by auto
  have "alive (int p) (add_pid ?d p ?o)" using assms(3) by (simp add: alive_def)
  then have "handle_ok environ nm (add_pid ?d p ?o) p ?g"
    using assms(4) fs' by (simp add: handle_ok_def handle_of_def gsm_args_of_def good_args_def)
  with open_ok_inv [OF assms(1) add_pid_wf [OF wf] _ fs'] none i show ?thesis by simp
qed

lemma open_attaches_inv:
  assumes "gsys_inv environ nm s" and "gs_handle s p = None" and "alive (int p) (gs_os s)" and "good_args (open_args nm n ao)"
    and "os_shm (gs_os s) (px nm) = Some ino" and "n \<le> int (length (os_ino (gs_os s) ino))"
  shows "\<exists>g os'. GuardedSharedMemory_new environ p (open_args nm n ao) quiet_init (gs_os s) = (Inr g, os') \<and>
    gsys_inv environ nm (s\<lparr>gs_os := os', gs_handle := (gs_handle s)(p \<mapsto> g)\<rparr>)"
proof -
  let ?a = "open_args nm n ao" and ?os = "gs_os s" and ?d = "pdir environ nm"
  have a: "good_args ?a" "1 \<le> a_max_attempts ?a" "os_shm ?os (posix_of ?a) = Some ino"
    "a_size ?a \<le> int (length (os_ino ?os ino))"
    using assms(4-6) by (simp_all add: gsm_args_of_def)
  let ?g = "handle_of environ p ?a (os_next_fd ?os) ino (int (length (os_ino ?os ino))) False"
  let ?o = "?os\<lparr>os_fds := (os_fds ?os)(os_next_fd ?os \<mapsto> ino), os_next_fd := Suc (os_next_fd ?os)\<rparr>"
  have i: "GuardedSharedMemory_new environ p ?a quiet_init ?os = (Inr ?g, add_pid ?d p ?o)"
    using new_attaches [OF a, of environ p] by (simp add: gsm_args_of_def)
  have os: "os_wf ?os" using assms(1) by (simp add: gsys_inv_def)
  then have wf: "os_wf ?o" using assms(5) by (auto simp: os_wf_def less_Suc_eq)
  from add_pid_files [of ?d p ?o] obtain fs' where fs': "os_dirs (add_pid ?d p ?o) ?d = Some fs'"
    "set fs' = insert (str_nat p) (case os_dirs ?os ?d of None \<Rightarrow> {} | Some fs \<Rightarrow> set fs)" by auto
  have al: "alive q (add_pid ?d p ?o) = alive q ?os" for q by (simp add: alive_def)
  have "handle_ok environ nm (add_pid ?d p ?o) p ?g"
    using assms(3,5) fs' al by (simp add: handle_ok_def handle_of_def gsm_args_of_def)
  moreover have "handle_ok environ nm (add_pid ?d p ?o) q h \<and> g_fd h \<noteq> g_fd ?g" if "gs_handle s q = Some h" for q h
  proof -
    have ok: "handle_ok environ nm ?os q h" using handles_okD [OF assms(1) that] .
    then obtain fd where fd: "g_fd h = Some fd" "os_fds ?os fd \<noteq> None" by (auto simp: handle_ok_def)
    then have "fd \<noteq> os_next_fd ?os" using os by (auto simp: os_wf_def)
    then have "os_fds (add_pid ?d p ?o) fd = os_fds ?os fd" by simp
    moreover have "\<exists>fs'. os_dirs (add_pid ?d p ?o) ?d = Some fs' \<and> str_nat q \<in> set fs'"
      if "os_dirs ?os ?d = Some fs" "str_nat q \<in> set fs" for fs using that fs' by auto
    ultimately have "handle_ok environ nm (add_pid ?d p ?o) q h"
      using fd(1) al by (intro handle_ok_frame [OF ok]) auto
    then show ?thesis using fd(1) \<open>fd \<noteq> os_next_fd ?os\<close> by (simp add: handle_of_def)
  qed
  ultimately show ?thesis using open_ok_inv [OF assms(1) add_pid_wf [OF wf] _ fs'] i by simp
qed

section \<open>Closing, writing and dying\<close>

lemma without_fd_simps [simp]:
  "os_shm (without_fd g s) = os_shm s" "os_ino (without_fd g s) = os_ino s" "os_dirs (without_fd g s) = os_dirs s"
  "os_kill (without_fd g s) = os_kill s" "g_fd g \<noteq> Some fd \<Longrightarrow> os_fds (without_fd g s) fd = os_fds s fd"
  by (auto simp: without_fd_def os_close_def split: option.splits)

lemma live_files_mem:
  "fn \<in> set (live_files g fs s) \<longleftrightarrow> fn \<in> set fs \<and> fn \<noteq> str_nat (g_pid g) \<and> (isdigit fn \<longrightarrow> alive (pid_of fn) s)"
  by (auto simp: live_files_def)

lemma files_ok_live:
  assumes "files_ok environ nm s hs" and "os_dirs s (pdir environ nm) = Some fs" and "g_pid g = p"
    and "os_dirs s' (pdir environ nm) \<in> {None, Some (live_files g fs s)}" and "os_kill s' = os_kill s"
  shows "files_ok environ nm s' (hs(p := None))"
proof -
  have "file_ok s' (hs(p := None)) fn" if "fn \<in> set (live_files g fs s)" for fn
    using that assms(1-3) file_ok_kill [OF assms(5)] file_ok_upd(2) [of s hs fn p]
    by (auto simp: files_ok_def live_files_mem)
  then show ?thesis using assms(4) by (auto simp: files_ok_def)
qed

lemma close_shared_inv:
  assumes inv: "gsys_inv environ nm s" and pid: "g_pid g = p"
    and fds: "\<And>q h. gs_handle s q = Some h \<Longrightarrow> q \<noteq> p \<Longrightarrow> g_fd g \<noteq> g_fd h"
    and fs: "os_dirs (gs_os s) (pdir environ nm) = Some fs" and al: "others_alive g fs (gs_os s)" and wf: "os_wf os'"
    and os': "os' = without_fd g ((gs_os s)\<lparr>os_dirs := (os_dirs (gs_os s))(pdir environ nm \<mapsto> live_files g fs (gs_os s))\<rparr>)"
  shows "gsys_inv environ nm (s\<lparr>gs_os := os', gs_handle := (gs_handle s)(p := None)\<rparr>)"
proof -
  let ?os = "gs_os s" and ?hs = "(gs_handle s)(p := None)"
  have "handle_ok environ nm os' q h" if q: "gs_handle s q = Some h" "q \<noteq> p" for q h
  proof -
    have hok: "handle_ok environ nm ?os q h" using handles_okD [OF inv q(1)] .
    have "g_fd g \<noteq> g_fd h" using fds [OF q] .
    moreover have "str_nat q \<in> set (live_files g fs ?os)"
      using hok pid fs q(2) by (auto simp: live_files_mem handle_ok_def str_nat_inj)
    ultimately show ?thesis using fs by (intro handle_ok_frame [OF hok]) (auto simp: os' alive_def)
  qed
  then have "handles_ok environ nm os' ?hs" by (rule handles_ok_upd)
  moreover have "files_ok environ nm os' ?hs"
    by (rule files_ok_live [OF _ fs]) (use inv pid in \<open>auto simp: gsys_inv_def handle_ok_def os'\<close>)
  moreover have "\<exists>q. ?hs q \<noteq> None"
  proof -
    from al obtain fn where fn: "fn \<in> set fs" "pid_of fn \<noteq> int (g_pid g)" "alive (pid_of fn) ?os"
      by (auto simp: others_alive_def)
    with inv fs have "file_ok ?os (gs_handle s) fn" by (simp add: gsys_inv_def files_ok_def)
    then obtain q where q: "fn = str_nat q" "gs_handle s q \<noteq> None" using fn(3) by (auto simp: file_ok_def)
    have "q \<noteq> p" using fn(2) q(1) pid by auto
    then show ?thesis using q(2) by (intro exI [of _ q]) simp
  qed
  moreover have "fds_distinct ?hs" using inv by (intro fds_distinct_upd) (simp add: gsys_inv_def)
  ultimately show ?thesis using wf by (simp add: gsys_inv_def)
qed

lemma close_last_inv:
  assumes inv: "gsys_inv environ nm s" and pid: "g_pid g = p"
    and fs: "os_dirs (gs_os s) (pdir environ nm) = Some fs" and al: "\<not> others_alive g fs (gs_os s)"
    and wf: "os_wf os'" and shm: "os_shm os' = (os_shm (gs_os s))(px nm := None)" and k: "os_kill os' = os_kill (gs_os s)"
    and dirs: "os_dirs os' (pdir environ nm) \<in> {None, Some (live_files g fs (gs_os s))}"
  shows "gsys_inv environ nm (s\<lparr>gs_os := os', gs_handle := (gs_handle s)(p := None)\<rparr>)"
proof -
  let ?os = "gs_os s"
  have "gs_handle s q = None" if "q \<noteq> p" for q
  proof (rule ccontr)
    assume "gs_handle s q \<noteq> None"
    then obtain h where h: "gs_handle s q = Some h" by blast
    have "str_nat q \<in> set fs" "alive (int q) ?os" "g_pid g = p"
      using handles_okD [OF inv h] pid fs by (auto simp: handle_ok_def)
    then show False using al that by (force simp: others_alive_def)
  qed
  then have none: "(gs_handle s)(p := None) = (\<lambda>q. None)" by auto
  have "files_ok environ nm os' ((gs_handle s)(p := None))"
    by (rule files_ok_live [OF _ fs _ dirs k]) (use inv pid in \<open>auto simp: gsys_inv_def handle_ok_def\<close>)
  then show ?thesis using wf shm by (simp add: gsys_inv_def none handles_ok_def fds_distinct_def)
qed

text \<open>The finaliser of a constructor that raised, in a process without a handle.\<close>

lemma finalised_inv:
  assumes inv: "gsys_inv environ nm s" and p: "gs_handle s p = None"
    and fs: "os_dirs (gs_os s) (pdir environ nm) = Some fs"
  shows "gsys_inv environ nm (s\<lparr>gs_os := finalised (gsm_half_built environ p (open_args nm n ao)) (gs_os s)\<rparr>)"
proof -
  let ?h = "gsm_half_built environ p (open_args nm n ao)" and ?os = "gs_os s"
  have h: "g_pid ?h = p" "g_fd ?h = None" "g_pdir ?h = pdir environ nm" "g_posix_name ?h = px nm" "g_try_cleanup ?h"
    by (simp_all add: gsm_half_built_def gsm_args_of_def)
  have none: "(gs_handle s)(p := None) = gs_handle s" using p by auto
  have wf: "os_wf (finalised ?h ?os)" using inv finalised_wf by (simp add: gsys_inv_def)
  show ?thesis
  proof (cases "others_alive ?h fs ?os")
    case True
    have fds: "g_fd ?h \<noteq> g_fd g" if "gs_handle s q = Some g" for q g
      using handles_okD [OF inv that] h(2) by (auto simp: handle_ok_def)
    have "finalised ?h ?os = without_fd ?h (?os\<lparr>os_dirs := (os_dirs ?os)(pdir environ nm \<mapsto> live_files ?h fs ?os)\<rparr>)"
      using True fs h by (simp add: finalised_def without_fd_def Let_def)
    from close_shared_inv [OF inv h(1) fds fs True wf this] show ?thesis by (simp add: none)
  next
    case False
    have "gsys_inv environ nm (s\<lparr>gs_os := finalised ?h ?os, gs_handle := (gs_handle s)(p := None)\<rparr>)"
      by (rule close_last_inv [OF inv h(1) fs False wf]) (use False fs h in \<open>auto simp: finalised_def os_rmdir_def Let_def\<close>)
    then show ?thesis by (simp add: none)
  qed
qed

lemma open_inv:
  assumes "gsys_inv environ nm s" and "gsys_exec environ nm (GOpen p n ao) s = Some s'"
  shows "gsys_inv environ nm s'"
proof -
  let ?a = "open_args nm n ao" and ?os = "gs_os s" and ?d = "pdir environ nm"
    and ?h = "gsm_half_built environ p (open_args nm n ao)"
  have p: "gs_handle s p = None" "alive (int p) ?os" using assms(2) by (auto split: if_splits)
  have wf: "os_wf ?os" using assms(1) by (simp add: gsys_inv_def)
  note fail = open_fail_inv [OF assms(1)]
  have fld: "posix_of ?a = px nm" "a_size ?a = n" "1 \<le> a_max_attempts ?a" "a_attach_only ?a = ao"
    "pdir_of environ (a_pid_dir ?a) (a_name ?a) = ?d" by (simp_all add: gsm_args_of_def)
  consider "\<not> good_args ?a" | "good_args ?a" "os_shm ?os (px nm) = None" "ao" | "good_args ?a" "os_shm ?os (px nm) = None" "\<not> ao"
    | ino where "good_args ?a" "os_shm ?os (px nm) = Some ino" "n \<le> int (length (os_ino ?os ino))"
    | ino where "good_args ?a" "os_shm ?os (px nm) = Some ino" "int (length (os_ino ?os ino)) < n"
    by (cases "os_shm ?os (px nm)") (metis linorder_not_le)+
  then show ?thesis
  proof cases
    case 1
    then show ?thesis using assms p new_bad_args [of ?a environ p quiet_init ?os] by auto
  next
    case 2
    let ?o = "os_makedirs ?d ?os"
    obtain fs where fs: "os_dirs ?o ?d = Some fs" using makedirs_dir by blast
    have "GuardedSharedMemory_new environ p ?a quiet_init ?os = (Inl NoShmFoundError, finalised ?h ?o)"
      using new_absent [OF 2(1), of ?os environ p] 2 fld by simp
    moreover have "gsys_inv environ nm (s\<lparr>gs_os := ?o\<rparr>)" using fail [of ?o] makedirs.act_wf [OF wf] by simp
    from finalised_inv [OF this, where p = p and fs = fs and n = n and ao = ao] fs have "gsys_inv environ nm (s\<lparr>gs_os := finalised ?h ?o\<rparr>)"
      using p(1) by simp
    ultimately show ?thesis using assms(2) p by auto
  next
    case 3
    then show ?thesis using open_creates_inv [OF assms(1) p, of n] assms(2) p by auto
  next
    case (4 ino)
    then show ?thesis using open_attaches_inv [OF assms(1) p 4] assms(2) p by auto
  next
    case (5 ino)
    let ?o = "(os_makedirs ?d ?os)\<lparr>os_next_fd := os_next_fd ?os + nat (a_max_attempts ?a)\<rparr>"
    obtain fs where fs: "os_dirs ?o ?d = Some fs" using makedirs_dir [of ?d ?os] by auto
    have "GuardedSharedMemory_new environ p ?a quiet_init ?os = (Inl RuntimeError, finalised ?h ?o)"
      using new_too_small [OF 5(1), of ?os ino environ p] 5 fld wf by simp
    moreover have "os_wf ?o" using makedirs.act_wf [OF wf, of ?d] os_wf_next_fd [of "os_makedirs ?d ?os"] by simp
    then have "gsys_inv environ nm (s\<lparr>gs_os := ?o\<rparr>)" using fail [of ?o] by simp
    from finalised_inv [OF this, where p = p and fs = fs and n = n and ao = ao] fs have "gsys_inv environ nm (s\<lparr>gs_os := finalised ?h ?o\<rparr>)"
      using p(1) by simp
    ultimately show ?thesis using assms(2) p by auto
  qed
qed

lemma close_inv:
  assumes "gsys_inv environ nm s" and "gsys_exec environ nm (GClose p) s = Some s'"
  shows "gsys_inv environ nm s'"
proof -
  let ?os = "gs_os s"
  from assms(2) obtain g where g: "gs_handle s p = Some g" by (auto split: option.splits)
  have ok: "handle_ok environ nm ?os p g" using handles_okD [OF assms(1) g] .
  then obtain fs where fs: "os_dirs ?os (g_pdir g) = Some fs" by (auto simp: handle_ok_def)
  have h: "\<not> g_closed g" "\<not> g_unlinked g" "g_pdir g = pdir environ nm" "g_posix_name g = px nm"
    using ok by (auto simp: handle_ok_def)
  have pid: "g_pid g = p" using ok by (simp add: handle_ok_def)
  have fds: "g_fd g \<noteq> g_fd h" if "gs_handle s q = Some h" "q \<noteq> p" for q h
    using fds_distinctD [OF assms(1) g that(1)] that(2) by simp
  have wf: "os_wf (snd (snd (gsm_close quiet_close g ?os)))"
    using gsm_close_wf [OF quiet_keeps_wf(2)] assms(1) by (simp add: gsys_inv_def)
  show ?thesis
  proof (cases "others_alive g fs ?os")
    case True
    note c = close_shared [OF h(1) fs True]
    from close_shared_inv [OF assms(1) pid fds _ True _ refl] fs h(3) wf c assms(2) g show ?thesis by auto
  next
    case False
    note c = close_last [OF h(1,2) fs False]
    let ?o = "without_fd g (os_rmdir (g_pdir g)
      (?os\<lparr>os_dirs := (os_dirs ?os)(g_pdir g \<mapsto> live_files g fs ?os), os_shm := (os_shm ?os)(g_posix_name g := None)\<rparr>))"
    have "gsys_inv environ nm (s\<lparr>gs_os := ?o, gs_handle := (gs_handle s)(p := None)\<rparr>)"
      by (rule close_last_inv [OF assms(1) pid _ False]) (use fs h wf c in \<open>auto simp: os_rmdir_def\<close>)
    then show ?thesis using c assms(2) g by auto
  qed
qed

lemma write_inv:
  assumes "gsys_inv environ nm s" and "gsys_exec environ nm (GWrite p b) s = Some s'"
  shows "gsys_inv environ nm s'"
proof -
  from assms(2) obtain ino where len: "length b = length (os_ino (gs_os s) ino)"
    and s': "s' = s\<lparr>gs_os := (gs_os s)\<lparr>os_ino := (os_ino (gs_os s))(ino := b)\<rparr>\<rparr>"
    by (auto split: option.splits sum.splits if_splits)
  have al: "alive q (gs_os s') = alive q (gs_os s)" for q by (simp add: s' alive_def)
  have "handle_ok environ nm (gs_os s') q h" if "gs_handle s q = Some h" for q h
    by (rule handle_ok_frame [OF handles_okD [OF assms(1) that]]) (auto simp: s' len alive_def)
  then have "handles_ok environ nm (gs_os s') (gs_handle s)" by (simp add: handles_ok_def)
  moreover have "files_ok environ nm (gs_os s') (gs_handle s)" "crash_left environ nm (gs_os s') = crash_left environ nm (gs_os s)"
    using assms(1) al by (simp_all add: gsys_inv_def files_ok_def file_ok_def crash_left_def s')
  moreover have "os_wf (gs_os s')" using assms(1) by (simp add: gsys_inv_def os_wf_def s')
  ultimately show ?thesis using assms(1) by (simp add: gsys_inv_def s')
qed

lemma die_inv:
  assumes inv: "gsys_inv environ nm s" and "gsys_exec environ nm (GDie p) s = Some s'"
  shows "gsys_inv environ nm s'"
proof -
  let ?os = "gs_os s" and ?hs = "(gs_handle s)(p := None)"
  define os' where "os' = (case gs_handle s p of None \<Rightarrow> kill_process p ?os | Some g \<Rightarrow> without_fd g (kill_process p ?os))"
  have s': "s' = s\<lparr>gs_os := os', gs_handle := ?hs\<rparr>" using assms(2) by (simp add: os'_def Let_def)
  have same: "os_shm os' = os_shm ?os" "os_ino os' = os_ino ?os" "os_dirs os' = os_dirs ?os"
    by (auto simp: os'_def kill_process_def split: option.splits)
  have al: "alive (int q) os' \<longleftrightarrow> q \<noteq> p \<and> alive (int q) ?os" for q
    by (auto simp: os'_def alive_def kill_process_def split: option.splits)
  have "os_wf (kill_process p ?os)" using inv by (simp add: gsys_inv_def os_wf_def kill_process_def)
  then have wf: "os_wf os'" by (auto simp: os'_def without_fd_def split: option.splits intro: close_fd.act_wf)
  have "handle_ok environ nm os' q h" if q: "gs_handle s q = Some h" "q \<noteq> p" for q h
  proof -
    have "g_fd g \<noteq> g_fd h" if "gs_handle s p = Some g" for g using fds_distinctD [OF inv that q(1)] q(2) by simp
    then have "os_fds os' fd = os_fds ?os fd" if "g_fd h = Some fd" for fd
      using that by (auto simp: os'_def kill_process_def split: option.splits)
    then show ?thesis using q(2) by (intro handle_ok_frame [OF handles_okD [OF inv q(1)]]) (auto simp: same al)
  qed
  then have "handles_ok environ nm os' ?hs" by (rule handles_ok_upd)
  moreover have "files_ok environ nm os' ?hs"
    using inv unfolding gsys_inv_def files_ok_def file_ok_def same al by (metis fun_upd_other)
  moreover have "fds_distinct ?hs" using inv by (intro fds_distinct_upd) (simp add: gsys_inv_def)
  moreover have "(\<exists>q. ?hs q \<noteq> None) \<or> crash_left environ nm os'" if lnk: "os_shm ?os (px nm) \<noteq> None"
  proof -
    consider q where "q \<noteq> p" "gs_handle s q \<noteq> None" | g where "gs_handle s p = Some g" | "crash_left environ nm ?os"
      using linkedD [OF inv lnk] by (metis not_None_eq)
    then show ?thesis
    proof cases
      case (1 q)
      then show ?thesis by (intro disjI1 exI [of _ q]) simp
    next
      case (2 g)
      with handles_okD [OF inv 2] show ?thesis by (auto simp: crash_left_def handle_ok_def same al)
    next
      case 3
      then show ?thesis by (auto simp: crash_left_def same al)
    qed
  qed
  ultimately show ?thesis using wf same by (simp add: gsys_inv_def s')
qed

text \<open>The interface of a system of users of one name: opening, closing, writing and dying keep the invariant.\<close>

lemma gsys_exec_inv:
  assumes "gsys_inv environ nm s" and "gsys_exec environ nm e s = Some s'"
  shows "gsys_inv environ nm s'"
proof (cases e)
  case (GOpen p n ao)
  with assms show ?thesis using open_inv by blast
next
  case (GClose p)
  with assms show ?thesis using close_inv by blast
next
  case (GWrite p b)
  with assms show ?thesis using write_inv by blast
next
  case (GDie p)
  with assms show ?thesis using die_inv by blast
qed

interpretation users: inductive_invariant "gsys_init environ nm" "gsys_step environ nm" "gsys_inv environ nm"
  for environ nm
proof unfold_locales
  show "gsys_inv environ nm s" if "gsys_init environ nm s" for s
    using that by (simp add: gsys_init_def gsys_inv_def handles_ok_def fds_distinct_def files_ok_def)
  show "gsys_inv environ nm s'" if "gsys_inv environ nm s" and "gsys_step environ nm s s'" for s s'
    using that gsys_exec_inv by (auto elim: gsys_stepE)
qed

section \<open>Properties\<close>

definition gsys_start :: gsys where
  "gsys_start = \<lparr>gs_os = os_empty, gs_handle = (\<lambda>p. None)\<rparr>"

lemma gsys_start_init: "gsys_init environ nm gsys_start"
  by (simp add: gsys_init_def gsys_start_def os_empty_wf) (simp add: os_empty_def)

text \<open>Two processes with a handle each.\<close>

lemma two_users:
  "\<exists>s g h. reach (gsys_init None ''demo'') (gsys_step None ''demo'') s \<and>
    gs_handle s = (\<lambda>p. None)(7 \<mapsto> g, 8 \<mapsto> h)"
proof -
  let ?a = "open_args ''demo'' 64 False"
  have a: "good_args ?a" "1 \<le> a_max_attempts ?a" "\<not> a_attach_only ?a" "posix_of ?a = px ''demo''" "a_size ?a = 64"
    by (simp_all add: good_args_def gsm_args_of_def)
  have e: "os_shm os_empty (posix_of ?a) = None" "os_next_ino os_empty = 0" "os_kill os_empty = (\<lambda>p. None)"
    by (simp_all add: os_empty_def)
  from new_creates [OF a(1-3) e(1), of None 7] a(4,5) e obtain g os1 where
    o1: "GuardedSharedMemory_new None 7 ?a quiet_init os_empty = (Inr g, os1)"
    "os_shm os1 (px ''demo'') = Some 0" "length (os_ino os1 0) = 64" "os_kill os1 = (\<lambda>p. None)" by auto
  have "os_shm os1 (posix_of ?a) = Some 0" "a_size ?a \<le> int (length (os_ino os1 0))" using o1(2,3) a(4,5) by simp_all
  from new_attaches [OF a(1,2) this, of None 8] obtain h os2 where
    o2: "GuardedSharedMemory_new None 8 ?a quiet_init os1 = (Inr h, os2)" by blast
  let ?s1 = "\<lparr>gs_os = os1, gs_handle = (\<lambda>p. None)(7 \<mapsto> g)\<rparr>"
  let ?s2 = "\<lparr>gs_os = os2, gs_handle = (\<lambda>p. None)(7 \<mapsto> g, 8 \<mapsto> h)\<rparr>"
  have "gsys_exec None ''demo'' (GOpen 7 64 False) gsys_start = Some ?s1"
    using o1(1) e(3) by (simp add: gsys_start_def alive_def)
  moreover have "gsys_exec None ''demo'' (GOpen 8 64 False) ?s1 = Some ?s2"
    using o2 o1(4) by (simp add: alive_def)
  ultimately have r: "reach (gsys_init None ''demo'') (gsys_step None ''demo'') ?s2"
    by (meson reach_init reach_step gsys_stepI gsys_start_init)
  then show ?thesis by (intro exI [of _ ?s2]) auto
qed

text \<open>
  C8. Users of one name share one segment, under these restrictions: a process has at most one handle on the name, the
  calls of different processes do not overlap, no system call fails, and the id of a dead process is not used
  again. (Without the first two, a user does lose the segment: \<open>gsm_two_handles_one_process\<close> and
  \<open>gsm_close_attach_race\<close>.) Then processes may open, with a constructor that may raise and be finalised, write,
  close and die in any order: in every reachable state each open handle is registered in the PID directory and
  maps, at its full size, the segment that the name is linked to, so all users see the same one. When no handle
  is open, the name is linked only if some process died without closing and its PID file is still there.
\<close>

theorem gsm_users_share_segment:
  assumes "reach (gsys_init environ nm) (gsys_step environ nm) s"
  shows "(\<forall>p g. gs_handle s p = Some g \<longrightarrow>
      (\<exists>ino fs. gsm_buf g = Inr ino \<and> os_shm (gs_os s) (px nm) = Some ino \<and>
        g_size g = int (length (os_ino (gs_os s) ino)) \<and> os_dirs (gs_os s) (pdir environ nm) = Some fs \<and>
        str_nat p \<in> set fs)) \<and>
    ((\<forall>p. gs_handle s p = None) \<and> os_shm (gs_os s) (px nm) \<noteq> None \<longrightarrow>
      (\<exists>fs q. os_dirs (gs_os s) (pdir environ nm) = Some fs \<and> str_nat q \<in> set fs \<and> \<not> alive (int q) (gs_os s)))"
proof -
  have inv: "gsys_inv environ nm s" using users.reach_inv [OF assms] .
  have "crash_left environ nm (gs_os s)" if "\<forall>p. gs_handle s p = None" "os_shm (gs_os s) (px nm) \<noteq> None"
    using that linkedD [OF inv that(2)] by simp
  moreover have "\<exists>ino fs. gsm_buf g = Inr ino \<and> os_shm (gs_os s) (px nm) = Some ino \<and>
      g_size g = int (length (os_ino (gs_os s) ino)) \<and> os_dirs (gs_os s) (pdir environ nm) = Some fs \<and> str_nat p \<in> set fs"
    if "gs_handle s p = Some g" for p g
    using handles_okD [OF inv that] by (auto simp: handle_ok_def gsm_buf_def)
  ultimately show ?thesis unfolding crash_left_def by blast
qed

theorem gsm_users_share_segment_witness:
  "\<exists>s g h ino. reach (gsys_init None ''demo'') (gsys_step None ''demo'') s \<and> gs_handle s 7 = Some g \<and>
    gs_handle s 8 = Some h \<and> gsm_buf g = Inr ino \<and> gsm_buf h = Inr ino"
proof -
  obtain s g h where r: "reach (gsys_init None ''demo'') (gsys_step None ''demo'') s"
    and h: "gs_handle s = (\<lambda>p. None)(7 \<mapsto> g, 8 \<mapsto> h)" using two_users by blast
  note all = gsm_users_share_segment [OF r, THEN conjunct1, rule_format]
  have "\<exists>ino. gsm_buf g = Inr ino \<and> gsm_buf h = Inr ino"
    using all [of 7 g] all [of 8 h] h by auto
  with r h show ?thesis by (intro exI [of _ s]) auto
qed

text \<open>
  C15. \<open>get_num_procs\<close> counts the processes that have the segment open and those that died without
  closing it. With at most one handle of a process on the name, calls that do not overlap, no failing system call
  and no id used again, as before: in every reachable state, an open handle reports exactly the number of open handles plus
  the number of PID files of dead processes; after its clean-up of dead PIDs, exactly the number of open
  handles.
\<close>

theorem gsm_num_procs_counts_users:
  assumes "reach (gsys_init environ nm) (gsys_step environ nm) s" and "gs_handle s p = Some g"
  shows "\<exists>fs. os_dirs (gs_os s) (pdir environ nm) = Some fs \<and>
    get_num_procs g (gs_os s) = int (card {q. gs_handle s q \<noteq> None}) +
      int (card {q. str_nat q \<in> set fs \<and> \<not> alive (int q) (gs_os s)}) \<and>
    get_num_procs g (cleanup_dead_pids g (gs_os s)) = int (card {q. gs_handle s q \<noteq> None})"
proof -
  let ?U = "{q. gs_handle s q \<noteq> None}" and ?al = "\<lambda>q. alive (int q) (gs_os s)"
  have inv: "gsys_inv environ nm s" using users.reach_inv [OF assms(1)] .
  have ok: "handle_ok environ nm (gs_os s) q h" if "gs_handle s q = Some h" for q h using handles_okD [OF inv that] .
  from ok [OF assms(2)] obtain fs where d: "os_dirs (gs_os s) (pdir environ nm) = Some fs" and g: "g_pdir g = pdir environ nm"
    by (auto simp: handle_ok_def)
  let ?D = "{q. str_nat q \<in> set fs \<and> \<not> ?al q}"
  have "distinct fs" using inv d by (auto simp: gsys_inv_def os_wf_def)
  have users: "?al q \<and> str_nat q \<in> set fs" if "gs_handle s q \<noteq> None" for q
    using ok [of q] that d by (auto simp: handle_ok_def)
  have files: "\<exists>q. fn = str_nat q \<and> (?al q \<longrightarrow> gs_handle s q \<noteq> None)" if "fn \<in> set fs" for fn
    using inv d that by (auto simp: gsys_inv_def files_ok_def file_ok_def)
  have set_fs: "set fs = str_nat ` (?U \<union> ?D)"
  proof
    show "set fs \<subseteq> str_nat ` (?U \<union> ?D)" using files by fast
    show "str_nat ` (?U \<union> ?D) \<subseteq> set fs" using users by auto
  qed
  have inj: "inj_on str_nat A" for A by (simp add: inj_on_def str_nat_inj)
  have fin: "finite (?U \<union> ?D)" using set_fs finite_imageD [OF _ inj, of "?U \<union> ?D"] by (metis List.finite_set)
  have "?U \<inter> ?D = {}" using users by blast
  then have "card (?U \<union> ?D) = card ?U + card ?D" using fin by (simp add: card_Un_disjoint)
  moreover have "length fs = card (?U \<union> ?D)"
    using distinct_card [OF \<open>distinct fs\<close>] set_fs card_image [OF inj, of "?U \<union> ?D"] by simp
  ultimately have num: "get_num_procs g (gs_os s) = int (card ?U) + int (card ?D)" by (simp add: get_num_procs_def g d)
  let ?fs' = "filter (\<lambda>fn. \<not> (isdigit fn \<and> \<not> alive (pid_of fn) (gs_os s))) fs"
  have "set ?fs' = str_nat ` ?U"
  proof
    show "set ?fs' \<subseteq> str_nat ` ?U"
    proof
      fix fn assume a: "fn \<in> set ?fs'"
      then have "fn \<in> set fs" by simp
      from files [OF this] obtain q where "fn = str_nat q" "?al q \<longrightarrow> gs_handle s q \<noteq> None" by blast
      with a show "fn \<in> str_nat ` ?U" by auto
    qed
    show "str_nat ` ?U \<subseteq> set ?fs'" using users by auto
  qed
  then have "length ?fs' = card ?U"
    using distinct_card [OF distinct_filter [OF \<open>distinct fs\<close>]] card_image [OF inj, of ?U] by metis
  then have "get_num_procs g (cleanup_dead_pids g (gs_os s)) = int (card ?U)"
    by (simp add: get_num_procs_def cleanup_dead_pids_def g d)
  with num d show ?thesis by blast
qed

theorem gsm_num_procs_counts_users_witness:
  "\<exists>s g. reach (gsys_init None ''demo'') (gsys_step None ''demo'') s \<and> gs_handle s 7 = Some g \<and>
    get_num_procs g (cleanup_dead_pids g (gs_os s)) = 2"
proof -
  obtain s g h where r: "reach (gsys_init None ''demo'') (gsys_step None ''demo'') s"
    and h: "gs_handle s = (\<lambda>p. None)(7 \<mapsto> g, 8 \<mapsto> h)" using two_users by blast
  have "gs_handle s 7 = Some g" using h by simp
  moreover have "{q. gs_handle s q \<noteq> None} = {7, 8}" using h by auto
  ultimately show ?thesis using gsm_num_procs_counts_users [OF r, of 7 g] r by (intro exI [of _ s] exI [of _ g]) auto
qed

end
