(* ===== verification/Loader.thy ===== *)
theory Loader
  imports Prelude
begin

text \<open>
  \<open>_load_posix_shm_lib\<close> of \<open>guarded_shared_memory.py\<close>: the search for a library that
  exports \<open>shm_open\<close> and \<open>shm_unlink\<close>. The dynamic loader and
  \<open>ctypes.util.find_library\<close> are parameters: \<open>dlopen\<close> gives the names that a library
  exports, or \<open>None\<close> where loading raises \<open>OSError\<close>, and \<open>find_library\<close> gives the
  file name of a library, or \<open>None\<close>.

  An object of class \<open>CDLL\<close> has no equality of its own: \<open>in\<close> compares identities, so a
  handle carries the identity of its object.
\<close>

section \<open>Library handles\<close>

record CDLL =
  lib_id :: nat
  lib_name :: "string option"
  lib_exports :: "string list"

type_synonym loader = "string option \<Rightarrow> string list option"

definition open_lib :: "loader \<Rightarrow> string option \<Rightarrow> nat \<Rightarrow> (CDLL \<times> nat) option" where
  \<comment> \<open>\<open>ctypes.CDLL(name)\<close>: a new object; the number is the identity of the next object\<close>
  "open_lib dlopen nm next_id =
     map_option (\<lambda>ex. (\<lparr>lib_id = next_id, lib_name = nm, lib_exports = ex\<rparr>, Suc next_id)) (dlopen nm)"

definition has_symbol :: "CDLL \<Rightarrow> string \<Rightarrow> bool" where
  \<comment> \<open>\<open>getattr(lib, nm, None)\<close> is a function pointer exactly for an exported name\<close>
  "has_symbol lib nm \<longleftrightarrow> nm \<in> set (lib_exports lib)"

definition lib_in :: "CDLL \<Rightarrow> CDLL list \<Rightarrow> bool" where
  "lib_in lib libs \<longleftrightarrow> list_ex (\<lambda>l. lib_id l = lib_id lib) libs"

definition exposes_shm :: "CDLL \<Rightarrow> bool" where
  "exposes_shm lib \<longleftrightarrow> has_symbol lib ''shm_open'' \<and> has_symbol lib ''shm_unlink''"

section \<open>The search\<close>

definition try_self :: "loader \<Rightarrow> CDLL list \<times> nat \<Rightarrow> CDLL list \<times> nat" where
  "try_self dlopen = (\<lambda>(candidates, k).
     case open_lib dlopen None k of
       None \<Rightarrow> (candidates, k)
     | Some (lib, k') \<Rightarrow> (candidates @ [lib], k'))"

definition try_librt :: "loader \<Rightarrow> (string \<Rightarrow> string option) \<Rightarrow> CDLL list \<times> nat \<Rightarrow> CDLL list \<times> nat" where
  "try_librt dlopen find_library = (\<lambda>(candidates, k).
     case find_library ''rt'' of
       None \<Rightarrow> (candidates, k)
     | Some librt \<Rightarrow>
         if librt = [] then (candidates, k)
         else (case open_lib dlopen (Some librt) k of
                 None \<Rightarrow> (candidates, k)
               | Some (lib, k') \<Rightarrow> (candidates @ [lib], k')))"

definition try_libc :: "loader \<Rightarrow> (string \<Rightarrow> string option) \<Rightarrow> CDLL list \<times> nat \<Rightarrow> CDLL list \<times> nat" where
  "try_libc dlopen find_library = (\<lambda>(candidates, k).
     case find_library ''c'' of
       None \<Rightarrow> (candidates, k)
     | Some libc \<Rightarrow>
         if libc = [] then (candidates, k)
         else (case open_lib dlopen (Some libc) k of
                 None \<Rightarrow> (candidates, k)
               | Some (lib, k') \<Rightarrow> (if lib_in lib candidates then candidates else candidates @ [lib], k')))"

definition load_posix_shm_lib :: "loader \<Rightarrow> (string \<Rightarrow> string option) \<Rightarrow> nat \<Rightarrow> CDLL res" where
  "load_posix_shm_lib dlopen find_library k =
     (let candidates = fst (try_libc dlopen find_library (try_librt dlopen find_library
                              (try_self dlopen ([], k))))
      in case find exposes_shm candidates of
           Some lib \<Rightarrow> Inr lib
         | None \<Rightarrow> Inl RuntimeError)"

section \<open>Reference definition\<close>

definition library_names :: "(string \<Rightarrow> string option) \<Rightarrow> string option list" where
  \<comment> \<open>the process itself, then \<open>librt\<close>, then \<open>libc\<close>, where they are found\<close>
  "library_names find_library =
     None # map Some (filter (\<lambda>p. p \<noteq> []) (List.map_filter find_library [''rt'', ''c'']))"

definition usable :: "loader \<Rightarrow> string option \<Rightarrow> bool" where
  "usable dlopen nm \<longleftrightarrow>
     (case dlopen nm of None \<Rightarrow> False | Some ex \<Rightarrow> ''shm_open'' \<in> set ex \<and> ''shm_unlink'' \<in> set ex)"

section \<open>Lemmas\<close>

text \<open>Opening the libraries of a list one after the other, each as a new object.\<close>

fun open_all :: "loader \<Rightarrow> string option list \<Rightarrow> CDLL list \<times> nat \<Rightarrow> CDLL list \<times> nat" where
  "open_all dlopen [] st = st"
| "open_all dlopen (nm # nms) (libs, k) =
     (case open_lib dlopen nm k of
        None \<Rightarrow> open_all dlopen nms (libs, k)
      | Some (lib, k') \<Rightarrow> open_all dlopen nms (libs @ [lib], k'))"

definition fresh_from :: "CDLL list \<times> nat \<Rightarrow> bool" where
  "fresh_from st \<longleftrightarrow> (\<forall>l \<in> set (fst st). lib_id l < snd st)"

lemma open_lib_fresh:
  assumes "open_lib dlopen nm k = Some (lib, k')" and "fresh_from (libs, k)"
  shows "\<not> lib_in lib libs" and "fresh_from (libs @ [lib], k')"
  using assms by (auto simp: open_lib_def fresh_from_def lib_in_def list_ex_iff)

lemma try_self_fresh: "fresh_from (try_self dlopen ([], k))"
  by (auto simp: try_self_def fresh_from_def open_lib_def split: option.splits)

lemma try_librt_fresh:
  assumes "fresh_from st"
  shows "fresh_from (try_librt dlopen find_library st)"
  using assms open_lib_fresh(2)
  by (cases st) (fastforce simp: try_librt_def split: option.splits)

text \<open>The duplicate test before \<open>libc\<close> is appended never finds a duplicate.\<close>

lemma try_libc_appends:
  assumes "fresh_from (libs, k)" and "find_library ''c'' = Some p" and "p \<noteq> []"
    and "open_lib dlopen (Some p) k = Some (lib, k')"
  shows "try_libc dlopen find_library (libs, k) = (libs @ [lib], k')"
  using assms open_lib_fresh(1) [OF assms(4,1)] by (simp add: try_libc_def)

lemma try_libc_open_all:
  assumes "fresh_from st"
  shows "try_libc dlopen find_library st =
    open_all dlopen (map Some (filter (\<lambda>p. p \<noteq> []) (List.map_filter find_library [''c'']))) st"
proof (cases st)
  case (Pair libs k)
  show ?thesis
    using assms try_libc_appends [of libs k find_library] unfolding Pair
    by (auto simp: try_libc_def List.map_filter_def split: option.splits)
qed

lemma try_librt_open_all:
  "try_librt dlopen find_library st =
    open_all dlopen (map Some (filter (\<lambda>p. p \<noteq> []) (List.map_filter find_library [''rt'']))) st"
  by (cases st) (auto simp: try_librt_def List.map_filter_def split: option.splits)

lemma try_self_open_all: "try_self dlopen st = open_all dlopen [None] st"
  by (cases st) (auto simp: try_self_def split: option.splits)

lemma open_all_append: "open_all dlopen (xs @ ys) st = open_all dlopen ys (open_all dlopen xs st)"
  by (induction dlopen xs st rule: open_all.induct) (auto split: option.splits)

lemma candidates_open_all:
  "try_libc dlopen find_library (try_librt dlopen find_library (try_self dlopen ([], k))) =
     open_all dlopen (library_names find_library) ([], k)"
proof -
  have n: "library_names find_library = [None] @
      map Some (filter (\<lambda>p. p \<noteq> []) (List.map_filter find_library [''rt''])) @
      map Some (filter (\<lambda>p. p \<noteq> []) (List.map_filter find_library [''c'']))"
    by (auto simp: library_names_def List.map_filter_def)
  show ?thesis
    unfolding n open_all_append try_self_open_all [symmetric] try_librt_open_all [symmetric]
    by (rule try_libc_open_all [OF try_librt_fresh [OF try_self_fresh]])
qed

lemma open_all_libs:
  "fst (open_all dlopen nms (libs, k)) = libs @ fst (open_all dlopen nms ([], k))"
proof (induction nms arbitrary: libs k)
  case (Cons nm nms)
  show ?case
  proof (cases "open_lib dlopen nm k")
    case None
    then show ?thesis using Cons.IH [of libs k] by simp
  next
    case (Some p)
    then show ?thesis using Cons.IH [of "libs @ [fst p]" "snd p"] Cons.IH [of "[fst p]" "snd p"]
      by (cases p) simp
  qed
qed simp

lemma find_open_all:
  "map_option lib_name (find exposes_shm (fst (open_all dlopen nms ([], k)))) = find (usable dlopen) nms"
proof (induction nms arbitrary: k)
  case (Cons nm nms)
  show ?case
  proof (cases "dlopen nm")
    case None
    then show ?thesis using Cons.IH [of k] by (simp add: open_lib_def usable_def)
  next
    case (Some ex)
    then show ?thesis
      using Cons.IH [of "Suc k"] open_all_libs [of dlopen nms "[\<lparr>lib_id = k, lib_name = nm, lib_exports = ex\<rparr>]" "Suc k"]
      by (simp add: open_lib_def usable_def exposes_shm_def has_symbol_def)
  qed
qed simp

lemma find_exposes: "find exposes_shm libs = Some lib \<Longrightarrow> exposes_shm lib"
  by (induction libs) (auto split: if_splits)

section \<open>Properties\<close>

text \<open>
  C39. The search is the search of a reference definition: among the process itself, \<open>librt\<close> and
  \<open>libc\<close>, in this order, it returns a handle on the first library that can be loaded and
  exports both functions, and it raises \<open>RuntimeError\<close> exactly when there is none. The test
  that is meant to skip a second handle on the C library has no influence.
\<close>

theorem shm_library_lookup:
  "(case load_posix_shm_lib dlopen find_library k of
      Inl ex \<Rightarrow> ex = RuntimeError \<and> find (usable dlopen) (library_names find_library) = None
    | Inr lib \<Rightarrow> find (usable dlopen) (library_names find_library) = Some (lib_name lib) \<and>
        has_symbol lib ''shm_open'' \<and> has_symbol lib ''shm_unlink'')"
proof -
  let ?libs = "fst (open_all dlopen (library_names find_library) ([], k))"
  have l: "load_posix_shm_lib dlopen find_library k =
      (case find exposes_shm ?libs of Some lib \<Rightarrow> Inr lib | None \<Rightarrow> Inl RuntimeError)"
    by (simp only: load_posix_shm_lib_def Let_def candidates_open_all)
  have f: "find (usable dlopen) (library_names find_library) = map_option lib_name (find exposes_shm ?libs)"
    by (rule find_open_all [symmetric])
  show ?thesis
  proof (cases "find exposes_shm ?libs")
    case None
    then show ?thesis unfolding l f by simp
  next
    case (Some lib)
    with find_exposes [OF Some] show ?thesis unfolding l f by (simp add: exposes_shm_def)
  qed
qed

end
