(* ===== verification/History_Correct.thy ===== *)
theory History_Correct
  imports History Gsm_Safety
begin

text \<open>
  The history buffer refines a bounded history: a list of published messages of which the last
  \<open>num_slots\<close> are kept in the ring. \<open>hb_rel\<close> relates the list to the bytes.
\<close>

section \<open>Slots\<close>

abbreviation slots_of :: "bytes \<Rightarrow> nat" where
  "slots_of buf \<equiv> unat (hb_num_slots (hb_header_at buf))"

abbreviation slot_size_of :: "bytes \<Rightarrow> nat" where
  "slot_size_of buf \<equiv> unat (hb_slot_size (hb_header_at buf))"

definition slot_off :: "nat \<Rightarrow> nat \<Rightarrow> nat" where
  "slot_off z k = 128 + k * (64 + z)"

definition slot_holds :: "nat \<Rightarrow> bytes \<Rightarrow> nat \<Rightarrow> bytes \<Rightarrow> bool" where
  "slot_holds z buf k d \<longleftrightarrow> length d \<le> z \<and> u64_at buf (slot_off z k) = of_nat (length d) \<and>
     pyslice buf (slot_off z k + 64) (slot_off z k + 64 + length d) = d"

definition hb_ok :: "bytes \<Rightarrow> bool" where
  "hb_ok buf \<longleftrightarrow> hb_magic (hb_header_at buf) = HB_MAGIC \<and> 0 < slots_of buf \<and>
     128 + slots_of buf * (64 + slot_size_of buf) \<le> length buf \<and>
     mx_state (mutex64_at buf 64) = 0 \<and> mx_owner (mutex64_at buf 64) = 0"

definition hb_rel :: "bytes list \<Rightarrow> bytes \<Rightarrow> bool" where
  "hb_rel ps buf \<longleftrightarrow> hb_ok buf \<and> length ps < 2 ^ 63 \<and>
     hb_msg_idx (hb_header_at buf) = of_nat (length ps) \<and>
     (\<forall>i < length ps. length ps \<le> i + slots_of buf \<longrightarrow>
        slot_holds (slot_size_of buf) buf (i mod slots_of buf) (ps ! i))"

lemma slot_off_bound: "k < n \<Longrightarrow> slot_off z k + (64 + z) \<le> 128 + n * (64 + z)"
proof -
  assume "k < n"
  then have "Suc k * (64 + z) \<le> n * (64 + z)" by (intro mult_right_mono) auto
  then show ?thesis by (simp add: slot_off_def)
qed

lemma slot_off_disjoint:
  assumes "j \<noteq> k"
  shows "slot_off z j + (64 + z) \<le> slot_off z k \<or> slot_off z k + (64 + z) \<le> slot_off z j"
proof -
  consider "Suc j \<le> k" | "Suc k \<le> j" using assms by linarith
  then show ?thesis
  proof cases
    case 1
    then have "Suc j * (64 + z) \<le> k * (64 + z)" by (intro mult_right_mono) auto
    then show ?thesis by (simp add: slot_off_def)
  next
    case 2
    then have "Suc k * (64 + z) \<le> j * (64 + z)" by (intro mult_right_mono) auto
    then show ?thesis by (simp add: slot_off_def)
  qed
qed

lemma slot_off_ge: "128 \<le> slot_off z k"
  by (simp add: slot_off_def)

lemma slot_holds_frame:
  assumes "slot_holds z buf k d"
    and "\<And>c e. slot_off z k \<le> c \<Longrightarrow> e \<le> slot_off z k + (64 + z) \<Longrightarrow> pyslice buf' c e = pyslice buf c e"
  shows "slot_holds z buf' k d"
proof -
  have "length d \<le> z" using assms(1) by (simp add: slot_holds_def)
  then have "u64_at buf' (slot_off z k) = u64_at buf (slot_off z k)"
    "pyslice buf' (slot_off z k + 64) (slot_off z k + 64 + length d) =
      pyslice buf (slot_off z k + 64) (slot_off z k + 64 + length d)"
    using assms(2) by (auto intro: u64.rd_slice)
  with assms(1) show ?thesis by (simp add: slot_holds_def)
qed

lemma header_frame:
  assumes "\<And>c e. e \<le> 40 \<Longrightarrow> pyslice buf' c e = pyslice buf c e"
  shows "hb_header_at buf' = hb_header_at buf"
  using assms by (auto simp: hb_header_at_def intro: u64.rd_slice)

section \<open>Publishing\<close>

definition slot_written :: "u64 \<Rightarrow> u64 \<Rightarrow> bytes \<Rightarrow> nat \<Rightarrow> bytes \<Rightarrow> bytes" where
  "slot_written t1 t2 d off buf =
     u64_put (off + 16) t2 (overwrite (u64_put (off + 8) t1 (u64_put off (of_nat (length d)) buf)) (off + 64) d)"

lemma slot_written_props:
  assumes "off + 64 + length d \<le> length buf"
  shows "length (slot_written t1 t2 d off buf) = length buf \<and>
    u64_at (slot_written t1 t2 d off buf) off = of_nat (length d) \<and>
    pyslice (slot_written t1 t2 d off buf) (off + 64) (off + 64 + length d) = d \<and>
    (\<forall>c e. e \<le> off \<or> off + 64 + length d \<le> c \<longrightarrow>
       pyslice (slot_written t1 t2 d off buf) c e = pyslice buf c e)"
proof -
  let ?b = "u64_put (off + 8) t1 (u64_put off (of_nat (length d)) buf)"
  have l: "length ?b = length buf" "off + 64 + length d \<le> length ?b" using assms by auto
  have o: "length (overwrite ?b (off + 64) d) = length buf" using l by simp
  have "u64_at (overwrite ?b (off + 64) d) off = u64_at ?b off"
    using l by (intro u64.rd_overwrite_other) auto
  moreover have "u64_at ?b off = of_nat (length d)" using assms by (simp add: buf_simps)
  moreover have "pyslice (overwrite ?b (off + 64) d) c e = pyslice ?b c e"
    if "e \<le> off \<or> off + 64 + length d \<le> c" for c e using l that by (intro slice_overwrite_other) auto
  moreover have "pyslice ?b c e = pyslice buf c e" if "e \<le> off \<or> off + 64 + length d \<le> c" for c e
    using assms that by (auto simp: buf_simps)
  moreover have "pyslice (overwrite ?b (off + 64) d) (off + 64) (off + 64 + length d) = d" using l by simp
  ultimately show ?thesis using o assms unfolding slot_written_def
    by (auto simp: u64.length_wr u64.slice_wr u64_64.rd_wr_other)
qed

lemma sint_of_nat_small: "n < 2 ^ 63 \<Longrightarrow> sint (of_nat n :: u64) = int n"
  by (simp add: signed_of_nat signed_take_bit_int_eq_self)

lemma slot_index_nat:
  assumes "n < 2 ^ 63" and "0 < unat (w :: u64)"
  shows "py_mod (sint (of_nat n :: u64)) (uint w) = Inr (int (n mod unat w))"
proof -
  have "uint w = int (unat w)" by simp
  then show ?thesis using assms by (simp add: py_mod_def sint_of_nat_small zmod_int del: of_nat_unat)
qed

lemma get_slot_header_ok:
  assumes "128 + slots_of buf * (64 + slot_size_of buf) \<le> length buf" and "k < slots_of buf"
  shows "get_slot_header buf (int k) = Inr (slot_off (slot_size_of buf) k)"
proof -
  let ?z = "slot_size_of buf"
  have "calc_slot_offset (hb_header_at buf) (int k) = int (slot_off ?z k)"
    by (simp add: calc_slot_offset_def slot_off_def HB_HEADER_SIZE_def SLOT_HEADER_SIZE_def)
  moreover have "slot_off ?z k + (64 + ?z) \<le> length buf"
    using slot_off_bound [OF assms(2), of ?z] assms(1) by linarith
  ultimately show ?thesis
    by (simp add: get_slot_header_def from_buffer_def SLOT_HEADER_SIZE_def)
qed

lemma publish_slot_ok:
  assumes "128 + slots_of buf * (64 + slot_size_of buf) \<le> length buf" and "0 < slots_of buf"
    and "hb_msg_idx (hb_header_at buf) = of_nat n" and "n < 2 ^ 63" and "length d \<le> slot_size_of buf"
  shows "publish_slot t1 t2 d buf = (Inr (), u64_put 32 (of_nat (Suc n))
    (slot_written t1 t2 d (slot_off (slot_size_of buf) (n mod slots_of buf)) buf))"
proof -
  let ?k = "n mod slots_of buf" and ?z = "slot_size_of buf"
  let ?off = "slot_off ?z ?k"
  let ?b1 = "u64_put (?off + 8) t1 (u64_put ?off (of_nat (length d)) buf)"
  have k: "?k < slots_of buf" using assms(2) by simp
  have fits: "?off + 64 + length d \<le> length buf"
    using slot_off_bound [OF k, of ?z] assms(1,5) by linarith
  then have b1: "?off + 64 + length d \<le> length ?b1" by simp
  have "hb_header_at (slot_written t1 t2 d ?off buf) = hb_header_at buf"
    using slot_written_props [OF fits, of t1 t2] slot_off_ge [of ?z ?k] by (intro header_frame) auto
  then have "hb_msg_idx (hb_header_at (slot_written t1 t2 d ?off buf)) + 1 = of_nat (Suc n)"
    using assms(3) by simp
  moreover have "py_mod (sint (hb_msg_idx (hb_header_at buf))) (uint (hb_num_slots (hb_header_at buf))) = Inr (int ?k)"
    unfolding assms(3) by (rule slot_index_nat [OF assms(4,2)])
  ultimately show ?thesis
    using get_slot_header_ok [OF assms(1) k] memoryview_setslice_ok [OF b1]
    by (simp add: publish_slot_def Let_def SLOT_HEADER_SIZE_def slot_written_def) (simp add: add.commute)
qed

text \<open>Changes that stay inside the embedded mutex are invisible to the ring.\<close>

definition mutex_frame :: "bytes \<Rightarrow> bytes \<Rightarrow> bool" where
  "mutex_frame buf buf' \<longleftrightarrow> length buf' = length buf \<and>
     (\<forall>c e. e \<le> 64 \<or> 128 \<le> c \<longrightarrow> pyslice buf' c e = pyslice buf c e)"

lemma mutex_frame_header: "mutex_frame buf buf' \<Longrightarrow> hb_header_at buf' = hb_header_at buf"
  by (rule header_frame) (auto simp: mutex_frame_def)

lemma mutex_frame_slot: "mutex_frame buf buf' \<Longrightarrow> slot_holds z buf k d \<Longrightarrow> slot_holds z buf' k d"
  using slot_off_ge [of z k] by (auto simp: mutex_frame_def intro: slot_holds_frame)

lemma mod_window_distinct:
  assumes "i < n" and "n < i + m"
  shows "i mod m \<noteq> n mod (m :: nat)"
proof
  assume "i mod m = n mod m"
  then have "m dvd n - i" using assms(1) by (metis less_imp_le mod_eq_dvd_iff_nat)
  then show False using assms by (auto dest: dvd_imp_le)
qed

definition ring_after :: "u64 \<Rightarrow> u64 \<Rightarrow> bytes \<Rightarrow> nat \<Rightarrow> bytes \<Rightarrow> bytes" where
  "ring_after t1 t2 d n buf = u64_put 32 (of_nat (Suc n))
    (slot_written t1 t2 d (slot_off (slot_size_of buf) (n mod slots_of buf)) buf)"

lemma ring_after_frame:
  fixes t1 t2 :: u64 and n :: nat and d buf :: bytes
  assumes "128 + slots_of buf * (64 + slot_size_of buf) \<le> length buf" and "0 < slots_of buf"
    and "length d \<le> slot_size_of buf"
  defines "b \<equiv> ring_after t1 t2 d n buf" and "off \<equiv> slot_off (slot_size_of buf) (n mod slots_of buf)"
  shows "length b = length buf \<and> hb_header_at b = (hb_header_at buf)\<lparr>hb_msg_idx := of_nat (Suc n)\<rparr> \<and>
    slot_holds (slot_size_of buf) b (n mod slots_of buf) d \<and>
    (\<forall>c e. (e \<le> 32 \<or> 40 \<le> c) \<and> (e \<le> off \<or> off + (64 + slot_size_of buf) \<le> c) \<longrightarrow>
      pyslice b c e = pyslice buf c e)"
proof -
  let ?w = "slot_written t1 t2 d off buf"
  have k: "n mod slots_of buf < slots_of buf" using assms(2) by simp
  have fits: "off + 64 + length d \<le> length buf" "128 \<le> off"
    using slot_off_bound [OF k, of "slot_size_of buf"] assms(1,3) slot_off_ge unfolding off_def by auto
  note w = slot_written_props [OF fits(1), of t1 t2]
  have h: "hb_header_at ?w = hb_header_at buf" using w fits(2) by (intro header_frame) auto
  have l: "length ?w = length buf" using w by blast
  have "hb_header_at b = (hb_header_at ?w)\<lparr>hb_msg_idx := of_nat (Suc n)\<rparr>"
    using l fits unfolding b_def ring_after_def off_def [symmetric]
    by (simp add: hb_header_at_def buf_simps)
  moreover have "u64_at b off = u64_at ?w off"
    "pyslice b (off + 64) (off + 64 + length d) = pyslice ?w (off + 64) (off + 64 + length d)"
    using l fits unfolding b_def ring_after_def off_def [symmetric] by (simp_all add: buf_simps)
  moreover have "pyslice b c e = pyslice buf c e"
    if "e \<le> 32 \<or> 40 \<le> c" "e \<le> off \<or> off + (64 + slot_size_of buf) \<le> c" for c e
  proof -
    have "pyslice b c e = pyslice ?w c e"
      using that(1) l fits unfolding b_def ring_after_def off_def [symmetric] by (auto simp: u64.slice_wr)
    also have "\<dots> = pyslice buf c e" using w that(2) assms(3) by auto
    finally show ?thesis .
  qed
  moreover have "length b = length buf"
    using l fits unfolding b_def ring_after_def off_def [symmetric] by simp
  ultimately show ?thesis using h w assms(3) unfolding off_def slot_holds_def by auto
qed

lemma publish_runs:
  assumes "hb_ok buf" and "pid \<noteq> 0" and "hb_msg_idx (hb_header_at buf) = of_nat n" and "n < 2 ^ 63"
    and "length d \<le> slot_size_of buf"
  shows "\<exists>b1 b3. publish pid now t1 t2 d buf = Some (Inr (), b3) \<and> mutex_frame buf b1 \<and>
    mutex_frame (ring_after t1 t2 d n b1) b3 \<and>
    mx_state (mutex64_at b3 64) = 0 \<and> mx_owner (mutex64_at b3 64) = 0"
proof -
  have len: "64 + 64 \<le> length buf" using assms(1) by (auto simp: hb_ok_def)
  have free: "mx_state (mutex64_at buf 64) = 0" "mx_owner (mutex64_at buf 64) \<noteq> pid"
    using assms(1,2) by (auto simp: hb_ok_def)
  from mutex_acquire_free [OF len free, of now] obtain b1 where
    acq: "mutex_acquire pid now 64 buf = Owned b1" and f1: "mutex_frame buf b1"
    and own: "mx_owner (mutex64_at b1 64) = pid" by (auto simp: mutex_frame_def)
  have h: "hb_header_at b1 = hb_header_at buf" using mutex_frame_header [OF f1] .
  have l1: "length b1 = length buf" using f1 by (simp add: mutex_frame_def)
  have ok: "128 + slots_of b1 * (64 + slot_size_of b1) \<le> length b1" "0 < slots_of b1"
    "length d \<le> slot_size_of b1" "hb_msg_idx (hb_header_at b1) = of_nat n"
    using assms(1,3,5) l1 by (auto simp: h hb_ok_def)
  let ?b2 = "ring_after t1 t2 d n b1"
  have pub: "publish_slot t1 t2 d b1 = (Inr (), ?b2)"
    unfolding ring_after_def by (rule publish_slot_ok [OF ok(1,2,4) assms(4) ok(3)])
  note fr = ring_after_frame [OF ok(1-3), of t1 t2 n]
  have "pyslice ?b2 64 (64 + 64) = pyslice b1 64 (64 + 64)" using fr slot_off_ge by auto
  then have "mx_owner (mutex64_at ?b2 64) = pid" "64 + 64 \<le> length ?b2"
    using own mutex64_at_slice [of ?b2 64 b1] len l1 fr by auto
  from mutex_release_owned [OF this(2,1)] obtain b3 where
    "mutex_release pid 64 ?b2 = Inr b3" "mutex_frame ?b2 b3"
    "mx_state (mutex64_at b3 64) = 0 \<and> mx_owner (mutex64_at b3 64) = 0" by (auto simp: mutex_frame_def)
  then show ?thesis using acq pub f1 assms(5) by (auto simp: publish_def)
qed

lemma publish_refines:
  assumes "hb_rel ps buf" and "pid \<noteq> 0" and "Suc (length ps) < 2 ^ 63" and "length d \<le> slot_size_of buf"
  shows "\<exists>buf'. publish pid now t1 t2 d buf = Some (Inr (), buf') \<and> hb_rel (ps @ [d]) buf' \<and>
    slots_of buf' = slots_of buf \<and> slot_size_of buf' = slot_size_of buf \<and>
    calc_total_size (hb_header_at buf') = calc_total_size (hb_header_at buf) \<and> length buf' = length buf"
proof -
  let ?n = "length ps" and ?m = "slots_of buf" and ?z = "slot_size_of buf"
  have ok: "hb_ok buf" and idx: "hb_msg_idx (hb_header_at buf) = of_nat ?n" "?n < 2 ^ 63"
    and holds: "\<And>i. i < ?n \<Longrightarrow> ?n \<le> i + ?m \<Longrightarrow> slot_holds ?z buf (i mod ?m) (ps ! i)"
    using assms(1) by (auto simp: hb_rel_def)
  from publish_runs [OF ok assms(2) idx assms(4), of now t1 t2] obtain b1 b3 where
    pub: "publish pid now t1 t2 d buf = Some (Inr (), b3)" and f1: "mutex_frame buf b1"
    and f3: "mutex_frame (ring_after t1 t2 d ?n b1) b3"
    and free: "mx_state (mutex64_at b3 64) = 0" "mx_owner (mutex64_at b3 64) = 0" by blast
  have h1: "hb_header_at b1 = hb_header_at buf" "length b1 = length buf"
    using mutex_frame_header [OF f1] f1 by (auto simp: mutex_frame_def)
  have "128 + slots_of b1 * (64 + slot_size_of b1) \<le> length b1" "0 < slots_of b1" "length d \<le> slot_size_of b1"
    using ok assms(4) by (auto simp: h1 hb_ok_def)
  note fr = ring_after_frame [OF this, of t1 t2 ?n, unfolded h1]
  have h3: "hb_header_at b3 = (hb_header_at buf)\<lparr>hb_msg_idx := of_nat (Suc ?n)\<rparr>" "length b3 = length buf"
    using mutex_frame_header [OF f3] f3 fr by (auto simp: mutex_frame_def)
  have "hb_ok b3" using ok h3 free by (auto simp: hb_ok_def)
  moreover have "slot_holds ?z b3 (i mod ?m) ((ps @ [d]) ! i)" if i: "i < Suc ?n" "Suc ?n \<le> i + ?m" for i
  proof (cases "i = ?n")
    case True
    then show ?thesis using mutex_frame_slot [OF f3] fr by simp
  next
    case False
    then have "slot_holds ?z b1 (i mod ?m) (ps ! i)"
      using holds [of i] i mutex_frame_slot [OF f1] by simp
    moreover have "i mod ?m \<noteq> ?n mod ?m" using i False by (intro mod_window_distinct) auto
    ultimately have "slot_holds ?z (ring_after t1 t2 d ?n b1) (i mod ?m) (ps ! i)"
      using fr slot_off_disjoint [of "i mod ?m" "?n mod ?m" ?z] slot_off_ge [of ?z "i mod ?m"]
      by (elim slot_holds_frame) auto
    then show ?thesis using mutex_frame_slot [OF f3] False i by (simp add: nth_append)
  qed
  ultimately have "hb_rel (ps @ [d]) b3" using assms(3) by (simp add: hb_rel_def h3)
  then show ?thesis using pub h3 by (auto simp: calc_total_size_def)
qed

text \<open>The ring alone, without the state of the embedded mutex.\<close>

definition ring_shape :: "nat \<Rightarrow> nat \<Rightarrow> bytes list \<Rightarrow> bytes \<Rightarrow> bool" where
  "ring_shape n z ps b \<longleftrightarrow> hb_magic (hb_header_at b) = HB_MAGIC \<and> slots_of b = n \<and> slot_size_of b = z \<and>
     0 < n \<and> 128 + n * (64 + z) \<le> length b \<and> length ps < 2 ^ 63 \<and>
     hb_msg_idx (hb_header_at b) = of_nat (length ps)"

definition ring_rel :: "nat \<Rightarrow> nat \<Rightarrow> bytes list \<Rightarrow> bytes \<Rightarrow> bool" where
  "ring_rel n z ps b \<longleftrightarrow> ring_shape n z ps b \<and>
     (\<forall>i < length ps. length ps \<le> i + n \<longrightarrow> slot_holds z b (i mod n) (ps ! i))"

lemma hb_rel_ring:
  "hb_rel ps b \<longleftrightarrow> ring_rel (slots_of b) (slot_size_of b) ps b \<and>
     mx_state (mutex64_at b 64) = 0 \<and> mx_owner (mutex64_at b 64) = 0"
  by (auto simp: hb_rel_def hb_ok_def ring_rel_def ring_shape_def)

lemma get_latest_ring:
  assumes "ring_rel (slots_of buf) (slot_size_of buf) ps buf"
  shows "get_latest buf = (if ps = [] then Inl ValueError else Inr (last ps))"
proof (cases "ps = []")
  case True
  then show ?thesis using assms by (simp add: ring_rel_def ring_shape_def get_latest_def)
next
  case False
  let ?n = "length ps - 1" and ?m = "slots_of buf" and ?z = "slot_size_of buf"
  have n: "length ps = Suc ?n" "Suc ?n < 2 ^ 63" "?n < 2 ^ 63" using False assms by (auto simp: ring_rel_def ring_shape_def)
  have ok: "128 + ?m * (64 + ?z) \<le> length buf" "0 < ?m" using assms by (auto simp: ring_rel_def ring_shape_def)
  have idx: "sint (hb_msg_idx (hb_header_at buf)) = int ?n + 1"
    using assms sint_of_nat_small [OF n(2)] n(1) by (simp add: ring_rel_def ring_shape_def)
  have "py_mod (sint (of_nat ?n :: u64)) (uint (hb_num_slots (hb_header_at buf))) = Inr (int (?n mod ?m))"
    by (rule slot_index_nat [OF n(3) ok(2)])
  then have k: "py_mod (int ?n) (uint (hb_num_slots (hb_header_at buf))) = Inr (int (?n mod ?m))"
    by (simp only: sint_of_nat_small [OF n(3)])
  have km: "?n mod ?m < ?m" using ok(2) by simp
  have "slot_holds ?z buf (?n mod ?m) (ps ! ?n)"
    using assms n ok(2) by (auto simp: ring_rel_def ring_shape_def)
  moreover have "ps ! ?n = last ps" using False by (simp add: last_conv_nth)
  moreover have "unat (of_nat (length (last ps)) :: u64) = length (last ps)"
    if "length (last ps) \<le> ?z" using that unat_u64_less [of "hb_slot_size (hb_header_at buf)"]
    by (simp add: unat_of_nat)
  ultimately have "unat (sl_size (slot_header_at buf (slot_off ?z (?n mod ?m)))) = length (last ps)"
    "pyslice buf (slot_off ?z (?n mod ?m) + 64) (slot_off ?z (?n mod ?m) + 64 + length (last ps)) = last ps"
    by (auto simp: slot_holds_def slot_header_at_def)
  then show ?thesis using False idx k get_slot_header_ok [OF ok(1) km]
    by (simp add: get_latest_def Let_def SLOT_HEADER_SIZE_def)
qed

lemma get_latest_refines:
  "hb_rel ps buf \<Longrightarrow> get_latest buf = (if ps = [] then Inl ValueError else Inr (last ps))"
  using get_latest_ring [of buf ps] by (simp add: hb_rel_ring)

section \<open>Creating\<close>

lemma mutex_frame_trans: "mutex_frame a b \<Longrightarrow> mutex_frame b c \<Longrightarrow> mutex_frame a c"
  by (simp add: mutex_frame_def)

lemma mutex_frame_length: "mutex_frame a b \<Longrightarrow> length b = length a"
  by (simp add: mutex_frame_def)

lemma mutex_frame_above: "mutex_frame a b \<Longrightarrow> 128 \<le> c \<Longrightarrow> pyslice b c e = pyslice a c e"
  by (simp add: mutex_frame_def)

lemma store_magic_frame:
  assumes "128 \<le> length buf"
  defines "b \<equiv> u32_store_rel 64 MUTEX_OFF_MAGIC MUTEX_MAGIC buf"
  shows "mutex_frame buf b \<and> mx_state (mutex64_at b 64) = mx_state (mutex64_at buf 64) \<and>
    mx_owner (mutex64_at b 64) = mx_owner (mutex64_at buf 64)"
  using assms by (simp add: mutex_frame_def mutex64_at_def mutex_access_defs buf_simps)

definition hb_headed :: "int \<Rightarrow> int \<Rightarrow> nat \<Rightarrow> bytes \<Rightarrow> bytes" where
  "hb_headed num_slots slot_size n buf =
     u64_put 32 0 (u64_put 24 (word_of_int slot_size) (u64_put 16 (word_of_int num_slots)
       (u64_put 8 (of_nat n) (u64_put 0 HB_MAGIC buf))))"

lemma hb_headed_props:
  assumes "128 \<le> length buf"
  shows "length (hb_headed ns z n buf) = length buf \<and>
    hb_header_at (hb_headed ns z n buf) = \<lparr>hb_magic = HB_MAGIC, hb_meta_size = of_nat n,
      hb_num_slots = word_of_int ns, hb_slot_size = word_of_int z, hb_msg_idx = 0\<rparr>"
  using assms by (simp add: hb_headed_def hb_header_at_def buf_simps)

lemma hb_format_ok:
  assumes "128 + length meta \<le> length buf"
  shows "\<exists>b. and_then (hb_format ns z meta) hb_attach buf = (Inr (), b) \<and> length b = length buf \<and>
    hb_header_at b = \<lparr>hb_magic = HB_MAGIC, hb_meta_size = of_nat (length meta),
      hb_num_slots = word_of_int ns, hb_slot_size = word_of_int z, hb_msg_idx = 0\<rparr> \<and>
    mx_state (mutex64_at b 64) = 0 \<and> mx_owner (mutex64_at b 64) = 0 \<and>
    pyslice b 128 (128 + length meta) = meta"
proof -
  let ?b1 = "hb_headed ns z (length meta) buf"
  have len: "128 \<le> length buf" using assms by simp
  note h = hb_headed_props [OF len, of ns z "length meta"]
  let ?b2 = "overwrite ?b1 64 (replicate 64 0)"
  have l2: "length ?b2 = length buf" using h len by simp
  let ?m = "u32_store_rel 64 MUTEX_OFF_MAGIC MUTEX_MAGIC ?b2"
  let ?b3 = "mutex_force_release 64 ?m"
  have f2: "mutex_frame ?b2 ?m" using store_magic_frame l2 len by simp
  have lm: "64 + 64 \<le> length ?m" using mutex_frame_length [OF f2] l2 len by simp
  note rel = mutex_force_release_frees [OF lm]
  have "mutex_frame ?m ?b3" unfolding mutex_frame_def using rel by auto
  with f2 have f3: "mutex_frame ?b2 ?b3" by (rule mutex_frame_trans)
  have l3: "length ?b3 = length buf" using mutex_frame_length [OF f3] l2 by simp
  let ?b4 = "overwrite ?b3 128 meta"
  have l4: "length ?b4 = length buf" "128 \<le> length ?b4" using l3 assms by simp_all
  have lo: "pyslice ?b4 c e = pyslice ?b3 c e" if "e \<le> 128" for c e
    using that l3 assms by (intro slice_overwrite_other) auto
  have "hb_header_at ?b4 = hb_header_at ?b3" using lo by (intro header_frame) auto
  also have "\<dots> = hb_header_at ?b2" by (rule mutex_frame_header [OF f3])
  also have "\<dots> = hb_header_at ?b1" using h len by (intro header_frame slice_overwrite_other) auto
  finally have h4: "hb_header_at ?b4 = hb_header_at ?b1" .
  have "mutex64_at ?b4 64 = mutex64_at ?b3 64" using lo by (intro mutex64_at_slice) auto
  then have m4: "mx_state (mutex64_at ?b4 64) = 0" "mx_owner (mutex64_at ?b4 64) = 0" using rel by auto
  let ?b5 = "u32_store_rel 64 MUTEX_OFF_MAGIC MUTEX_MAGIC ?b4"
  note f5 = store_magic_frame [OF l4(2)]
  note fr5 = f5 [THEN conjunct1]
  have "from_buffer HB_HEADER_SIZE buf 0 = Inr 0" using len by (simp add: from_buffer_def HB_HEADER_SIZE_def)
  moreover have "memoryview_setslice ?b1 64 128 (replicate 64 0) = Inr ?b2"
    using h len by (simp add: memoryview_setslice_def)
  moreover have "memoryview_setslice ?b3 128 (128 + length meta) meta = Inr ?b4"
    using l3 assms by (intro memoryview_setslice_ok) simp
  ultimately have "hb_format ns z meta buf = (Inr (), ?b4)"
    unfolding hb_format_def Let_def hb_headed_def [symmetric] by (simp only: sum.case)
  moreover have "hb_attach ?b4 = (Inr (), ?b5)"
    using l4(2) h4 h by (simp add: hb_attach_def from_buffer_def HB_HEADER_SIZE_def)
  ultimately have "and_then (hb_format ns z meta) hb_attach buf = (Inr (), ?b5)" by (simp add: and_then_def)
  moreover have "hb_header_at ?b5 = hb_header_at ?b1" using mutex_frame_header [OF fr5] h4 by (rule trans)
  moreover have "pyslice ?b5 128 (128 + length meta) = meta"
    using mutex_frame_above [OF fr5, of 128] l3 assms by simp
  moreover have "length ?b5 = length buf" using mutex_frame_length [OF fr5] l4(1) by (rule trans)
  ultimately show ?thesis using h f5 m4 by (intro exI [of _ ?b5]) auto
qed

definition hb_size :: "int \<Rightarrow> int \<Rightarrow> nat \<Rightarrow> int" where
  "hb_size ns z n = 128 + ns * (64 + z) + (int n div 64 + 1) * 64"

lemma unat_word_of_int: "0 \<le> v \<Longrightarrow> v < 2 ^ 64 \<Longrightarrow> unat (word_of_int v :: u64) = nat v"
  by (simp add: unat_eq_nat_uint uint_word_of_int)

lemma hb_format_rel:
  assumes "1 \<le> ns" and "ns < 2 ^ 64" and "0 \<le> z" and "z < 2 ^ 64" and "length meta < 2 ^ 64"
    and "hb_size ns z (length meta) \<le> int (length buf)"
  shows "\<exists>b. and_then (hb_format ns z meta) hb_attach buf = (Inr (), b) \<and> hb_rel [] b \<and>
    slots_of b = nat ns \<and> slot_size_of b = nat z \<and> get_meta b = utf8_decode meta \<and>
    calc_total_size (hb_header_at b) = hb_size ns z (length meta) \<and> length b = length buf"
proof -
  have p: "0 \<le> ns * (64 + z)" using assms(1,3) by simp
  have m: "int (length meta) < (int (length meta) div 64 + 1) * 64" by presburger
  have "128 + length meta \<le> length buf" using assms(6) p m unfolding hb_size_def by linarith
  from hb_format_ok [OF this, of ns z] obtain b where b: "and_then (hb_format ns z meta) hb_attach buf = (Inr (), b)"
    "length b = length buf" "hb_header_at b = \<lparr>hb_magic = HB_MAGIC, hb_meta_size = of_nat (length meta),
      hb_num_slots = word_of_int ns, hb_slot_size = word_of_int z, hb_msg_idx = 0\<rparr>"
    "mx_state (mutex64_at b 64) = 0" "mx_owner (mutex64_at b 64) = 0"
    "pyslice b 128 (128 + length meta) = meta" by blast
  have s: "slots_of b = nat ns" "slot_size_of b = nat z"
    using assms(1-4) b(3) by (simp_all add: unat_word_of_int)
  have "int (128 + nat ns * (64 + nat z)) \<le> int (length b)"
    using assms(1,3,6) b(2) m unfolding hb_size_def by simp
  then have "128 + nat ns * (64 + nat z) \<le> length b" by (simp only: of_nat_le_iff)
  then have "hb_rel [] b" using b(3-5) s assms(1) by (simp add: hb_rel_def hb_ok_def)
  moreover have "get_meta b = utf8_decode meta"
    using b(3,6) assms(5) by (simp add: get_meta_def calc_meta_offset_def HB_HEADER_SIZE_def unat_of_nat)
  moreover have "calc_total_size (hb_header_at b) = hb_size ns z (length meta)"
    using assms(1-5) b(3)
    by (simp add: calc_total_size_def hb_size_def HB_HEADER_SIZE_def SLOT_HEADER_SIZE_def uint_word_of_int unsigned_of_nat take_bit_nat_eq_self)
  ultimately show ?thesis using b(1,2) s by blast
qed

section \<open>The interface of a message log\<close>

locale message_log =
  fixes pub :: "'m \<Rightarrow> 'st \<Rightarrow> 'st option" and latest :: "'st \<Rightarrow> 'm option"
    and rel :: "'m list \<Rightarrow> 'st \<Rightarrow> bool" and fits :: "'m \<Rightarrow> 'st \<Rightarrow> bool" and cap :: nat
  assumes pub_rel: "rel ps s \<Longrightarrow> fits m s \<Longrightarrow> Suc (length ps) < cap \<Longrightarrow>
      \<exists>s'. pub m s = Some s' \<and> rel (ps @ [m]) s' \<and> (\<forall>k. fits k s' = fits k s)"
    and latest_rel: "rel ps s \<Longrightarrow> latest s = (if ps = [] then None else Some (last ps))"
begin

fun pub_all :: "'m list \<Rightarrow> 'st \<Rightarrow> 'st option" where
  "pub_all [] s = Some s"
| "pub_all (m # ms) s = Option.bind (pub m s) (pub_all ms)"

lemma pub_all_rel:
  "rel ps s \<Longrightarrow> \<forall>m \<in> set ms. fits m s \<Longrightarrow> length ps + length ms < cap \<Longrightarrow>
    \<exists>s'. pub_all ms s = Some s' \<and> rel (ps @ ms) s'"
proof (induction ms arbitrary: ps s)
  case (Cons m ms)
  then obtain s1 where s1: "pub m s = Some s1" "rel (ps @ [m]) s1" "\<forall>k. fits k s1 = fits k s"
    using pub_rel [of ps s m] by auto
  with Cons.IH [OF s1(2)] Cons.prems(2,3) show ?case by auto
qed simp

end

definition publish_ok :: "u32 \<Rightarrow> u64 \<Rightarrow> u64 \<Rightarrow> u64 \<Rightarrow> bytes \<Rightarrow> bytes \<Rightarrow> bytes option" where
  "publish_ok pid now t1 t2 d buf =
     (case publish pid now t1 t2 d buf of Some (Inr u, buf') \<Rightarrow> Some buf' | _ \<Rightarrow> None)"

definition latest_ok :: "bytes \<Rightarrow> bytes option" where
  "latest_ok buf = (case get_latest buf of Inl e \<Rightarrow> None | Inr d \<Rightarrow> Some d)"

fun publish_all :: "u32 \<Rightarrow> u64 \<Rightarrow> u64 \<Rightarrow> u64 \<Rightarrow> bytes list \<Rightarrow> bytes \<Rightarrow> bytes option" where
  "publish_all pid now t1 t2 [] buf = Some buf"
| "publish_all pid now t1 t2 (d # ds) buf =
     Option.bind (publish_ok pid now t1 t2 d buf) (publish_all pid now t1 t2 ds)"

definition may_publish :: "u32 \<Rightarrow> bytes \<Rightarrow> bytes \<Rightarrow> bool" where
  \<comment> \<open>process ids are not 0, which is the value of a free owner field\<close>
  "may_publish pid d buf \<longleftrightarrow> pid \<noteq> 0 \<and> length d \<le> slot_size_of buf"

interpretation hist: message_log "publish_ok pid now t1 t2" latest_ok hb_rel "may_publish pid" "2 ^ 63"
  for pid now t1 t2
proof unfold_locales
  fix ps buf and d :: bytes assume a: "hb_rel ps buf" "may_publish pid d buf" "Suc (length ps) < 2 ^ 63"
  then have b: "pid \<noteq> 0" "length d \<le> slot_size_of buf" by (auto simp: may_publish_def)
  from publish_refines [OF a(1) b(1) a(3) b(2), of now t1 t2]
  show "\<exists>s'. publish_ok pid now t1 t2 d buf = Some s' \<and> hb_rel (ps @ [d]) s' \<and>
      (\<forall>k. may_publish pid k s' = may_publish pid k buf)"
    by (auto simp: publish_ok_def may_publish_def)
next
  fix ps buf assume "hb_rel ps buf"
  then show "latest_ok buf = (if ps = [] then None else Some (last ps))"
    by (simp add: latest_ok_def get_latest_refines)
qed

lemma publish_all_pub_all: "publish_all pid now t1 t2 ds buf = hist.pub_all pid now t1 t2 ds buf"
proof (induction ds arbitrary: buf)
  case (Cons d ds)
  then show ?case by (cases "publish_ok pid now t1 t2 d buf") simp_all
qed simp

section \<open>Properties\<close>

definition demo_buf :: bytes where
  "demo_buf = snd (and_then (hb_format 4 16 (utf8_encode [104, 105])) hb_attach (replicate 512 0))"

lemma demo_buf_rel: "hb_rel [] demo_buf" "slots_of demo_buf = 4" "slot_size_of demo_buf = 16"
proof -
  have "length (utf8_encode [104, 105]) = 2" by (simp add: utf8_encode_def utf8_char_def)
  then have "hb_size 4 16 (length (utf8_encode [104, 105])) \<le> int (length (replicate 512 (0 :: u8)))"
    "length (utf8_encode [104, 105]) < 2 ^ 64" by (simp_all add: hb_size_def)
  from hb_format_rel [OF _ _ _ _ this(2,1)]
  show "hb_rel [] demo_buf" "slots_of demo_buf = 4" "slot_size_of demo_buf = 16"
    by (auto simp: demo_buf_def)
qed

text \<open>
  C5. The ring buffer implements a bounded message history. Publishing messages that fit into a
  slot always succeeds; afterwards the segment represents the extended history, the latest
  message can be read back unchanged, and each of the last \<open>num_slots\<close> messages is in its
  slot, whatever the number of messages (below \<open>2^63\<close>).
\<close>

theorem history_refines_log:
  assumes "hb_rel ps buf" and "pid \<noteq> 0" and "\<forall>d \<in> set ds. length d \<le> slot_size_of buf"
    and "ds \<noteq> []" and "length ps + length ds < 2 ^ 63"
  shows "\<exists>buf'. publish_all pid now t1 t2 ds buf = Some buf' \<and> hb_rel (ps @ ds) buf' \<and>
    get_latest buf' = Inr (last ds) \<and>
    (\<forall>i < length (ps @ ds). length (ps @ ds) \<le> i + slots_of buf' \<longrightarrow>
      slot_holds (slot_size_of buf') buf' (i mod slots_of buf') ((ps @ ds) ! i))"
proof -
  have "\<forall>d \<in> set ds. may_publish pid d buf" using assms(2,3) by (simp add: may_publish_def)
  from hist.pub_all_rel [OF assms(1) this assms(5), of now t1 t2] obtain buf' where
    b: "publish_all pid now t1 t2 ds buf = Some buf'" "hb_rel (ps @ ds) buf'"
    by (auto simp: publish_all_pub_all)
  moreover have "get_latest buf' = Inr (last ds)" using get_latest_refines [OF b(2)] assms(4) by simp
  moreover have "\<forall>i < length (ps @ ds). length (ps @ ds) \<le> i + slots_of buf' \<longrightarrow>
      slot_holds (slot_size_of buf') buf' (i mod slots_of buf') ((ps @ ds) ! i)"
    using b(2) by (auto simp: hb_rel_def)
  ultimately show ?thesis by blast
qed

theorem history_refines_log_witness:
  "\<exists>buf'. publish_all 7 0 1 2 [[1, 2, 3], [4]] demo_buf = Some buf' \<and> get_latest buf' = Inr [4]"
proof -
  have "\<forall>d \<in> set [[1, 2, 3], [4] :: bytes]. length d \<le> slot_size_of demo_buf"
    by (simp add: demo_buf_rel(3))
  from history_refines_log [OF demo_buf_rel(1) _ this, of 7 0 1 2] show ?thesis by auto
qed

text \<open>
  Errors of \<open>publish\<close>: a message larger than a slot is refused before anything changes;
  in a segment with no slots the division by zero is raised and the writer mutex is free again.
\<close>

theorem history_publish_errors:
  "(length d > slot_size_of buf \<longrightarrow> publish pid now t1 t2 d buf = Some (Inl ValueError, buf)) \<and>
   (length d \<le> slot_size_of buf \<and> slots_of buf = 0 \<and> 128 \<le> length buf \<and>
      mx_state (mutex64_at buf 64) = 0 \<and> mx_owner (mutex64_at buf 64) = 0 \<and> pid \<noteq> 0 \<longrightarrow>
     (\<exists>buf'. publish pid now t1 t2 d buf = Some (Inl ZeroDivisionError, buf') \<and> mutex_frame buf buf' \<and>
        mx_state (mutex64_at buf' 64) = 0 \<and> mx_owner (mutex64_at buf' 64) = 0))"
proof -
  have "\<exists>buf'. publish pid now t1 t2 d buf = Some (Inl ZeroDivisionError, buf') \<and> mutex_frame buf buf' \<and>
        mx_state (mutex64_at buf' 64) = 0 \<and> mx_owner (mutex64_at buf' 64) = 0"
    if a: "length d \<le> slot_size_of buf" "slots_of buf = 0" "128 \<le> length buf"
      "mx_state (mutex64_at buf 64) = 0" "mx_owner (mutex64_at buf 64) = 0" "pid \<noteq> 0"
  proof -
    have len: "64 + 64 \<le> length buf" "mx_owner (mutex64_at buf 64) \<noteq> pid" using a by auto
    from mutex_acquire_free [OF len(1) a(4) len(2), of now] obtain b1 where
      acq: "mutex_acquire pid now 64 buf = Owned b1" and f1: "mutex_frame buf b1"
      and own: "mx_owner (mutex64_at b1 64) = pid" by (auto simp: mutex_frame_def)
    have "uint (hb_num_slots (hb_header_at b1)) = 0"
      using a(2) mutex_frame_header [OF f1] by (simp add: unsigned_eq_0_iff)
    then have "publish_slot t1 t2 d b1 = (Inl ZeroDivisionError, b1)"
      by (simp add: publish_slot_def py_mod_def Let_def)
    moreover have "64 + 64 \<le> length b1" using mutex_frame_length [OF f1] len(1) by simp
    from mutex_release_owned [OF this own] obtain b2 where
      "mutex_release pid 64 b1 = Inr b2" "mutex_frame b1 b2"
      "mx_state (mutex64_at b2 64) = 0 \<and> mx_owner (mutex64_at b2 64) = 0" by (auto simp: mutex_frame_def)
    ultimately show ?thesis using acq a(1) mutex_frame_trans [OF f1] by (auto simp: publish_def)
  qed
  then show ?thesis by (auto simp: publish_def)
qed

theorem history_publish_errors_witness:
  "publish 7 0 1 2 (replicate 17 0) demo_buf = Some (Inl ValueError, demo_buf)"
  using history_publish_errors [of demo_buf "replicate 17 0" 7 0 1 2] demo_buf_rel(3) by simp

text \<open>
  The metadata and slot 0 share their place: the first message that is published overwrites
  the metadata with its slot header, so the first eight bytes of what \<open>get_meta\<close> decodes are
  the length of the message.
\<close>

theorem history_publish_overwrites_meta:
  assumes "hb_rel [] buf" and "pid \<noteq> 0" and "length d \<le> slot_size_of buf"
  shows "\<exists>buf'. publish pid now t1 t2 d buf = Some (Inr (), buf') \<and>
    u64_at buf' (nat (calc_meta_offset (hb_header_at buf'))) = of_nat (length d) \<and>
    calc_meta_offset (hb_header_at buf') = calc_slot_offset (hb_header_at buf') 0"
proof -
  from publish_refines [OF assms(1,2) _ assms(3), of now t1 t2] obtain buf' where
    p: "publish pid now t1 t2 d buf = Some (Inr (), buf')" and r: "hb_rel ([] @ [d]) buf'" by auto
  from r have "0 < slots_of buf'" by (auto simp: hb_rel_def hb_ok_def)
  with r have "slot_holds (slot_size_of buf') buf' 0 d" by (auto simp: hb_rel_def)
  with p show ?thesis
    by (simp add: slot_holds_def slot_off_def calc_meta_offset_def calc_slot_offset_def HB_HEADER_SIZE_def)
qed

theorem history_publish_overwrites_meta_witness:
  "\<exists>buf'. publish 7 0 1 2 [9] demo_buf = Some (Inr (), buf') \<and> u64_at buf' 128 = 1"
proof -
  have "length [9 :: u8] \<le> slot_size_of demo_buf" by (simp add: demo_buf_rel(3))
  from history_publish_overwrites_meta [OF demo_buf_rel(1) _ this, of 7 0 1 2] show ?thesis
    by (auto simp: calc_meta_offset_def HB_HEADER_SIZE_def)
qed

lemma create_segment:
  assumes "nm \<noteq> []" and "CHR ''/'' \<notin> set nm" and "os_shm s (CHR ''/'' # hb_shm_name nm) = None"
    and "1 \<le> num_slots" and "num_slots < 2 ^ 64" and "0 \<le> slot_size" and "slot_size < 2 ^ 64"
    and "\<forall>c \<in> set meta. scalar c" and "length (utf8_encode meta) < 2 ^ 64"
  shows "\<exists>g ino s'. NamedHistoryBuffer_create environ pid nm num_slots slot_size meta quiet_init s = (Inr g, s') \<and>
    gsm_buf g = Inr ino \<and> os_shm s' (CHR ''/'' # hb_shm_name nm) = Some ino \<and>
    hb_rel [] (os_ino s' ino) \<and> slots_of (os_ino s' ino) = nat num_slots \<and>
    slot_size_of (os_ino s' ino) = nat slot_size \<and> get_meta (os_ino s' ino) = Inr meta \<and>
    calc_total_size (hb_header_at (os_ino s' ino)) = int (length (os_ino s' ino))"
proof -
  let ?m = "utf8_encode meta"
  let ?n = "hb_size num_slots slot_size (length ?m)"
  let ?a = "(gsm_args_of (hb_shm_name nm) ?n)\<lparr>a_try_cleanup := False\<rparr>"
  have pos: "0 < ?n" using assms(4,6) unfolding hb_size_def
    by (intro add_pos_nonneg) auto
  have a: "good_args ?a" "1 \<le> a_max_attempts ?a" "\<not> a_attach_only ?a" "os_shm s (posix_of ?a) = None"
    using assms(1-3) pos by (simp_all add: good_args_def gsm_args_of_def hb_shm_name_def)
  from new_creates [OF a, of environ pid] obtain g s1 where
    init: "GuardedSharedMemory_new environ pid ?a quiet_init s = (Inr g, s1)"
    and g: "gsm_buf g = Inr (os_next_ino s)" "os_ino s1 (os_next_ino s) = replicate (nat ?n) 0"
      "os_shm s1 (posix_of ?a) = Some (os_next_ino s)"
    by (auto simp: handle_of_def gsm_buf_def gsm_args_of_def)
  have "?n \<le> int (length (replicate (nat ?n) (0 :: u8)))" using pos by simp
  from hb_format_rel [OF assms(4-7,9) this] obtain b where
    b: "and_then (hb_format num_slots slot_size ?m) hb_attach (replicate (nat ?n) 0) = (Inr (), b)"
    "hb_rel [] b" "slots_of b = nat num_slots" "slot_size_of b = nat slot_size" "get_meta b = utf8_decode ?m"
    "calc_total_size (hb_header_at b) = ?n" "length b = length (replicate (nat ?n) (0 :: u8))"
    by blast
  have e: "str_encode meta = Inr ?m" using assms(8) by (simp add: str_encode_def list_all_iff)
  have n: "int HB_HEADER_SIZE + num_slots * (int SLOT_HEADER_SIZE + slot_size) + (int (length ?m) div 64 + 1) * 64 = ?n"
    by (simp add: hb_size_def HB_HEADER_SIZE_def SLOT_HEADER_SIZE_def)
  have "NamedHistoryBuffer_create environ pid nm num_slots slot_size meta quiet_init s =
      (Inr g, put_ino (os_next_ino s) b s1)"
    unfolding NamedHistoryBuffer_create_def e sum.case Let_def n using init g b(1)
    by (simp add: on_segment_def)
  then show ?thesis using g b(2-7) pos utf8_roundtrip [OF assms(8)]
    by (simp add: put_ino_def gsm_args_of_def)
qed

text \<open>
  Creating a buffer under a new name: the returned handle maps a segment that represents
  the empty history with the requested slots, and the metadata can be read back.
\<close>

theorem history_create:
  assumes "nm \<noteq> []" and "CHR ''/'' \<notin> set nm" and "os_shm s (CHR ''/'' # hb_shm_name nm) = None"
    and "1 \<le> num_slots" and "num_slots < 2 ^ 64" and "0 \<le> slot_size" and "slot_size < 2 ^ 64"
    and "\<forall>c \<in> set meta. scalar c" and "length (utf8_encode meta) < 2 ^ 64"
  shows "\<exists>g ino s'. NamedHistoryBuffer_create environ pid nm num_slots slot_size meta quiet_init s = (Inr g, s') \<and>
    gsm_buf g = Inr ino \<and> os_shm s' (CHR ''/'' # hb_shm_name nm) = Some ino \<and>
    hb_rel [] (os_ino s' ino) \<and> slots_of (os_ino s' ino) = nat num_slots \<and>
    slot_size_of (os_ino s' ino) = nat slot_size \<and> get_meta (os_ino s' ino) = Inr meta"
  using create_segment [OF assms, of environ pid] by blast

theorem history_create_witness:
  "\<exists>g ino s'. NamedHistoryBuffer_create None 7 ''h'' 4 16 [104, 105] quiet_init os_empty = (Inr g, s') \<and>
    gsm_buf g = Inr ino \<and> get_meta (os_ino s' ino) = Inr [104, 105]"
proof -
  have a: "''h'' \<noteq> []" "CHR ''/'' \<notin> set ''h''" "os_shm os_empty (CHR ''/'' # hb_shm_name ''h'') = None"
    "\<forall>c \<in> set [104, 105]. scalar c" "length (utf8_encode [104, 105]) < 2 ^ 64"
    by (simp_all add: os_empty_def scalar_def utf8_encode_def utf8_char_def)
  from history_create [OF a(1-3) _ _ _ _ a(4,5), of 4 16 None 7] show ?thesis by auto
qed

end
