(* ===== verification/History_Threads.thy ===== *)
theory History_Threads
  imports History_Correct Mutex_Safety
begin

text \<open>
  The history buffer with many threads: \<open>publish\<close> and \<open>get_latest\<close> as machines of their
  loads and stores on the shared segment, composed with the machine of the writer mutex that is
  embedded in the header. A payload is copied byte by byte, as \<open>memcpy\<close> may do it, so a reader
  can look into a slot that is being written.

  The mutex has bytes 64 to 127 of the segment to itself; its state is the header record of
  \<open>hs_mx\<close>, and the other accesses do not touch these bytes of \<open>hs_buf\<close>.
  \<open>hs_log\<close> is an auxiliary variable that no action reads: the messages in the order in which
  their index was stored.
\<close>

section \<open>Program points\<close>

datatype hist_result = HNone | HBytes bytes | HRaise pyexc

datatype hist_pc =
    HOut hist_result
  | PCheck bytes                 \<comment> \<open>\<open>publish\<close>: compare the length with \<open>slot_size\<close>\<close>
  | PLock bytes                  \<comment> \<open>in \<open>acquire()\<close>\<close>
  | PIdx bytes                   \<comment> \<open>load \<open>msg_idx\<close>\<close>
  | PMod bytes int               \<comment> \<open>load \<open>num_slots\<close>, compute \<open>slot_index\<close>\<close>
  | PSlot bytes int              \<comment> \<open>\<open>get_slot_header(slot_index)\<close>\<close>
  | PSize bytes int nat          \<comment> \<open>store \<open>size\<close>\<close>
  | PStart bytes int nat         \<comment> \<open>store \<open>start_version\<close>\<close>
  | PPay bytes int nat           \<comment> \<open>compute \<open>payload_offset\<close>, check the slice\<close>
  | PCopy bytes nat nat nat      \<comment> \<open>copy the payload; slot header, payload offset, bytes done\<close>
  | PEnd bytes nat               \<comment> \<open>store \<open>end_version\<close>\<close>
  | PLoad bytes                  \<comment> \<open>\<open>msg_idx += 1\<close>: load\<close>
  | PStore bytes u64             \<comment> \<open>\<open>msg_idx += 1\<close>: store\<close>
  | PFinally hist_result         \<comment> \<open>call \<open>release()\<close>\<close>
  | PUnlock hist_result          \<comment> \<open>in \<open>release()\<close>\<close>
  | GIdx                         \<comment> \<open>\<open>get_latest\<close>: load \<open>msg_idx\<close>\<close>
  | GMod int                     \<comment> \<open>load \<open>num_slots\<close>\<close>
  | GSlot int int                \<comment> \<open>\<open>get_slot_header(slot_index)\<close>\<close>
  | GPay int int nat             \<comment> \<open>compute \<open>payload_offset\<close>\<close>
  | GSize int nat nat            \<comment> \<open>load \<open>size\<close>, take the slice\<close>
  | GCopy int nat nat bytes      \<comment> \<open>\<open>tobytes()\<close>: offset and length of the slice, bytes copied\<close>

datatype hist_call = CallPublish bytes | CallGetLatest

fun hist_entry :: "hist_call \<Rightarrow> hist_pc" where
  "hist_entry (CallPublish d) = PCheck d"
| "hist_entry CallGetLatest = GIdx"

section \<open>The body of publish and get\_latest\<close>

fun publish_step :: "u64 \<Rightarrow> hist_pc \<Rightarrow> bytes \<Rightarrow> hist_pc \<times> bytes" where
  "publish_step now (PIdx d) b = (PMod d (sint (hb_msg_idx (hb_header_at b))), b)"
| "publish_step now (PMod d msg_idx) b =
     (case py_mod msg_idx (uint (hb_num_slots (hb_header_at b))) of
        Inl e \<Rightarrow> (PFinally (HRaise e), b)
      | Inr slot_index \<Rightarrow> (PSlot d slot_index, b))"
| "publish_step now (PSlot d slot_index) b =
     (case get_slot_header b slot_index of
        Inl e \<Rightarrow> (PFinally (HRaise e), b)
      | Inr off \<Rightarrow> (PSize d slot_index off, b))"
| "publish_step now (PSize d slot_index off) b =
     (PStart d slot_index off, u64_put off (of_nat (length d)) b)"
| "publish_step now (PStart d slot_index off) b = (PPay d slot_index off, u64_put (off + 8) now b)"
| "publish_step now (PPay d slot_index off) b =
     (let p = nat (calc_slot_offset (hb_header_at b) slot_index) + SLOT_HEADER_SIZE
      in if length (pyslice b p (p + length d)) = length d then (PCopy d off p 0, b)
         else (PFinally (HRaise ValueError), b))"
| "publish_step now (PCopy d off p j) b =
     (if j < length d then (PCopy d off p (Suc j), b[p + j := d ! j]) else (PEnd d off, b))"
| "publish_step now (PEnd d off) b = (PLoad d, u64_put (off + 16) now b)"
| "publish_step now (PLoad d) b = (PStore d (hb_msg_idx (hb_header_at b)), b)"
| "publish_step now (PStore d msg_idx) b = (PFinally HNone, u64_put 32 (msg_idx + 1) b)"
| "publish_step now pc b = (pc, b)"

fun get_latest_step :: "hist_pc \<Rightarrow> bytes \<Rightarrow> hist_pc" where
  "get_latest_step GIdx b =
     (let msg_idx = sint (hb_msg_idx (hb_header_at b))
      in if msg_idx = 0 then HOut (HRaise ValueError) else GMod msg_idx)"
| "get_latest_step (GMod msg_idx) b =
     (case py_mod (msg_idx - 1) (uint (hb_num_slots (hb_header_at b))) of
        Inl e \<Rightarrow> HOut (HRaise e)
      | Inr slot_index \<Rightarrow> GSlot msg_idx slot_index)"
| "get_latest_step (GSlot msg_idx slot_index) b =
     (case get_slot_header b slot_index of
        Inl e \<Rightarrow> HOut (HRaise e)
      | Inr off \<Rightarrow> GPay msg_idx slot_index off)"
| "get_latest_step (GPay msg_idx slot_index off) b =
     GSize msg_idx off (nat (calc_slot_offset (hb_header_at b) slot_index) + SLOT_HEADER_SIZE)"
| "get_latest_step (GSize msg_idx off p) b =
     GCopy msg_idx p (length (pyslice b p (p + unat (sl_size (slot_header_at b off))))) []"
| "get_latest_step (GCopy msg_idx p n acc) b =
     (if length acc < n then GCopy msg_idx p n (acc @ [b ! (p + length acc)]) else HOut (HBytes acc))"
| "get_latest_step pc b = pc"

section \<open>The system\<close>

record hist_sys =
  hs_mx :: mx_sys
  hs_buf :: bytes
  hs_log :: "bytes list"
  hs_pc :: "tid \<Rightarrow> hist_pc"

definition goto :: "tid \<Rightarrow> hist_pc \<Rightarrow> hist_sys \<Rightarrow> hist_sys" where
  "goto t pc s = s\<lparr>hs_pc := (hs_pc s)(t := pc)\<rparr>"

fun stored :: "hist_pc \<Rightarrow> bytes list" where
  \<comment> \<open>the message whose index the next action stores\<close>
  "stored (PStore d msg_idx) = [d]"
| "stored _ = []"

fun in_body :: "hist_pc \<Rightarrow> bool" where
  \<comment> \<open>between \<open>acquire()\<close> and \<open>release()\<close>\<close>
  "in_body (HOut r) = False"
| "in_body (PCheck d) = False"
| "in_body (PLock d) = False"
| "in_body (PUnlock r) = False"
| "in_body GIdx = False"
| "in_body (GMod i) = False"
| "in_body (GSlot i si) = False"
| "in_body (GPay i si off) = False"
| "in_body (GSize i off p) = False"
| "in_body (GCopy i p n acc) = False"
| "in_body _ = True"

definition mx_call_then :: "wakefn \<Rightarrow> (tid \<Rightarrow> u32) \<Rightarrow> mx_event \<Rightarrow> tid \<Rightarrow> hist_pc \<Rightarrow> hist_sys \<Rightarrow>
    hist_sys option" where
  "mx_call_then wk pid e t pc s =
     map_option (\<lambda>m. goto t pc (s\<lparr>hs_mx := m\<rparr>)) (mx_exec wk pid e (hs_mx s))"

fun hist_act :: "wakefn \<Rightarrow> (tid \<Rightarrow> u32) \<Rightarrow> tid \<Rightarrow> mx_env \<Rightarrow> hist_pc \<Rightarrow> hist_sys \<Rightarrow> hist_sys option" where
  "hist_act wk pid t env (HOut r) s = None"
| "hist_act wk pid t env (PCheck d) s =
     (if length d > unat (hb_slot_size (hb_header_at (hs_buf s)))
      then Some (goto t (HOut (HRaise ValueError)) s)
      else mx_call_then wk pid (EvCall t (CallAcq Acquire)) t (PLock d) s)"
| "hist_act wk pid t env (PLock d) s =
     (case ms_pc (hs_mx s) t of
        Out r \<Rightarrow> Some (goto t (if r = RetRuntimeError then HOut (HRaise RuntimeError) else PIdx d) s)
      | _ \<Rightarrow> mx_call_then wk pid (EvStep t env) t (PLock d) s)"
| "hist_act wk pid t env (PFinally r) s = mx_call_then wk pid (EvCall t CallRelease) t (PUnlock r) s"
| "hist_act wk pid t env (PUnlock r) s =
     (case ms_pc (hs_mx s) t of
        Out q \<Rightarrow> Some (goto t (HOut (if q = RetRuntimeError then HRaise RuntimeError else r)) s)
      | _ \<Rightarrow> mx_call_then wk pid (EvStep t env) t (PUnlock r) s)"
| "hist_act wk pid t env pc s =
     (if in_body pc then
        (case publish_step (env_now env) pc (hs_buf s) of
           (pc', b) \<Rightarrow> Some (goto t pc' (s\<lparr>hs_buf := b, hs_log := hs_log s @ stored pc\<rparr>)))
      else Some (goto t (get_latest_step pc (hs_buf s)) s))"

datatype hist_event = HistCall tid hist_call | HistStep tid mx_env

fun hist_exec :: "wakefn \<Rightarrow> (tid \<Rightarrow> u32) \<Rightarrow> hist_event \<Rightarrow> hist_sys \<Rightarrow> hist_sys option" where
  "hist_exec wk pid (HistCall t c) s =
     (case hs_pc s t of HOut r \<Rightarrow> Some (goto t (hist_entry c) s) | _ \<Rightarrow> None)"
| "hist_exec wk pid (HistStep t env) s = hist_act wk pid t env (hs_pc s t) s"

fun hist_run :: "wakefn \<Rightarrow> (tid \<Rightarrow> u32) \<Rightarrow> hist_event list \<Rightarrow> hist_sys \<Rightarrow> hist_sys option" where
  "hist_run wk pid [] s = Some s"
| "hist_run wk pid (e # es) s = Option.bind (hist_exec wk pid e s) (hist_run wk pid es)"

inductive hist_step :: "wakefn \<Rightarrow> (tid \<Rightarrow> u32) \<Rightarrow> hist_sys \<Rightarrow> hist_sys \<Rightarrow> bool" for wk pid where
  hist_stepI: "hist_exec wk pid e s = Some s' \<Longrightarrow> hist_step wk pid s s'"

inductive_cases hist_stepE: "hist_step wk pid s s'"

end
