(* ===== verification/History_Threads_Safety.thy ===== *)
theory History_Threads_Safety
  imports History_Threads
begin

text \<open>
  Concurrent publishers and readers of the history buffer. The writer that holds the mutex keeps
  the ring in a known shape at each of its program points (\<open>wstate\<close>), a reader knows what it
  has copied as long as the writers have not lapped it (\<open>rd_ok\<close>), and mutual exclusion of the
  mutex machine carries both to every interleaving.
\<close>

section \<open>The ring without the mutex\<close>

definition ring_part :: "nat \<Rightarrow> nat \<Rightarrow> bytes list \<Rightarrow> bytes \<Rightarrow> bool" where
  \<comment> \<open>the slot of the next message may be in any state\<close>
  "ring_part n z ps b \<longleftrightarrow> ring_shape n z ps b \<and>
     (\<forall>i < length ps. length ps < i + n \<longrightarrow> slot_holds z b (i mod n) (ps ! i))"

abbreviation next_slot :: "nat \<Rightarrow> nat \<Rightarrow> bytes list \<Rightarrow> nat" where
  "next_slot n z ps \<equiv> slot_off z (length ps mod n)"

definition ring_window :: "nat \<Rightarrow> nat \<Rightarrow> nat \<Rightarrow> bytes list \<Rightarrow> bytes \<Rightarrow> bool" where
  \<comment> \<open>the messages that survive until \<open>k\<close> messages have been begun are intact\<close>
  "ring_window k n z ps b \<longleftrightarrow> ring_shape n z ps b \<and>
     (\<forall>i < length ps. k \<le> i + n \<longrightarrow> slot_holds z b (i mod n) (ps ! i))"

lemma ring_rel_window: "ring_rel n z ps b = ring_window (length ps) n z ps b"
  by (simp add: ring_rel_def ring_window_def)

lemma ring_part_window: "ring_part n z ps b = ring_window (Suc (length ps)) n z ps b"
  by (simp add: ring_part_def ring_window_def Suc_le_eq)

lemma ring_rel_part: "ring_rel n z ps b \<Longrightarrow> ring_part n z ps b"
  by (simp add: ring_rel_def ring_part_def)

lemma ring_slot_bounds:
  assumes "ring_part n z ps b" and "k < n"
  shows "slot_off z k + (64 + z) \<le> length b" "128 \<le> slot_off z k" "get_slot_header b (int k) = Inr (slot_off z k)"
    "calc_slot_offset (hb_header_at b) (int k) = int (slot_off z k)"
proof -
  have s: "128 + slots_of b * (64 + slot_size_of b) \<le> length b" "slots_of b = n" "slot_size_of b = z"
    using assms(1) by (auto simp: ring_part_def ring_shape_def)
  show "slot_off z k + (64 + z) \<le> length b" using slot_off_bound [OF assms(2), of z] s by simp
  show "128 \<le> slot_off z k" by (rule slot_off_ge)
  show "get_slot_header b (int k) = Inr (slot_off z k)" using get_slot_header_ok [OF s(1)] s(2,3) assms(2) by simp
  show "calc_slot_offset (hb_header_at b) (int k) = int (slot_off z k)"
    unfolding s(3) [symmetric] by (simp add: calc_slot_offset_def slot_off_def HB_HEADER_SIZE_def SLOT_HEADER_SIZE_def)
qed

lemma ring_part_pos: "ring_part n z ps b \<Longrightarrow> 0 < n"
  by (simp add: ring_part_def ring_shape_def)

text \<open>Writes into the slot of the next message keep the rest of the ring.\<close>

definition slot_frame :: "nat \<Rightarrow> nat \<Rightarrow> bytes \<Rightarrow> bytes \<Rightarrow> bool" where
  "slot_frame z off b b' \<longleftrightarrow> length b' = length b \<and>
     (\<forall>c e. e \<le> off \<or> off + (64 + z) \<le> c \<longrightarrow> pyslice b' c e = pyslice b c e)"

lemma slot_frame_part:
  assumes "ring_part n z ps b" and "slot_frame z (next_slot n z ps) b b'"
  shows "ring_part n z ps b'"
proof -
  have "hb_header_at b' = hb_header_at b"
    using assms(2) slot_off_ge [of z "length ps mod n"] by (intro header_frame) (auto simp: slot_frame_def)
  moreover have "slot_holds z b' (i mod n) (ps ! i)" if "i < length ps" "length ps < i + n" for i
  proof -
    have "i mod n \<noteq> length ps mod n" using that by (rule mod_window_distinct)
    with slot_off_disjoint [of "i mod n" "length ps mod n" z] assms that show ?thesis
      by (auto simp: slot_frame_def ring_part_def intro: slot_holds_frame)
  qed
  ultimately show ?thesis using assms by (simp add: ring_part_def ring_shape_def slot_frame_def)
qed

lemma slot_frame_put:
  "off + 64 + z \<le> length b \<Longrightarrow> off \<le> p \<Longrightarrow> p + 8 \<le> off + (64 + z) \<Longrightarrow> slot_frame z off b (u64_put p v b)"
  by (auto simp: slot_frame_def u64.slice_wr)

lemma slot_frame_byte:
  "off + 64 + z \<le> length b \<Longrightarrow> off \<le> p \<Longrightarrow> p < off + (64 + z) \<Longrightarrow> slot_frame z off b (b[p := v])"
  by (auto simp: slot_frame_def list_update_overwrite slice_overwrite_other)

section \<open>The writer\<close>

fun wstate :: "nat \<Rightarrow> nat \<Rightarrow> bytes list \<Rightarrow> hist_pc \<Rightarrow> bytes \<Rightarrow> bool" where
  "wstate n z ps (PIdx d) b = (ring_rel n z ps b \<and> length d \<le> z)"
| "wstate n z ps (PMod d idx) b = (ring_rel n z ps b \<and> length d \<le> z \<and> idx = int (length ps))"
| "wstate n z ps (PSlot d si) b = (ring_rel n z ps b \<and> length d \<le> z \<and> si = int (length ps mod n))"
| "wstate n z ps (PSize d si off) b =
     (ring_part n z ps b \<and> length d \<le> z \<and> si = int (length ps mod n) \<and> off = next_slot n z ps)"
| "wstate n z ps (PStart d si off) b =
     (ring_part n z ps b \<and> length d \<le> z \<and> si = int (length ps mod n) \<and> off = next_slot n z ps \<and>
      u64_at b off = of_nat (length d))"
| "wstate n z ps (PPay d si off) b =
     (ring_part n z ps b \<and> length d \<le> z \<and> si = int (length ps mod n) \<and> off = next_slot n z ps \<and>
      u64_at b off = of_nat (length d))"
| "wstate n z ps (PCopy d off p j) b =
     (ring_part n z ps b \<and> length d \<le> z \<and> off = next_slot n z ps \<and> p = off + 64 \<and> j \<le> length d \<and>
      u64_at b off = of_nat (length d) \<and> pyslice b p (p + j) = take j d)"
| "wstate n z ps (PEnd d off) b =
     (ring_part n z ps b \<and> off = next_slot n z ps \<and> slot_holds z b (length ps mod n) d)"
| "wstate n z ps (PLoad d) b = (ring_part n z ps b \<and> slot_holds z b (length ps mod n) d)"
| "wstate n z ps (PStore d w) b =
     (ring_part n z ps b \<and> slot_holds z b (length ps mod n) d \<and> w = of_nat (length ps))"
| "wstate n z ps (PFinally r) b = (ring_rel n z ps b \<and> r = HNone)"
| "wstate n z ps pc b = ring_rel n z ps b"

lemma wstate_part: "wstate n z ps pc b \<Longrightarrow> ring_part n z ps b"
  by (cases pc) (auto intro: ring_rel_part)

lemma ring_store:
  assumes "ring_part n z ps b" and "slot_holds z b (length ps mod n) d" and "Suc (length ps) < 2 ^ 63"
  shows "ring_rel n z (ps @ [d]) (u64_put 32 (of_nat (length ps) + 1) b)"
proof -
  let ?b = "u64_put 32 (of_nat (length ps) + 1) b"
  have l: "32 + 8 \<le> length b" using assms(1) by (simp add: ring_part_def ring_shape_def)
  have h: "hb_header_at ?b = (hb_header_at b)\<lparr>hb_msg_idx := of_nat (length ps) + 1\<rparr>"
    using l by (simp add: hb_header_at_def buf_simps)
  have fr: "slot_holds z ?b k x" if "slot_holds z b k x" for k x
    using that slot_off_ge [of z k] l by (elim slot_holds_frame) (simp add: u64.slice_wr)
  have "slot_holds z ?b (i mod n) ((ps @ [d]) ! i)" if "i < Suc (length ps)" "Suc (length ps) \<le> i + n" for i
    using that assms(1,2) by (intro fr) (auto simp: ring_part_def nth_append less_Suc_eq)
  then show ?thesis using assms l
    by (auto simp: ring_rel_def ring_part_def ring_shape_def h)
qed

lemma copy_byte:
  assumes "wstate n z ps (PCopy d off p j) b" and "j < length d"
  shows "wstate n z ps (PCopy d off p (Suc j)) (b[p + j := d ! j])"
proof -
  have part: "ring_part n z ps b" using assms(1) by (rule wstate_part)
  have k: "length ps mod n < n" using ring_part_pos [OF part] by simp
  note sb = ring_slot_bounds [OF part k]
  let ?b = "b[p + j := d ! j]"
  have b: "p + j < length b" "?b = overwrite b (p + j) [d ! j]"
    using assms sb(1) by (auto simp: list_update_overwrite)
  have "ring_part n z ps ?b"
    using assms sb(1) by (intro slot_frame_part [OF part]) (auto intro!: slot_frame_byte)
  moreover have "u64_at ?b off = u64_at b off"
    using assms(1) b by (simp add: u64.rd_overwrite_other)
  moreover have "pyslice ?b p (p + Suc j) = take j d @ [d ! j]"
    using assms(1) b slice_snoc [of b p j "take j d" "d ! j"] by auto
  ultimately show ?thesis using assms by (auto simp: take_Suc_conv_app_nth)
qed

lemma writer_step:
  assumes "wstate n z ps pc b" and "in_body pc" and "publish_step now pc b = (pc', b')"
    and "length (ps @ stored pc) < 2 ^ 63"
  shows "wstate n z (ps @ stored pc) pc' b'"
proof -
  have part: "ring_part n z ps b" using assms(1) by (rule wstate_part)
  let ?k = "length ps mod n"
  have k: "?k < n" using ring_part_pos [OF part] by simp
  note sb = ring_slot_bounds [OF part k]
  have rel: "ring_rel n z ps b \<Longrightarrow> py_mod (int (length ps)) (uint (hb_num_slots (hb_header_at b))) = Inr (int ?k)"
    "ring_rel n z ps b \<Longrightarrow> sint (hb_msg_idx (hb_header_at b)) = int (length ps)"
    using slot_index_nat [of "length ps" "hb_num_slots (hb_header_at b)"]
    by (auto simp: ring_rel_def ring_shape_def sint_of_nat_small)
  have idx: "hb_msg_idx (hb_header_at b) = of_nat (length ps)" using part by (simp add: ring_part_def ring_shape_def)
  have put: "ring_part n z ps (u64_put p v b)" if "next_slot n z ps \<le> p" "p + 8 \<le> next_slot n z ps + 64" for p v
    using that sb(1) by (intro slot_frame_part [OF part] slot_frame_put) auto
  show ?thesis
  proof (cases pc)
    case (PCopy d off p j)
    show ?thesis
    proof (cases "j < length d")
      case True
      with PCopy assms(1,3) show ?thesis using copy_byte [of n z ps d off p j b] by (auto simp del: wstate.simps)
    next
      case False
      with PCopy assms(1,3) part show ?thesis by (auto simp: slot_holds_def)
    qed
  next
    case (PEnd d off)
    then have "slot_holds z b' ?k d"
      using assms(1,3) sb(1) by (auto simp: slot_holds_def buf_simps)
    then show ?thesis using PEnd assms(1,3) put [of "off + 16"] by auto
  next
    case (PStore d w)
    then show ?thesis using assms ring_store [OF part] by auto
  next
    case (PStart d si off)
    then show ?thesis using assms(1,3) put [of "off + 8"] sb(1) by (auto simp: buf_simps)
  next
    case (PSize d si off)
    then show ?thesis using assms(1,3) put [of off] sb(1) by (auto simp: buf_simps)
  next
    case (PPay d si off)
    then show ?thesis using assms(1,3) sb part
      by (auto simp: Let_def SLOT_HEADER_SIZE_def pyslice_def split: if_splits)
  qed (use assms rel sb part idx in \<open>auto simp: ring_rel_part\<close>)
qed

section \<open>The reader\<close>

fun rd_ok :: "nat \<Rightarrow> nat \<Rightarrow> nat \<Rightarrow> bytes list \<Rightarrow> hist_pc \<Rightarrow> bool" where
  \<comment> \<open>\<open>msg_idx\<close> was the length of the log at the load; the slot is intact until \<open>k\<close>, the
    number of messages that have been begun, reaches \<open>msg_idx + n\<close>\<close>
  "rd_ok k n z ps (GMod idx) = (0 < idx \<and> idx \<le> int (length ps))"
| "rd_ok k n z ps (GSlot idx si) = (0 < idx \<and> idx \<le> int (length ps) \<and> si = int ((nat idx - 1) mod n))"
| "rd_ok k n z ps (GPay idx si off) =
     (0 < idx \<and> idx \<le> int (length ps) \<and> si = int ((nat idx - 1) mod n) \<and>
      off = slot_off z ((nat idx - 1) mod n))"
| "rd_ok k n z ps (GSize idx off p) =
     (0 < idx \<and> idx \<le> int (length ps) \<and> off = slot_off z ((nat idx - 1) mod n) \<and> p = off + 64)"
| "rd_ok k n z ps (GCopy idx p m acc) =
     (0 < idx \<and> idx \<le> int (length ps) \<and> p = slot_off z ((nat idx - 1) mod n) + 64 \<and>
      (k < nat idx + n \<longrightarrow>
         m = length (ps ! (nat idx - 1)) \<and> acc = take (length acc) (ps ! (nat idx - 1)) \<and> length acc \<le> m))"
| "rd_ok k n z ps pc = True"

lemma rd_ok_append: "rd_ok k n z ps pc \<Longrightarrow> k \<le> k' \<Longrightarrow> rd_ok k' n z (ps @ qs) pc"
  by (cases pc) (auto simp: nth_append)

lemma ring_window_slot:
  assumes "ring_window k n z ps b" and "0 < idx" and "idx \<le> int (length ps)" and "k < nat idx + n"
  shows "slot_holds z b ((nat idx - 1) mod n) (ps ! (nat idx - 1))"
proof -
  have "nat idx - 1 < length ps" "k \<le> nat idx - 1 + n" using assms(2-4) by linarith+
  then show ?thesis using assms(1) by (simp add: ring_window_def)
qed

lemma reader_mod:
  assumes "ring_part n z ps b" and "0 < idx" and "idx \<le> int (length ps)"
  shows "py_mod (idx - 1) (uint (hb_num_slots (hb_header_at b))) = Inr (int ((nat idx - 1) mod n))"
proof -
  have n: "slots_of b = n" "0 < n" using assms(1) by (auto simp: ring_part_def ring_shape_def)
  have "idx - 1 = int (nat idx - 1)" using assms(2) by simp
  moreover have "uint (hb_num_slots (hb_header_at b)) = int n" unfolding n(1) [symmetric] by simp
  ultimately show ?thesis using n(2) by (simp add: py_mod_def zmod_int del: of_nat_diff)
qed

lemma take_snoc_nth: "acc = take (length acc) xs \<Longrightarrow> length acc < length xs \<Longrightarrow>
    acc @ [xs ! length acc] = take (Suc (length acc)) xs"
  by (simp add: take_Suc_conv_app_nth)

lemma reader_step:
  assumes "ring_part n z ps b" and "rd_ok k n z ps pc" and win: "ring_window k n z ps b"
  shows "rd_ok k n z ps (get_latest_step pc b)"
proof (cases pc)
  case GIdx
  have "sint (hb_msg_idx (hb_header_at b)) = int (length ps)"
    using assms(1) by (auto simp: ring_part_def ring_shape_def sint_of_nat_small)
  then show ?thesis using GIdx by (simp add: Let_def)
next
  case (GMod idx)
  then show ?thesis using assms reader_mod [OF assms(1), of idx] by simp
next
  case (GSlot idx si)
  then show ?thesis using assms ring_slot_bounds(3) [OF assms(1), of "(nat idx - 1) mod n"] ring_part_pos by simp
next
  case (GPay idx si off)
  then show ?thesis using assms ring_slot_bounds(4) [OF assms(1), of "(nat idx - 1) mod n"] ring_part_pos
    by (simp add: SLOT_HEADER_SIZE_def)
next
  case (GSize idx off p)
  let ?x = "ps ! (nat idx - 1)"
  have "length (pyslice b p (p + unat (u64_at b off))) = length ?x" if "k < nat idx + n"
  proof -
    have h: "length ?x \<le> z" "u64_at b off = of_nat (length ?x)" "pyslice b p (p + length ?x) = ?x"
      using ring_window_slot [OF win _ _ that] GSize assms(2) by (auto simp: slot_holds_def)
    have "z < 2 ^ 64" using assms(1) unat_u64_less by (auto simp: ring_part_def ring_shape_def)
    then have "unat (u64_at b off) = length ?x" using h(1,2) by (simp add: unat_of_nat)
    then show ?thesis using h(3) by simp
  qed
  then show ?thesis using GSize assms(2) by (simp add: slot_header_at_def)
next
  case (GCopy idx p m acc)
  let ?x = "ps ! (nat idx - 1)"
  show ?thesis
  proof (cases "length acc < m \<and> k < nat idx + n")
    case True
    then have a: "m = length ?x" "acc = take (length acc) ?x" "0 < idx" "idx \<le> int (length ps)"
      "p = slot_off z ((nat idx - 1) mod n) + 64" using GCopy assms(2) by auto
    have "pyslice b p (p + m) = ?x" "p + length acc < length b"
      using ring_window_slot [OF win a(3,4)] True a(1,5) ring_slot_bounds(1) [OF assms(1), of "(nat idx - 1) mod n"]
        ring_part_pos [OF assms(1)] by (auto simp: slot_holds_def)
    then have "b ! (p + length acc) = ?x ! length acc"
      using True nth_pyslice [of "length acc" "p + m" p b] by simp
    then show ?thesis using GCopy True a take_snoc_nth [OF a(2)] by auto
  next
    case False
    then show ?thesis using GCopy assms(2) by auto
  qed
qed (use assms in auto)

section \<open>The system\<close>

fun linked :: "hist_pc \<Rightarrow> mx_pc \<Rightarrow> bool" where
  \<comment> \<open>where the thread is in the mutex\<close>
  "linked (PLock d) q \<longleftrightarrow> (\<exists>a. q = Acq Acquire a) \<or> q \<in> {Out RetTrue, Out RetRuntimeError}"
| "linked pc q \<longleftrightarrow> (in_body pc \<longrightarrow> q = Out RetTrue)"

fun fits :: "nat \<Rightarrow> hist_pc \<Rightarrow> bool" where
  "fits z (PLock d) = (length d \<le> z)"
| "fits z pc = True"

fun writing :: "hist_pc \<Rightarrow> bool" where
  \<comment> \<open>a message has been begun and its index is not stored yet\<close>
  "writing (PFinally r) = False"
| "writing pc = in_body pc"

definition begun :: "hist_sys \<Rightarrow> nat" where
  \<comment> \<open>the messages that have been begun: those in the log, and the one that is being written\<close>
  "begun s = length (hs_log s) + (if \<exists>t. writing (hs_pc s t) then 1 else 0)"

definition buf_inv :: "nat \<Rightarrow> nat \<Rightarrow> hist_sys \<Rightarrow> bool" where
  "buf_inv n z s \<longleftrightarrow> (\<forall>t. in_body (hs_pc s t) \<longrightarrow> wstate n z (hs_log s) (hs_pc s t) (hs_buf s)) \<and>
     ((\<forall>t. \<not> in_body (hs_pc s t)) \<longrightarrow> ring_rel n z (hs_log s) (hs_buf s)) \<and>
     (\<forall>t. fits z (hs_pc s t) \<and> rd_ok (begun s) n z (hs_log s) (hs_pc s t))"

definition hist_inv :: "nat \<Rightarrow> nat \<Rightarrow> hist_sys \<Rightarrow> bool" where
  "hist_inv n z s \<longleftrightarrow> excl_inv (hs_mx s) \<and> (\<forall>t. linked (hs_pc s t) (ms_pc (hs_mx s) t)) \<and>
     (length (hs_log s) < 2 ^ 63 \<longrightarrow> buf_inv n z s)"

definition hist_init :: "nat \<Rightarrow> nat \<Rightarrow> bytes list \<Rightarrow> hist_sys \<Rightarrow> bool" where
  "hist_init n z ps s \<longleftrightarrow> mx_init (hs_mx s) \<and> ring_rel n z ps (hs_buf s) \<and> hs_log s = ps \<and>
     (\<forall>t. hs_pc s t = HOut HNone)"

abbreviation hist_reach :: "nat \<Rightarrow> nat \<Rightarrow> bytes list \<Rightarrow> wakefn \<Rightarrow> (tid \<Rightarrow> u32) \<Rightarrow> hist_sys \<Rightarrow> bool" where
  "hist_reach n z ps wk pid \<equiv> reach (hist_init n z ps) (hist_step wk pid)"

fun reading :: "hist_pc \<Rightarrow> bool" where
  "reading GIdx = True"
| "reading (GMod i) = True"
| "reading (GSlot i si) = True"
| "reading (GPay i si off) = True"
| "reading (GSize i off p) = True"
| "reading (GCopy i p m acc) = True"
| "reading _ = False"

lemma hist_act_body:
  "in_body pc \<Longrightarrow> \<forall>r. pc \<noteq> PFinally r \<Longrightarrow> publish_step (env_now env) pc (hs_buf s) = (pc', b) \<Longrightarrow>
    hist_act wk pid t env pc s = Some (goto t pc' (s\<lparr>hs_buf := b, hs_log := hs_log s @ stored pc\<rparr>))"
  by (cases pc) (simp_all del: publish_step.simps)

lemma hist_act_read:
  "reading pc \<Longrightarrow> hist_act wk pid t env pc s = Some (goto t (get_latest_step pc (hs_buf s)) s)"
  by (cases pc) (simp_all del: get_latest_step.simps)

lemma get_latest_step_local:
  "reading pc \<Longrightarrow> \<not> in_body pc \<and> \<not> in_body (get_latest_step pc b) \<and> fits z (get_latest_step pc b) \<and>
    (\<forall>q. linked (get_latest_step pc b) q)"
  by (cases pc) (auto simp: Let_def split: sum.splits)

lemma hist_act_lock:
  assumes "hist_act wk pid t env (PLock d) s = Some s'"
  obtains (raised) "s' = goto t (HOut (HRaise RuntimeError)) s"
    | (locked) r where "ms_pc (hs_mx s) t = Out r" and "r \<noteq> RetRuntimeError" and "s' = goto t (PIdx d) s"
    | (locking) m where "mx_exec wk pid (EvStep t env) (hs_mx s) = Some m"
      and "s' = goto t (PLock d) (s\<lparr>hs_mx := m\<rparr>)" and "\<forall>r. ms_pc (hs_mx s) t \<noteq> Out r"
  using assms
  by (cases "ms_pc (hs_mx s) t") (auto simp: mx_call_then_def simp del: mx_exec.simps split: if_splits)

lemma hist_act_unlock:
  assumes "hist_act wk pid t env (PUnlock r) s = Some s'"
  obtains (returned) q where "s' = goto t (HOut q) s"
    | (unlocking) m where "mx_exec wk pid (EvStep t env) (hs_mx s) = Some m"
      and "s' = goto t (PUnlock r) (s\<lparr>hs_mx := m\<rparr>)"
  using assms
  by (cases "ms_pc (hs_mx s) t") (auto simp: mx_call_then_def simp del: mx_exec.simps split: if_splits)

lemma hist_act_check:
  assumes "hist_act wk pid t env (PCheck d) s = Some s'"
  obtains (raised) "s' = goto t (HOut (HRaise ValueError)) s"
    | (enter) m where "length d \<le> slot_size_of (hs_buf s)"
      and "mx_exec wk pid (EvCall t (CallAcq Acquire)) (hs_mx s) = Some m"
      and "s' = goto t (PLock d) (s\<lparr>hs_mx := m\<rparr>)"
  using assms by (auto simp: mx_call_then_def simp del: mx_exec.simps split: if_splits)

lemma hist_exec_cases:
  assumes "hist_exec wk pid e s = Some s'"
  obtains (local) t pc where "s' = goto t pc s" and "\<not> in_body (hs_pc s t)" and "\<not> in_body pc" and "fits z pc"
      and "\<forall>q. linked pc q"
      and "pc = get_latest_step (hs_pc s t) (hs_buf s) \<or> (\<exists>r. pc = HOut r) \<or> pc = GIdx \<or> (\<exists>d. pc = PCheck d)"
    | (enter) t d m where "hs_pc s t = PCheck d" and "length d \<le> slot_size_of (hs_buf s)"
      and "mx_exec wk pid (EvCall t (CallAcq Acquire)) (hs_mx s) = Some m"
      and "s' = goto t (PLock d) (s\<lparr>hs_mx := m\<rparr>)"
    | (locking) t d env m where "hs_pc s t = PLock d" and "mx_exec wk pid (EvStep t env) (hs_mx s) = Some m"
      and "s' = goto t (PLock d) (s\<lparr>hs_mx := m\<rparr>)" and "\<forall>r. ms_pc (hs_mx s) t \<noteq> Out r"
    | (locked) t d r where "hs_pc s t = PLock d" and "ms_pc (hs_mx s) t = Out r" and "r \<noteq> RetRuntimeError"
      and "s' = goto t (PIdx d) s"
    | (body) t and env :: mx_env and pc b where "in_body (hs_pc s t)" and "publish_step (env_now env) (hs_pc s t) (hs_buf s) = (pc, b)"
      and "s' = goto t pc (s\<lparr>hs_buf := b, hs_log := hs_log s @ stored (hs_pc s t)\<rparr>)"
    | (leave) t r m where "hs_pc s t = PFinally r" and "mx_exec wk pid (EvCall t CallRelease) (hs_mx s) = Some m"
      and "s' = goto t (PUnlock r) (s\<lparr>hs_mx := m\<rparr>)"
    | (unlocking) t r env m where "hs_pc s t = PUnlock r" and "mx_exec wk pid (EvStep t env) (hs_mx s) = Some m"
      and "s' = goto t (PUnlock r) (s\<lparr>hs_mx := m\<rparr>)"
proof (cases e)
  case (HistCall t c)
  with assms show ?thesis by (cases c) (auto split: hist_pc.splits intro!: local [of t])
next
  case (HistStep t env)
  with assms have act: "hist_act wk pid t env (hs_pc s t) s = Some s'" by simp
  have wr: thesis if "in_body (hs_pc s t)" "\<forall>r. hs_pc s t \<noteq> PFinally r"
  proof -
    obtain pc b where p: "publish_step (env_now env) (hs_pc s t) (hs_buf s) = (pc, b)" by fastforce
    from hist_act_body [OF that p, of wk pid t] act body [OF that(1) p] show ?thesis by simp
  qed
  have rd: thesis if "reading (hs_pc s t)"
    using hist_act_read [OF that, of wk pid t env s] act local [of t "get_latest_step (hs_pc s t) (hs_buf s)"]
      get_latest_step_local [OF that, of "hs_buf s" z] by simp
  show ?thesis
  proof (cases "hs_pc s t")
    case (PLock d)
    from act [unfolded PLock] show ?thesis
      by (cases rule: hist_act_lock)
        (use PLock local [of t "HOut (HRaise RuntimeError)"] locked [of t d] locking [of t d env] in auto)
  next
    case (PUnlock r)
    from act [unfolded PUnlock] show ?thesis
      by (cases rule: hist_act_unlock) (use PUnlock local [of t "HOut _"] unlocking [of t r env] in auto)
  next
    case (PCheck d)
    from act [unfolded PCheck] show ?thesis
      by (cases rule: hist_act_check) (use PCheck local [of t "HOut (HRaise ValueError)"] enter [of t d] in auto)
  next
    case (PFinally r)
    with act show ?thesis by (auto simp: mx_call_then_def simp del: mx_exec.simps intro: leave)
  next
    case (HOut r)
    with act show ?thesis by simp
  qed (use act rd wr in \<open>simp_all del: hist_act.simps\<close>)
qed

lemma acquire_fast_linked:
  "FutexMutex_acquire_fast p env t pc m = Some (pc', m') \<Longrightarrow> linked (PLock d) pc'"
  by (cases pc) (auto simp: cas_state_def xchg_state_def futex_wait_call_def split: if_splits)

lemma excl_unique:
  "excl_inv m \<Longrightarrow> ms_pc m t = Out RetTrue \<Longrightarrow> ms_pc m u = Out RetTrue \<Longrightarrow> t = u"
  using excl_inv_success [of m t RetTrue] excl_inv_success [of m u RetTrue]
  by (auto simp: excl_inv_def lockview_of_def)

lemma in_body_linked: "linked pc q \<Longrightarrow> in_body pc \<Longrightarrow> q = Out RetTrue"
  by (cases pc) auto

lemma publish_step_linked: "publish_step now pc b = (pc', b') \<Longrightarrow> in_body pc \<Longrightarrow> in_body pc' \<and> fits z pc' \<and> rd_ok k n z ps pc'"
  by (cases pc) (auto simp: Let_def split: sum.splits if_splits)

lemma body_linked: "in_body pc \<Longrightarrow> linked pc (Out RetTrue)"
  by (cases pc) auto

lemma hist_mx_step:
  assumes "hist_exec wk pid e s = Some s'" and "excl_inv (hs_mx s)"
    and "\<And>t. linked (hs_pc s t) (ms_pc (hs_mx s) t)"
  shows "excl_inv (hs_mx s') \<and> linked (hs_pc s' u) (ms_pc (hs_mx s') u)"
  using assms(1)
proof (cases rule: hist_exec_cases [where z = 0])
  case (local t pc)
  then show ?thesis using assms(2,3) by (auto simp: goto_def)
next
  case (enter t d m)
  have "mx_step releases_own wk pid (hs_mx s) m" using enter(3) by (rule mx_stepI [rotated]) simp
  moreover have "ms_pc m u = (if u = t then Acq Acquire ACheck else ms_pc (hs_mx s) u)"
    using enter(3) by (auto split: mx_pc.splits)
  ultimately show ?thesis using enter(4) assms(2,3) excl_inv_step by (auto simp: goto_def)
next
  case (locking t d env m)
  have "mx_step releases_own wk pid (hs_mx s) m" using locking(2) by (rule mx_stepI [rotated]) simp
  moreover have "linked (PLock d) (ms_pc m t)"
  proof -
    from assms(3) [of t] locking(1,4) obtain a where "ms_pc (hs_mx s) t = Acq Acquire a" by auto
    then show ?thesis using locking(2) acquire_fast_linked
      by (auto simp: with_mem_def simp del: linked.simps split: prod.splits)
  qed
  moreover have "ms_pc m v = ms_pc (hs_mx s) v" if "v \<noteq> t" for v
    using mx_exec_other [OF locking(2)] that by simp
  ultimately show ?thesis using locking(3) assms(2,3) excl_inv_step
    by (auto simp: goto_def simp del: linked.simps)
next
  case (locked t d r)
  have "r = RetTrue" using assms(3) [of t] locked by auto
  then show ?thesis using locked assms(2,3) by (auto simp: goto_def)
next
  case (body t env pc b)
  then have "in_body pc" "ms_pc (hs_mx s) t = Out RetTrue"
    using publish_step_linked in_body_linked [OF assms(3) [of t]] by blast+
  then show ?thesis using body assms(2,3) by (simp add: goto_def body_linked)
next
  case (leave t r m)
  have "ms_pc (hs_mx s) t = Out RetTrue" using assms(3) [of t] leave(1) by simp
  then have "ms_holds (hs_mx s) t" using excl_inv_success [OF assms(2)] by blast
  then have "mx_step releases_own wk pid (hs_mx s) m" using mx_stepI [OF _ leave(2)] by simp
  moreover have "ms_pc m v = ms_pc (hs_mx s) v" if "v \<noteq> t" for v
    using mx_exec_other [OF leave(2)] that by simp
  ultimately show ?thesis using leave(3) assms(2,3) excl_inv_step by (auto simp: goto_def)
next
  case (unlocking t r env m)
  have "mx_step releases_own wk pid (hs_mx s) m" using unlocking(2) by (rule mx_stepI [rotated]) simp
  moreover have "ms_pc m v = ms_pc (hs_mx s) v" if "v \<noteq> t" for v
    using mx_exec_other [OF unlocking(2)] that by simp
  ultimately show ?thesis using unlocking(3) assms(2,3) excl_inv_step by (auto simp: goto_def)
qed

lemma writing_body: "writing pc \<Longrightarrow> in_body pc"
  by (cases pc) auto

lemma wstate_idle: "wstate n z ps pc b \<Longrightarrow> in_body pc \<Longrightarrow> \<not> writing pc \<Longrightarrow> ring_rel n z ps b"
  by (cases pc) auto

lemma buf_inv_window:
  assumes "buf_inv n z s"
  shows "ring_part n z (hs_log s) (hs_buf s)" "ring_window (begun s) n z (hs_log s) (hs_buf s)"
proof -
  show part: "ring_part n z (hs_log s) (hs_buf s)"
    using assms wstate_part ring_rel_part unfolding buf_inv_def by blast
  show "ring_window (begun s) n z (hs_log s) (hs_buf s)"
  proof (cases "\<exists>t. writing (hs_pc s t)")
    case True
    then show ?thesis using part by (simp add: begun_def ring_part_window)
  next
    case False
    then have "ring_rel n z (hs_log s) (hs_buf s)"
      using assms wstate_idle unfolding buf_inv_def by blast
    with False show ?thesis by (simp add: begun_def ring_rel_window)
  qed
qed

lemma begun_goto:
  assumes "\<not> writing (hs_pc s t)" and "\<not> writing pc"
  shows "begun (goto t pc (s\<lparr>hs_mx := m\<rparr>)) = begun s"
proof -
  have "(\<exists>u. writing (if u = t then pc else hs_pc s u)) \<longleftrightarrow> (\<exists>u. writing (hs_pc s u))"
    using assms by metis
  then show ?thesis by (simp add: begun_def goto_def)
qed

lemma publish_step_begun:
  assumes "publish_step now pc b = (pc', b')" and "in_body pc" and "wstate n z ps pc' b''"
  shows "writing pc \<longrightarrow> writing pc' \<or> length (stored pc) = 1" and "writing pc' \<longrightarrow> writing pc"
  using assms by (cases pc; auto simp: Let_def split: sum.splits if_splits)+

lemma buf_inv_goto:
  assumes "buf_inv n z s" and "\<not> in_body (hs_pc s t)" and "\<not> in_body pc" and "fits z pc"
    and "rd_ok (begun s) n z (hs_log s) pc"
  shows "buf_inv n z (goto t pc (s\<lparr>hs_mx := m\<rparr>))"
proof -
  have "\<forall>u. \<not> in_body (hs_pc s u)" if "\<forall>u. u \<noteq> t \<longrightarrow> \<not> in_body (hs_pc s u)"
    using that assms(2) by metis
  moreover have "begun (goto t pc (s\<lparr>hs_mx := m\<rparr>)) = begun s"
    using assms(2,3) writing_body by (intro begun_goto) auto
  ultimately show ?thesis using assms by (auto simp: buf_inv_def goto_def)
qed

lemma hist_buf_step:
  assumes "hist_exec wk pid e s = Some s'" and "excl_inv (hs_mx s)"
    and "\<And>t. linked (hs_pc s t) (ms_pc (hs_mx s) t)" and "buf_inv n z s" and "length (hs_log s') < 2 ^ 63"
  shows "buf_inv n z s'"
proof -
  have only: "u = t" if "in_body (hs_pc s t) \<or> ms_pc (hs_mx s) t = Out RetTrue" "in_body (hs_pc s u)" for t u
    using that excl_unique [OF assms(2)] in_body_linked [OF assms(3)] by metis
  note part = buf_inv_window(1) [OF assms(4)]
  from assms(1) show ?thesis
  proof (cases rule: hist_exec_cases [where z = z])
    case (local t pc)
    have "rd_ok (begun s) n z (hs_log s) pc"
      using local(6) reader_step [OF part _ buf_inv_window(2) [OF assms(4)]] assms(4) by (auto simp: buf_inv_def)
    with local assms(4) buf_inv_goto [of n z s t pc "hs_mx s"] show ?thesis by simp
  next
    case (enter t d m)
    have "slot_size_of (hs_buf s) = z" using part by (simp add: ring_part_def ring_shape_def)
    with enter assms(4) buf_inv_goto [of n z s t "PLock d" m] show ?thesis by simp
  next
    case (locking t d env m)
    have "fits z (PLock d)" using assms(4) locking(1) unfolding buf_inv_def by metis
    with locking assms(4) buf_inv_goto [of n z s t "PLock d" m] show ?thesis by simp
  next
    case (locked t d r)
    have "r = RetTrue" using assms(3) [of t] locked by auto
    then have none: "\<not> in_body (hs_pc s u)" for u using only [of t u] locked(1,2) by auto
    then have "ring_rel n z (hs_log s) (hs_buf s)" "length d \<le> z"
      using assms(4) locked(1) unfolding buf_inv_def by (blast, metis fits.simps(1))
    moreover have "rd_ok (begun s') n z (hs_log s) (hs_pc s u)" for u
    proof -
      have "begun s \<le> begun s'" using none writing_body locked(4) by (auto simp: begun_def goto_def)
      then show ?thesis using assms(4) rd_ok_append [of "begun s" n z "hs_log s" "hs_pc s u" "begun s'" "[]"]
        by (simp add: buf_inv_def)
    qed
    ultimately show ?thesis using none locked assms(4) by (auto simp: buf_inv_def goto_def)
  next
    case (body t env pc b)
    have w: "wstate n z (hs_log s) (hs_pc s t) (hs_buf s)" using body(1) assms(4) by (simp add: buf_inv_def)
    have "length (hs_log s @ stored (hs_pc s t)) < 2 ^ 63" using assms(5) body(3) by (simp add: goto_def)
    note w' = writer_step [OF w body(1,2) this]
    have none: "\<not> in_body (hs_pc s u)" if "u \<noteq> t" for u using only [of t u] that body(1) by blast
    have "begun s \<le> begun s'"
      using publish_step_begun(1) [OF body(2,1) w'] none writing_body body(3)
      by (auto simp: begun_def goto_def split: if_splits)
    then have "rd_ok (begun s') n z (hs_log s @ stored (hs_pc s t)) (hs_pc s u)" for u
      using assms(4) by (intro rd_ok_append) (auto simp: buf_inv_def)
    with none w' body(3) assms(4) publish_step_linked [OF body(2,1)] show ?thesis
      by (auto simp: buf_inv_def goto_def)
  next
    case (leave t r m)
    have "ring_rel n z (hs_log s) (hs_buf s)" using assms(4) leave(1) unfolding buf_inv_def
      by (metis in_body.simps(21) wstate.simps(11))
    moreover have "\<not> in_body (hs_pc s u)" if "u \<noteq> t" for u using only [of t u] that leave(1) by auto
    moreover have "begun s' = begun s" unfolding leave(3) using leave(1) by (intro begun_goto) auto
    ultimately show ?thesis using leave assms(4) by (auto simp: buf_inv_def goto_def)
  next
    case (unlocking t r env m)
    with assms(4) buf_inv_goto [of n z s t "PUnlock r" m] show ?thesis by simp
  qed
qed

interpretation hist: inductive_invariant "hist_init n z ps" "hist_step wk pid" "hist_inv n z"
  for n z ps wk pid
proof unfold_locales
  show "hist_inv n z s" if "hist_init n z ps s" for s
  proof -
    have "excl_inv (hs_mx s)" using that mx_excl.init_inv by (auto simp: hist_init_def)
    then show ?thesis using that by (auto simp: hist_init_def hist_inv_def buf_inv_def)
  qed
next
  fix s s' assume inv: "hist_inv n z s" and "hist_step wk pid s s'"
  then obtain e where e: "hist_exec wk pid e s = Some s'" by (auto elim: hist_stepE)
  have i: "excl_inv (hs_mx s)" "\<And>t. linked (hs_pc s t) (ms_pc (hs_mx s) t)" using inv by (auto simp: hist_inv_def)
  have "length (hs_log s) \<le> length (hs_log s')"
    using e by (cases rule: hist_exec_cases [where z = 0]) (auto simp: goto_def)
  then have "buf_inv n z s'" if "length (hs_log s') < 2 ^ 63"
    using that inv hist_buf_step [OF e i] by (simp add: hist_inv_def)
  then show "hist_inv n z s'" using hist_mx_step [OF e i] by (simp add: hist_inv_def)
qed

lemma hist_log_prefix:
  "hist_reach n z ps wk pid s \<Longrightarrow> \<exists>qs. hs_log s = ps @ qs"
proof (induction rule: reach.induct)
  case (reach_init s)
  then show ?case by (simp add: hist_init_def)
next
  case (reach_step s s')
  from reach_step.hyps(2) obtain e where "hist_exec wk pid e s = Some s'" by (auto elim: hist_stepE)
  then have "\<exists>qs. hs_log s' = hs_log s @ qs"
    by (cases rule: hist_exec_cases [where z = 0]) (auto simp: goto_def)
  with reach_step.IH show ?case by auto
qed

lemma get_latest_ring_rel:
  "ring_rel n z ps b \<Longrightarrow> get_latest b = (if ps = [] then Inl ValueError else Inr (last ps))"
  using get_latest_ring [of b ps] by (simp add: ring_rel_def ring_shape_def)

section \<open>Concrete systems\<close>

definition hist_start :: "bytes list \<Rightarrow> bytes \<Rightarrow> hist_sys" where
  "hist_start ps b = \<lparr>hs_mx = mx_start, hs_buf = b, hs_log = ps, hs_pc = (\<lambda>t. HOut HNone)\<rparr>"

lemma hist_start_init: "ring_rel n z ps b \<Longrightarrow> hist_init n z ps (hist_start ps b)"
  by (simp add: hist_init_def hist_start_def mx_init_def mx_start_def)

lemma hist_run_reach:
  "reach init (hist_step wk pid) s \<Longrightarrow> hist_run wk pid es s = Some s' \<Longrightarrow> reach init (hist_step wk pid) s'"
proof (induction es arbitrary: s)
  case (Cons e es)
  then obtain s1 where s1: "hist_exec wk pid e s = Some s1" "hist_run wk pid es s1 = Some s'"
    by (auto simp: Option.bind_eq_Some_conv)
  from Cons.IH [OF reach_step [OF Cons.prems(1) hist_stepI [OF s1(1)]] s1(2)] show ?case .
qed simp

lemma hist_start_reach:
  "ring_rel n z ps b \<Longrightarrow> hist_run wk pid es (hist_start ps b) = Some s \<Longrightarrow> hist_reach n z ps wk pid s"
  by (blast intro: hist_run_reach reach_init hist_start_init)

text \<open>
  A torn read on a ring of one slot: the reader (thread 1) finds the message in the slot and its
  size, then a publisher (thread 0) overwrites the first byte, and the reader copies the slot.
\<close>

definition torn :: "u8 \<Rightarrow> u8 \<Rightarrow> hist_event list" where
  "torn y0 y1 = HistCall 1 CallGetLatest # replicate 5 (HistStep 1 calm) @
     HistCall 0 (CallPublish [y0, y1]) # replicate 13 (HistStep 0 calm) @ replicate 3 (HistStep 1 calm)"

lemma nth_u64_put_other: "off + 8 \<le> i \<Longrightarrow> i < length m \<Longrightarrow> u64_put off v m ! i = m ! i"
  by (simp add: u64_put_def nth_overwrite del: enc_le_numeral)

lemma first_slot_facts:
  assumes "ring_rel n z [x] b"
  shows "u64_at b 16 = of_nat n" "u64_at b 24 = of_nat z" "u64_at b 32 = 1" "u64_at b 128 = of_nat (length x)"
    "128 + n * (64 + z) \<le> length b" "pyslice b 192 (192 + length x) = x"
proof -
  have h: "slots_of b = n" "slot_size_of b = z" and m: "hb_msg_idx (hb_header_at b) = 1"
    and sl: "slot_holds z b 0 x" and len: "128 + n * (64 + z) \<le> length b"
    using assms by (auto simp: ring_rel_def ring_shape_def)
  show "u64_at b 16 = of_nat n" "u64_at b 24 = of_nat z"
    unfolding h [symmetric] by (simp_all add: hb_header_at_def)
  show "u64_at b 32 = 1" using m by (simp add: hb_header_at_def)
  show "128 + n * (64 + z) \<le> length b" by (rule len)
  show "u64_at b 128 = of_nat (length x)" "pyslice b 192 (192 + length x) = x"
    using sl by (simp_all add: slot_holds_def slot_off_def)
qed

lemma one_slot_facts:
  assumes "ring_rel 1 2 [[x0, x1]] b"
  shows "u64_at b 16 = 1" "u64_at b 24 = 2" "u64_at b 32 = 1" "u64_at b 128 = 2" "194 \<le> length b"
    "b ! 193 = x1"
proof -
  note f = first_slot_facts [OF assms]
  show "u64_at b 16 = 1" "u64_at b 24 = 2" "u64_at b 32 = 1" "u64_at b 128 = 2" and len: "194 \<le> length b"
    using f(1-5) by simp_all
  have "pyslice b 192 194 ! 1 = b ! 193" using len by (subst nth_pyslice) auto
  then show "b ! 193 = x1" using f(6) by simp
qed

lemma hist_run_append: "hist_run wk pid (es @ fs) s = Option.bind (hist_run wk pid es s) (hist_run wk pid fs)"
proof (induction es arbitrary: s)
  case (Cons e es)
  then show ?case by (cases "hist_exec wk pid e s") simp_all
qed simp

lemma replicate_num: "replicate (numeral k) x = x # replicate (pred_numeral k) x"
  by (simp add: numeral_eq_Suc)

lemmas slot_access = hb_header_at_def slot_header_at_def get_slot_header_def calc_slot_offset_def
  from_buffer_def py_mod_def HB_HEADER_SIZE_def SLOT_HEADER_SIZE_def

lemma torn_read_start:
  assumes "ring_rel 1 2 [[x0, x1]] b"
  shows "hist_run wk pid (HistCall 1 CallGetLatest # replicate 5 (HistStep 1 calm)) (hist_start [[x0, x1]] b) =
    Some (goto 1 (GCopy 1 192 2 []) (hist_start [[x0, x1]] b))"
  using one_slot_facts [OF assms] by (simp add: replicate_num hist_start_def goto_def slot_access)

lemma torn_lock:
  assumes "ring_rel 1 2 ps b" and "hs_mx s = mx_start" and "hs_buf s = b" and "hs_pc s 0 = HOut HNone"
    and "pid 0 \<noteq> 0" and "length d \<le> 2"
  shows "\<exists>m. hist_run wk pid (HistCall 0 (CallPublish d) # replicate 6 (HistStep 0 calm)) s =
    Some (goto 0 (PIdx d) (s\<lparr>hs_mx := m\<rparr>))"
proof -
  have "slot_size_of b = 2" using assms(1) by (simp add: ring_rel_def ring_shape_def)
  then show ?thesis using assms(2-6) by (simp add: replicate_num goto_def mx_call_then_def mx_eval) (rule exI, rule refl)
qed

lemma torn_write:
  assumes "ring_rel 1 2 [[x0, x1]] b" and "hs_buf s = b" and "hs_pc s 0 = PIdx [y0, y1]" and "hs_log s = [[x0, x1]]"
  shows "hist_run wk pid (replicate 7 (HistStep 0 calm)) s =
    Some (goto 0 (PCopy [y0, y1] 128 192 1) (s\<lparr>hs_buf := (u64_put 136 0 (u64_put 128 2 b))[192 := y0]\<rparr>))"
  using one_slot_facts [OF assms(1)] assms(2-4)
  by (simp add: replicate_num goto_def slot_access buf_simps calm_def)

lemma torn_read_end:
  assumes "hs_buf s = b" and "hs_pc s 1 = GCopy 1 192 2 []"
  shows "hist_run wk pid (replicate 3 (HistStep 1 calm)) s = Some (goto 1 (HOut (HBytes [b ! 192, b ! 193])) s)"
  using assms by (simp add: replicate_num goto_def)

lemma torn_run:
  assumes "ring_rel 1 2 [[x0, x1]] b" and "pid 0 \<noteq> 0"
  shows "\<exists>s. hist_run wk pid (torn y0 y1) (hist_start [[x0, x1]] b) = Some s \<and>
    hs_pc s 1 = HOut (HBytes [y0, x1]) \<and> hs_log s = [[x0, x1]] \<and> in_body (hs_pc s 0)"
proof -
  let ?c = "replicate 3 (HistStep 1 calm)"
  let ?s1 = "goto 1 (GCopy 1 192 2 []) (hist_start [[x0, x1]] b)"
  from torn_lock [OF assms(1), of ?s1 pid "[y0, y1]" wk] assms(2) obtain m where
    lock: "hist_run wk pid (HistCall 0 (CallPublish [y0, y1]) # replicate 6 (HistStep 0 calm)) ?s1 =
      Some (goto 0 (PIdx [y0, y1]) (?s1\<lparr>hs_mx := m\<rparr>))" by (auto simp: goto_def hist_start_def)
  let ?s2 = "goto 0 (PIdx [y0, y1]) (?s1\<lparr>hs_mx := m\<rparr>)" and ?b = "(u64_put 136 0 (u64_put 128 2 b))[192 := y0]"
  let ?s3 = "goto 0 (PCopy [y0, y1] 128 192 1) (?s2\<lparr>hs_buf := ?b\<rparr>)"
  have "hist_run wk pid (replicate 7 (HistStep 0 calm)) ?s2 = Some ?s3"
    by (rule torn_write [OF assms(1)]) (simp_all add: goto_def hist_start_def)
  moreover have "hist_run wk pid ?c ?s3 = Some (goto 1 (HOut (HBytes [?b ! 192, ?b ! 193])) ?s3)"
    by (rule torn_read_end) (simp_all add: goto_def hist_start_def)
  moreover have "?b ! 192 = y0" "?b ! 193 = x1"
    using one_slot_facts(5,6) [OF assms(1)] by (simp_all add: nth_u64_put_other)
  moreover have "torn y0 y1 = (HistCall 1 CallGetLatest # replicate 5 (HistStep 1 calm)) @
      (HistCall 0 (CallPublish [y0, y1]) # replicate 6 (HistStep 0 calm)) @ replicate 7 (HistStep 0 calm) @ ?c"
    by (simp add: torn_def replicate_num)
  ultimately show ?thesis
    using torn_read_start [OF assms(1), of wk pid] lock
    by (simp only: hist_run_append Option.bind.bind_lunit) (simp add: goto_def hist_start_def)
qed

lemma ring_exists:
  assumes "n \<in> {1, 2}" and "length d \<le> 2"
  shows "\<exists>b. ring_rel n 2 [d] b"
proof -
  have "hb_size (int n) 2 (length ([] :: bytes)) \<le> int (length (replicate 512 (0 :: u8)))"
    using assms(1) by (auto simp: hb_size_def)
  from hb_format_rel [OF _ _ _ _ _ this] assms(1) obtain b where
    b: "hb_rel [] b" "slots_of b = n" "slot_size_of b = 2" by auto
  from publish_refines [OF b(1), of 7 d 0 0 0] b(2,3) assms(2) show ?thesis by (auto simp: hb_rel_ring)
qed

lemma two_slot_read:
  assumes "ring_rel 2 2 [[x]] b"
  shows "hist_run wk pid (HistCall 1 CallGetLatest # replicate 6 (HistStep 1 calm)) (hist_start [[x]] b) =
    Some (goto 1 (GCopy 1 192 1 [b ! 192]) (hist_start [[x]] b))"
  using first_slot_facts [OF assms] by (simp add: replicate_num hist_start_def goto_def slot_access)

section \<open>Properties\<close>

text \<open>
  C6. Concurrent publishers implement the message log. Whatever calls any number of threads of any
  processes make, and however their actions interleave, at most one thread is inside the body of
  \<open>publish\<close>, no body raises, the log only grows and the index field is its length; and
  whenever no thread is inside a body, the segment represents the whole log: each of the last
  \<open>num_slots\<close> messages is intact in its slot, and \<open>get_latest\<close> returns the last one.
\<close>

theorem history_threads_refine_log:
  assumes "hist_reach n z ps wk pid s" and "length (hs_log s) < 2 ^ 63"
  shows "(\<forall>t u. in_body (hs_pc s t) \<and> in_body (hs_pc s u) \<longrightarrow> t = u) \<and>
    (\<forall>t e. hs_pc s t \<noteq> PFinally (HRaise e)) \<and> (\<exists>qs. hs_log s = ps @ qs) \<and>
    hb_msg_idx (hb_header_at (hs_buf s)) = of_nat (length (hs_log s)) \<and>
    ((\<forall>t. \<not> in_body (hs_pc s t)) \<longrightarrow> ring_rel n z (hs_log s) (hs_buf s) \<and>
       get_latest (hs_buf s) = (if hs_log s = [] then Inl ValueError else Inr (last (hs_log s))))"
proof -
  have inv: "excl_inv (hs_mx s)" "\<And>t. linked (hs_pc s t) (ms_pc (hs_mx s) t)" "buf_inv n z s"
    using hist.reach_inv [OF assms(1)] assms(2) by (auto simp: hist_inv_def)
  have part: "ring_part n z (hs_log s) (hs_buf s)"
    using inv(3) wstate_part ring_rel_part unfolding buf_inv_def by blast
  have "t = u" if "in_body (hs_pc s t)" "in_body (hs_pc s u)" for t u
    using that in_body_linked [OF inv(2)] excl_unique [OF inv(1)] by blast
  moreover have "hs_pc s t \<noteq> PFinally (HRaise e)" for t e
    using inv(3) unfolding buf_inv_def by (metis hist_result.distinct(3) in_body.simps(21) wstate.simps(11))
  moreover have "ring_rel n z (hs_log s) (hs_buf s)" if "\<forall>t. \<not> in_body (hs_pc s t)"
    using that inv(3) by (simp add: buf_inv_def)
  ultimately show ?thesis
    using hist_log_prefix [OF assms(1)] part get_latest_ring_rel by (auto simp: ring_part_def ring_shape_def)
qed

theorem history_threads_refine_log_witness:
  "\<exists>s. hist_reach 1 2 [[1, 1]] fifo_wake (\<lambda>t. of_nat (Suc t)) s \<and> in_body (hs_pc s 0) \<and> \<not> in_body (hs_pc s 1) \<and>
    hb_msg_idx (hb_header_at (hs_buf s)) = 1"
proof -
  obtain b where b: "ring_rel 1 2 [[1, 1]] b" using ring_exists [of 1 "[1, 1]"] by auto
  from torn_run [OF b, of "\<lambda>t. of_nat (Suc t)" fifo_wake 2 2] obtain s where
    s: "hist_run fifo_wake (\<lambda>t. of_nat (Suc t)) (torn 2 2) (hist_start [[1, 1]] b) = Some s"
    "hs_log s = [[1, 1]]" "in_body (hs_pc s 0)" by auto
  have r: "hist_reach 1 2 [[1, 1]] fifo_wake (\<lambda>t. of_nat (Suc t)) s"
    using hist_start_reach [OF b s(1)] .
  from history_threads_refine_log [OF r] s(2,3) r show ?thesis by (intro exI [of _ s]) force
qed

text \<open>
  C16. A reader that is not lapped reads a message: when \<open>get_latest\<close> returns and fewer than
  \<open>num_slots\<close> messages have been begun since it loaded the index, counting the one that a writer is
  just writing, it returns exactly the message that was the latest at that load, even if writers were active
  all the time. With one slot this covers the reads during which no message is begun, and the bound is
  exact: the torn read below has one. (The reader takes no lock; fewer than 2^63 messages have been published
  in all.)
\<close>

theorem history_reader_consistent:
  assumes "hist_reach n z ps wk pid s" and "length (hs_log s) < 2 ^ 63"
    and "hs_pc s t = GCopy idx p m acc" and "hist_exec wk pid (HistStep t env) s = Some s'"
    and "hs_pc s' t = HOut r" and "begun s < nat idx + n"
  shows "0 < idx \<and> nat idx \<le> length (hs_log s) \<and> r = HBytes (hs_log s ! (nat idx - 1))"
proof -
  have "rd_ok (begun s) n z (hs_log s) (hs_pc s t)"
    using hist.reach_inv [OF assms(1)] assms(2) by (auto simp: hist_inv_def buf_inv_def)
  then have rd: "0 < idx" "idx \<le> int (length (hs_log s))" "m = length (hs_log s ! (nat idx - 1))"
    "acc = take (length acc) (hs_log s ! (nat idx - 1))" "length acc \<le> m"
    using assms(3,6) by auto
  have "\<not> length acc < m" "r = HBytes acc"
    using assms(3-5) by (auto simp: goto_def split: if_splits)
  with rd show ?thesis by auto
qed

theorem history_reader_consistent_witness:
  "\<exists>s. hist_reach 2 2 [[9]] fifo_wake (\<lambda>t. 7) s \<and> hs_pc s 1 = HOut (HBytes [9])"
proof -
  obtain b where b: "ring_rel 2 2 [[9]] b" using ring_exists [of 2 "[9]"] by auto
  let ?s = "goto 1 (GCopy 1 192 1 [b ! 192]) (hist_start [[9]] b)"
  let ?s' = "goto 1 (HOut (HBytes [b ! 192])) ?s"
  have r: "hist_reach 2 2 [[9]] fifo_wake (\<lambda>t. 7) ?s"
    using hist_start_reach [OF b two_slot_read [OF b]] .
  have e: "hist_exec fifo_wake (\<lambda>t. 7) (HistStep 1 calm) ?s = Some ?s'" by (simp add: goto_def)
  have "HBytes [b ! 192] = HBytes (hs_log ?s ! (nat 1 - 1))"
    using history_reader_consistent [OF r _ _ e, of 1 192 1 "[b ! 192]" "HBytes [b ! 192]"]
    by (simp add: goto_def hist_start_def begun_def)
  then have "hs_pc ?s' 1 = HOut (HBytes [9])" by (simp add: goto_def hist_start_def)
  with reach_step [OF r hist_stepI [OF e]] show ?thesis by blast
qed

text \<open>
  C34. A reader that is lapped can return bytes that were never published: on a ring of one slot, after
  the message \<open>[x0, x1]\<close>, a \<open>get_latest\<close> that runs while another thread publishes
  \<open>[y0, y1]\<close> can return \<open>[y0, x1]\<close>. The versions in the slot header are written but never
  compared.
\<close>

theorem history_torn_read:
  assumes "pid 0 \<noteq> 0"
  shows "\<exists>s. hist_reach 1 2 [[x0, x1]] wk pid s \<and> hs_pc s 1 = HOut (HBytes [y0, x1]) \<and>
    hs_log s = [[x0, x1]]"
proof -
  obtain b where b: "ring_rel 1 2 [[x0, x1]] b" using ring_exists [of 1 "[x0, x1]"] by auto
  from torn_run [OF b, of pid wk y0 y1] assms obtain s where
    s: "hist_run wk pid (torn y0 y1) (hist_start [[x0, x1]] b) = Some s"
    "hs_pc s 1 = HOut (HBytes [y0, x1])" "hs_log s = [[x0, x1]]" by blast
  have "hist_reach 1 2 [[x0, x1]] wk pid s"
    using hist_start_reach [OF b s(1)] .
  with s(2,3) show ?thesis by blast
qed

theorem history_torn_read_witness:
  "\<exists>s. hist_reach 1 2 [[1, 1]] fifo_wake (\<lambda>t. of_nat (Suc t)) s \<and> hs_pc s 1 = HOut (HBytes [2, 1])"
  using history_torn_read [of "\<lambda>t. of_nat (Suc t)" 1 1 fifo_wake 2] by auto

end
