(* ===== verification/History_Machine.thy ===== *)
theory History_Machine
  imports History_Threads
begin

text \<open>
  The actions of the threads and the sequential operations of the history buffer describe the same
  code: run without interference, the machine computes what \<open>publish_slot\<close> and
  \<open>get_latest\<close> compute.
\<close>

section \<open>The machine and the sequential operations\<close>

fun ticks :: "u64 \<Rightarrow> u64 \<Rightarrow> hist_pc \<Rightarrow> u64" where
  \<comment> \<open>the first clock value goes to \<open>start_version\<close>\<close>
  "ticks t1 t2 (PStart d si off) = t1"
| "ticks t1 t2 pc = t2"

definition body_step :: "u64 \<Rightarrow> u64 \<Rightarrow> hist_pc \<times> bytes \<Rightarrow> hist_pc \<times> bytes" where
  "body_step t1 t2 x = publish_step (ticks t1 t2 (fst x)) (fst x) (snd x)"

fun result_of :: "('a \<Rightarrow> hist_result) \<Rightarrow> 'a res \<Rightarrow> hist_result" where
  "result_of f (Inl e) = HRaise e"
| "result_of f (Inr x) = f x"

lemma funpow_plus: "(f ^^ (m + n)) x = (f ^^ m) ((f ^^ n) x)"
  by (simp add: funpow_add)

lemma funpow_fixed: "f x = x \<Longrightarrow> (f ^^ n) x = x"
  by (induction n) auto

lemma body_step_final [simp]: "(body_step t1 t2 ^^ k) (PFinally r, b) = (PFinally r, b)"
  by (rule funpow_fixed) (simp add: body_step_def)

lemma body_copy:
  assumes "p + length d \<le> length b" and "j \<le> length d"
  shows "(body_step t1 t2 ^^ (length d - j)) (PCopy d off p j, b) =
    (PCopy d off p (length d), overwrite b (p + j) (drop j d))"
  using assms
proof (induction "length d - j" arbitrary: j b)
  case 0
  then show ?case by (simp add: overwrite_def)
next
  case (Suc m)
  then have j: "j < length d" "m = length d - Suc j" by auto
  have "(body_step t1 t2 ^^ (length d - j)) (PCopy d off p j, b) =
      (body_step t1 t2 ^^ (length d - Suc j)) (PCopy d off p (Suc j), b[p + j := d ! j])"
    using j Suc.hyps(2) by (simp only: Suc.hyps(2) [symmetric] funpow_Suc_right) (simp add: body_step_def)
  also have "\<dots> = (PCopy d off p (length d), overwrite (b[p + j := d ! j]) (p + Suc j) (drop (Suc j) d))"
    using Suc.hyps(1) [OF j(2), of "b[p + j := d ! j]"] Suc.prems(1) j(1) by simp
  also have "overwrite (b[p + j := d ! j]) (p + Suc j) (drop (Suc j) d) = overwrite b (p + j) (drop j d)"
    using overwrite_append [of "p + j" "[d ! j]" "drop (Suc j) d" b] Suc.prems(1) j(1)
    by (simp add: list_update_overwrite Cons_nth_drop_Suc)
  finally show ?case .
qed

lemma body_copy_all:
  "p + length d \<le> length b \<Longrightarrow>
    (body_step t1 t2 ^^ length d) (PCopy d off p 0, b) = (PCopy d off p (length d), overwrite b p d)"
  using body_copy [of p d b 0] by simp

lemma body_slot:
  fixes t1 t2 :: u64 and d b :: bytes
  assumes "get_slot_header b si = Inr off" and "0 \<le> si"
  defines "b1 \<equiv> u64_put (off + 8) t1 (u64_put off (of_nat (length d)) b)"
  shows "(body_step t1 t2 ^^ (length d + 8)) (PSlot d si, b) =
    (case memoryview_setslice b1 (off + 64) (off + 64 + length d) d of
       Inl e \<Rightarrow> (PFinally (HRaise e), b1)
     | Inr b2 \<Rightarrow> (let b3 = u64_put (off + 16) t2 b2
                   in (PFinally HNone, u64_put 32 (hb_msg_idx (hb_header_at b3) + 1) b3)))"
proof -
  let ?p = "off + 64"
  have "0 \<le> si * (64 + uint (hb_slot_size (hb_header_at b)))" using assms(2) by simp
  then have off: "128 \<le> off" "off + 64 \<le> length b" "off = nat (calc_slot_offset (hb_header_at b) si)"
    using assms(1) by (auto simp: get_slot_header_def from_buffer_def calc_slot_offset_def HB_HEADER_SIZE_def
        SLOT_HEADER_SIZE_def split: if_splits)
  have h: "hb_header_at b1 = hb_header_at b" "length b1 = length b"
    using off unfolding b1_def by (intro header_frame, auto simp: u64.slice_wr)
  have "(body_step t1 t2 ^^ 4) (PSlot d si, b) =
      (if length (pyslice b1 ?p (?p + length d)) = length d then (PCopy d off ?p 0, b1)
       else (PFinally (HRaise ValueError), b1))"
    using assms(1) off(3) h(1)
    by (simp add: eval_nat_numeral body_step_def Let_def SLOT_HEADER_SIZE_def b1_def)
  then have start: "(body_step t1 t2 ^^ (length d + 8)) (PSlot d si, b) =
      (body_step t1 t2 ^^ (4 + length d))
        (if length (pyslice b1 ?p (?p + length d)) = length d then (PCopy d off ?p 0, b1)
         else (PFinally (HRaise ValueError), b1))"
    using funpow_plus [of "4 + length d" 4 "body_step t1 t2" "(PSlot d si, b)"] by (simp add: add.commute)
  show ?thesis
  proof (cases "length (pyslice b1 ?p (?p + length d)) = length d")
    case True
    then have "?p + length d \<le> length b1" using off(2) h(2) by simp
    then have "(body_step t1 t2 ^^ length d) (PCopy d off ?p 0, b1) = (PCopy d off ?p (length d), overwrite b1 ?p d)"
      by (rule body_copy_all)
    then have "(body_step t1 t2 ^^ (4 + length d)) (PCopy d off ?p 0, b1) =
        (body_step t1 t2 ^^ 4) (PCopy d off ?p (length d), overwrite b1 ?p d)"
      by (simp only: funpow_plus)
    also have "\<dots> = (let b3 = u64_put (off + 16) t2 (overwrite b1 ?p d)
        in (PFinally HNone, u64_put 32 (hb_msg_idx (hb_header_at b3) + 1) b3))"
      by (simp add: eval_nat_numeral body_step_def Let_def)
    finally show ?thesis using start True by (simp add: memoryview_setslice_def)
  next
    case False
    then show ?thesis using start by (simp add: memoryview_setslice_def del: length_pyslice)
  qed
qed

lemma body_machine:
  "(body_step t1 t2 ^^ (length d + 10)) (PIdx d, b) =
     (PFinally (result_of (\<lambda>u. HNone) (fst (publish_slot t1 t2 d b))), snd (publish_slot t1 t2 d b))"
proof -
  let ?h = "hb_header_at b"
  have "(body_step t1 t2 ^^ (length d + 10)) (PIdx d, b) =
      (body_step t1 t2 ^^ (length d + 8)) ((body_step t1 t2 ^^ 2) (PIdx d, b))"
    using funpow_plus [of "length d + 8" 2 "body_step t1 t2" "(PIdx d, b)"] by (simp add: add.commute)
  moreover have "(body_step t1 t2 ^^ 2) (PIdx d, b) =
      (case py_mod (sint (hb_msg_idx ?h)) (uint (hb_num_slots ?h)) of
         Inl e \<Rightarrow> (PFinally (HRaise e), b) | Inr si \<Rightarrow> (PSlot d si, b))"
    by (simp add: eval_nat_numeral body_step_def)
  moreover have "(body_step t1 t2 ^^ (length d + 8)) (PSlot d si, b) = (PFinally (HRaise e), b)"
    if "get_slot_header b si = Inl e" for si e
    using that funpow_plus [of "length d + 7" 1 "body_step t1 t2" "(PSlot d si, b)"]
    by (simp add: body_step_def [of _ _ "(PSlot d si, b)"] add.commute)
  moreover have "0 \<le> si" if "py_mod (sint (hb_msg_idx ?h)) (uint (hb_num_slots ?h)) = Inr si" for si
    using that by (auto simp: py_mod_def split: if_splits intro: pos_mod_sign simp: order_less_le)
  ultimately show ?thesis
    by (auto simp: publish_slot_def Let_def SLOT_HEADER_SIZE_def body_slot split: sum.splits)
qed

lemma copy_machine:
  "p + n \<le> length b \<Longrightarrow> length acc \<le> n \<Longrightarrow>
    ((\<lambda>pc. get_latest_step pc b) ^^ (Suc n - length acc)) (GCopy i p n acc) =
      HOut (HBytes (acc @ pyslice b (p + length acc) (p + n)))"
proof (induction "n - length acc" arbitrary: acc)
  case 0
  then show ?case by (simp add: pyslice_def)
next
  case (Suc m)
  let ?x = "b ! (p + length acc)"
  have l: "length acc < n" "m = n - length (acc @ [?x])" using Suc.hyps(2) by auto
  have "pyslice b (p + length acc) (p + n) = ?x # pyslice b (p + Suc (length acc)) (p + n)"
    using Suc.prems(1) l(1) Cons_nth_drop_Suc [of "p + length acc" b]
    by (cases "n - length acc") (simp_all add: pyslice_def, metis One_nat_def Suc_diff_Suc diff_Suc_1 take_Suc_Cons)
  moreover have "Suc n - length acc = Suc (Suc n - length (acc @ [?x]))" using l(1) by simp
  ultimately show ?case
    using Suc.hyps(1) [OF l(2)] Suc.prems(1) l(1) by (simp only: funpow_Suc_right) simp
qed

lemma read_final [simp]: "((\<lambda>pc. get_latest_step pc b) ^^ k) (HOut r) = HOut r"
  by (rule funpow_fixed) simp

lemma read_machine:
  "((\<lambda>pc. get_latest_step pc b) ^^ (length b + 6)) GIdx = HOut (result_of HBytes (get_latest b))"
proof -
  let ?f = "\<lambda>pc. get_latest_step pc b" and ?h = "hb_header_at b"
  have slot: "(?f ^^ (length b + 4)) (GSlot i si) = HOut (result_of HBytes (res_bind (get_slot_header b si)
      (\<lambda>off. Inr (pyslice b (off + 64) (off + 64 + unat (sl_size (slot_header_at b off)))))))" for i si
  proof (cases "get_slot_header b si")
    case (Inl e)
    then show ?thesis using funpow_plus [of "length b + 3" 1 ?f "GSlot i si"] by (simp add: add.commute)
  next
    case (Inr off)
    let ?p = "off + 64" and ?n = "unat (sl_size (slot_header_at b off))"
    let ?m = "length (pyslice b ?p (?p + ?n))"
    have "off = nat (calc_slot_offset ?h si)"
      using Inr by (auto simp: get_slot_header_def from_buffer_def split: if_splits)
    then have "(?f ^^ 3) (GSlot i si) = GCopy i ?p ?m []"
      using Inr by (simp add: eval_nat_numeral SLOT_HEADER_SIZE_def)
    then have "(?f ^^ (length b + 4)) (GSlot i si) = (?f ^^ (length b - ?m)) ((?f ^^ Suc ?m) (GCopy i ?p ?m []))"
      using funpow_plus [of "length b + 1" 3 ?f "GSlot i si"] funpow_plus [of "length b - ?m" "Suc ?m" ?f "GCopy i ?p ?m []"]
      by (simp add: add.commute)
    also have "\<dots> = HOut (HBytes (pyslice b ?p (?p + ?m)))"
      using copy_machine [of ?p ?m b "[]" i] by (cases "length b \<le> ?p") (auto simp: pyslice_def)
    also have "pyslice b ?p (?p + ?m) = pyslice b ?p (?p + ?n)" by (simp add: pyslice_def min_def)
    finally show ?thesis using Inr by simp
  qed
  have "(?f ^^ (length b + 6)) GIdx = (?f ^^ (length b + 4)) (?f (?f GIdx))"
    using funpow_plus [of "length b + 4" 2 ?f GIdx] by (simp add: eval_nat_numeral)
  then show ?thesis
    by (simp add: get_latest_def Let_def SLOT_HEADER_SIZE_def slot del: funpow.simps split: sum.splits)
qed

section \<open>Properties\<close>

text \<open>
  The machine and the sequential model agree: without interference, the actions of the body of
  \<open>publish\<close> lead to the result and the bytes of \<open>publish_slot\<close> after at most
  \<open>length d + 10\<close> of them, and the actions of \<open>get_latest\<close> to its result, on every segment
  and on every branch, errors included.
\<close>

theorem history_machine_sequential:
  "(body_step t1 t2 ^^ (length d + 10)) (PIdx d, b) =
     (PFinally (result_of (\<lambda>u. HNone) (fst (publish_slot t1 t2 d b))), snd (publish_slot t1 t2 d b)) \<and>
   ((\<lambda>pc. get_latest_step pc b) ^^ (length b + 6)) GIdx = HOut (result_of HBytes (get_latest b))"
  by (intro conjI body_machine read_machine)

end
