(* ===== verification/History_Shared.thy ===== *)
theory History_Shared
  imports History_Correct
begin

text \<open>
  The history buffer between processes: one process creates and publishes, another attaches by name
  and reads. Composes the constructors (on guarded shared memory) with the ring.
\<close>

lemma attach_args:
  assumes "CHR ''/'' \<notin> set nm" and "0 < n"
  defines "a \<equiv> (gsm_args_of (hb_shm_name nm) n)\<lparr>a_attach_only := True, a_try_cleanup := False\<rparr>"
  shows "good_args a" "1 \<le> a_max_attempts a" "posix_of a = CHR ''/'' # hb_shm_name nm" "a_size a = n"
  using assms by (simp_all add: good_args_def gsm_args_of_def hb_shm_name_def)

lemma attach_segment:
  assumes "CHR ''/'' \<notin> set nm" and "0 < n" and "os_shm s (CHR ''/'' # hb_shm_name nm) = Some ino"
    and "n \<le> int (length (os_ino s ino))"
  shows "\<exists>g s'. GuardedSharedMemory_new environ pid
      ((gsm_args_of (hb_shm_name nm) n)\<lparr>a_attach_only := True, a_try_cleanup := False\<rparr>) quiet_init s = (Inr g, s') \<and>
    gsm_buf g = Inr ino \<and> os_ino s' = os_ino s \<and> os_shm s' = os_shm s"
  using new_attaches [OF attach_args(1,2) [OF assms(1,2)], of s ino environ pid] assms
  by (simp add: handle_of_def gsm_buf_def gsm_args_of_def)

lemma hb_attach_rel:
  assumes "hb_rel ps b"
  shows "\<exists>b'. hb_attach b = (Inr (), b') \<and> hb_rel ps b' \<and> get_meta b' = get_meta b"
proof -
  have ok: "128 \<le> length b" "hb_magic (hb_header_at b) = HB_MAGIC" using assms by (auto simp: hb_rel_def hb_ok_def)
  let ?b = "u32_store_rel 64 MUTEX_OFF_MAGIC MUTEX_MAGIC b"
  note f = store_magic_frame [OF ok(1)]
  note fr = f [THEN conjunct1]
  have "hb_rel ps ?b"
    using assms f mutex_frame_header [OF fr] mutex_frame_length [OF fr] mutex_frame_slot [OF fr]
    by (auto simp: hb_rel_def hb_ok_def)
  moreover have "get_meta ?b = get_meta b"
    using mutex_frame_header [OF fr] mutex_frame_above [OF fr]
    by (simp add: get_meta_def Let_def calc_meta_offset_def HB_HEADER_SIZE_def)
  ultimately show ?thesis using ok by (simp add: hb_attach_def from_buffer_def HB_HEADER_SIZE_def)
qed

lemma calc_total_size_pos: "0 < calc_total_size h"
proof -
  have pos: "0 < 128 + a + (b + 1) * 64" if "0 \<le> a" "0 \<le> b" for a b :: int using that by simp
  show ?thesis unfolding calc_total_size_def HB_HEADER_SIZE_def SLOT_HEADER_SIZE_def of_nat_numeral
    by (rule pos) (simp_all add: pos_imp_zdiv_nonneg_iff)
qed

lemma attach_history:
  assumes "CHR ''/'' \<notin> set nm" and "os_shm s (CHR ''/'' # hb_shm_name nm) = Some ino"
    and "hb_rel ps (os_ino s ino)" and "calc_total_size (hb_header_at (os_ino s ino)) \<le> int (length (os_ino s ino))"
  shows "\<exists>g s'. NamedHistoryBuffer_init environ pid nm quiet_init quiet_init s = (Inr g, s') \<and>
    gsm_buf g = Inr ino \<and> hb_rel ps (os_ino s' ino) \<and> os_shm s' = os_shm s \<and>
    get_meta (os_ino s' ino) = get_meta (os_ino s ino) \<and> (\<forall>i. i \<noteq> ino \<longrightarrow> os_ino s' i = os_ino s i)"
proof -
  have ok: "128 \<le> int (length (os_ino s ino))" "hb_magic (hb_header_at (os_ino s ino)) = HB_MAGIC"
    using assms(3) by (auto simp: hb_rel_def hb_ok_def)
  from attach_segment [OF assms(1) _ assms(2) ok(1), of environ pid] obtain tmp s1 where
    t: "GuardedSharedMemory_new environ pid
        ((gsm_args_of (hb_shm_name nm) 128)\<lparr>a_attach_only := True, a_try_cleanup := False\<rparr>) quiet_init s = (Inr tmp, s1)"
    "gsm_buf tmp = Inr ino" "os_ino s1 = os_ino s" "os_shm s1 = os_shm s" by auto
  obtain r tmp' s2 where d: "gsm_detach False tmp s1 = (r, tmp', s2)" by (metis prod_cases3)
  then have s2: "os_ino s2 = os_ino s" "os_shm s2 = os_shm s"
    using t(3,4) by (auto simp: gsm_detach_def os_close_def split: option.splits)
  let ?n = "calc_total_size (hb_header_at (os_ino s ino))"
  from attach_segment [OF assms(1) calc_total_size_pos, of s2 ino "hb_header_at (os_ino s ino)" environ pid]
  obtain g s3 where
    g: "GuardedSharedMemory_new environ pid
        ((gsm_args_of (hb_shm_name nm) ?n)\<lparr>a_attach_only := True, a_try_cleanup := False\<rparr>) quiet_init s2 = (Inr g, s3)"
    "gsm_buf g = Inr ino" "os_ino s3 = os_ino s" "os_shm s3 = os_shm s" using assms(2,4) s2 by auto
  from hb_attach_rel [OF assms(3)] obtain b where
    b: "hb_attach (os_ino s ino) = (Inr (), b)" "hb_rel ps b" "get_meta b = get_meta (os_ino s ino)" by blast
  have "(gsm_args_of (hb_shm_name nm) 128)\<lparr>a_attach_only := True, a_try_cleanup := False, a_size := ?n\<rparr> =
      (gsm_args_of (hb_shm_name nm) ?n)\<lparr>a_attach_only := True, a_try_cleanup := False\<rparr>"
    by (simp add: gsm_args_of_def)
  then have "NamedHistoryBuffer_init environ pid nm quiet_init quiet_init s = (Inr g, put_ino ino b s3)"
    using t d g b(1) ok(2)
    by (simp add: NamedHistoryBuffer_init_def HB_HEADER_SIZE_def on_segment_def Let_def)
  then show ?thesis using g b(2,3) by (auto simp: put_ino_def)
qed

lemma publish_all_frame:
  assumes "hb_rel ps b" and "pid \<noteq> 0" and "\<forall>d \<in> set ds. length d \<le> slot_size_of b"
    and "length ps + length ds < 2 ^ 63"
  shows "\<exists>b'. publish_all pid now t1 t2 ds b = Some b' \<and> hb_rel (ps @ ds) b' \<and>
    slots_of b' = slots_of b \<and> slot_size_of b' = slot_size_of b \<and>
    calc_total_size (hb_header_at b') = calc_total_size (hb_header_at b) \<and> length b' = length b"
  using assms
proof (induction ds arbitrary: ps b)
  case (Cons d ds)
  then obtain b1 where b1: "publish pid now t1 t2 d b = Some (Inr (), b1)" "hb_rel (ps @ [d]) b1"
    "slot_size_of b1 = slot_size_of b" "slots_of b1 = slots_of b" "calc_total_size (hb_header_at b1) = calc_total_size (hb_header_at b)"
    "length b1 = length b"
    using publish_refines [OF Cons.prems(1,2), of d now t1 t2] by auto
  from Cons.IH [OF b1(2) Cons.prems(2)] Cons.prems(3,4) b1(3) obtain b' where
    "publish_all pid now t1 t2 ds b1 = Some b'" "hb_rel ((ps @ [d]) @ ds) b'"
    "slots_of b' = slots_of b1" "slot_size_of b' = slot_size_of b1"
    "calc_total_size (hb_header_at b') = calc_total_size (hb_header_at b1)" "length b' = length b1" by auto
  with b1 show ?case by (simp add: publish_ok_def)
qed simp

section \<open>Properties\<close>

text \<open>
  C25. The buffer is shared by name: one process creates it and publishes messages; another process
  that attaches to the name afterwards maps the same segment, which represents the complete history, and
  reads the last message.
\<close>

theorem history_shared_by_name:
  assumes "nm \<noteq> []" and "CHR ''/'' \<notin> set nm" and "os_shm s (CHR ''/'' # hb_shm_name nm) = None"
    and "1 \<le> num_slots" and "num_slots < 2 ^ 64" and "0 \<le> slot_size" and "slot_size < 2 ^ 64"
    and "\<forall>c \<in> set meta. scalar c" and "length (utf8_encode meta) < 2 ^ 64"
    and "pid32 \<noteq> 0" and "\<forall>d \<in> set ds. int (length d) \<le> slot_size" and "ds \<noteq> []" and "length ds < 2 ^ 63"
  shows "\<exists>g ino s1 b h s2. NamedHistoryBuffer_create environ pid nm num_slots slot_size meta quiet_init s = (Inr g, s1) \<and>
    gsm_buf g = Inr ino \<and> publish_all pid32 now t1 t2 ds (os_ino s1 ino) = Some b \<and>
    NamedHistoryBuffer_init environ' pid' nm quiet_init quiet_init (put_ino ino b s1) = (Inr h, s2) \<and>
    gsm_buf h = Inr ino \<and> hb_rel ds (os_ino s2 ino) \<and> get_latest (os_ino s2 ino) = Inr (last ds)"
proof -
  from create_segment [OF assms(1-9), of environ pid] obtain g ino s1 where
    c: "NamedHistoryBuffer_create environ pid nm num_slots slot_size meta quiet_init s = (Inr g, s1)"
    "gsm_buf g = Inr ino" "os_shm s1 (CHR ''/'' # hb_shm_name nm) = Some ino" "hb_rel [] (os_ino s1 ino)"
    "slot_size_of (os_ino s1 ino) = nat slot_size"
    "calc_total_size (hb_header_at (os_ino s1 ino)) = int (length (os_ino s1 ino))" by blast
  have "\<forall>d \<in> set ds. length d \<le> slot_size_of (os_ino s1 ino)" using assms(6,11) c(5) by auto
  from publish_all_frame [OF c(4) assms(10) this, of now t1 t2] assms(13) c(6) obtain b where
    b: "publish_all pid32 now t1 t2 ds (os_ino s1 ino) = Some b" "hb_rel ds b"
    "calc_total_size (hb_header_at b) \<le> int (length b)" by auto
  let ?s = "put_ino ino b s1"
  have "os_shm ?s (CHR ''/'' # hb_shm_name nm) = Some ino" "os_ino ?s ino = b" using c(3) by (simp_all add: put_ino_def)
  with attach_history [OF assms(2), of ?s ino ds environ' pid'] b obtain h s2 where
    h: "NamedHistoryBuffer_init environ' pid' nm quiet_init quiet_init ?s = (Inr h, s2)" "gsm_buf h = Inr ino"
    "hb_rel ds (os_ino s2 ino)" by auto
  have "get_latest (os_ino s2 ino) = Inr (last ds)" using get_latest_refines [OF h(3)] assms(12) by simp
  with b(1) c(1,2) h show ?thesis by blast
qed

theorem history_shared_by_name_witness:
  "\<exists>g ino s1 b h s2. NamedHistoryBuffer_create None 7 ''h'' 4 16 [104] quiet_init os_empty = (Inr g, s1) \<and>
    publish_all 7 0 1 2 [[1, 2], [3]] (os_ino s1 ino) = Some b \<and>
    NamedHistoryBuffer_init None 8 ''h'' quiet_init quiet_init (put_ino ino b s1) = (Inr h, s2) \<and>
    get_latest (os_ino s2 ino) = Inr [3]"
proof -
  have a: "''h'' \<noteq> []" "CHR ''/'' \<notin> set ''h''" "os_shm os_empty (CHR ''/'' # hb_shm_name ''h'') = None"
    "\<forall>c \<in> set [104]. scalar c" "length (utf8_encode [104]) < 2 ^ 64"
    by (simp_all add: os_empty_def scalar_def utf8_encode_def utf8_char_def)
  have "\<forall>d \<in> set [[1, 2], [3] :: bytes]. int (length d) \<le> 16" "(7 :: u32) \<noteq> 0" by simp_all
  from history_shared_by_name [OF a(1-3) _ _ _ _ a(4,5) this(2,1), of 4 None 7 0 1 2 None 8] show ?thesis
    by (simp del: publish_all.simps) blast
qed

section \<open>Views\<close>

lemma view_of_latest:
  assumes "hb_rel ps b" and "ps \<noteq> []"
  shows "get_latest_view b = Inr (slot_off (slot_size_of b) ((length ps - 1) mod slots_of b) + 64, length (last ps))"
proof -
  let ?n = "length ps - 1" and ?m = "slots_of b" and ?z = "slot_size_of b"
  have ok: "128 + ?m * (64 + ?z) \<le> length b" "0 < ?m" and n: "?n < 2 ^ 63" "Suc ?n < 2 ^ 63" "length ps = Suc ?n"
    using assms by (auto simp: hb_rel_def hb_ok_def)
  have idx: "sint (hb_msg_idx (hb_header_at b)) = int ?n + 1"
    using assms(1) sint_of_nat_small [OF n(2)] n(3) by (simp add: hb_rel_def)
  have k: "py_mod (int ?n) (uint (hb_num_slots (hb_header_at b))) = Inr (int (?n mod ?m))"
    using slot_index_nat [OF n(1) ok(2)] by (simp only: sint_of_nat_small [OF n(1)])
  have km: "?n mod ?m < ?m" using ok(2) by simp
  have "slot_holds ?z b (?n mod ?m) (last ps)"
    using assms n ok(2) by (auto simp: hb_rel_def last_conv_nth)
  then have h: "unat (sl_size (slot_header_at b (slot_off ?z (?n mod ?m)))) = length (last ps)"
    "length (pyslice b (slot_off ?z (?n mod ?m) + 64) (slot_off ?z (?n mod ?m) + 64 + length (last ps))) = length (last ps)"
    using unat_u64_less [of "hb_slot_size (hb_header_at b)"]
    by (auto simp: slot_holds_def slot_header_at_def unat_of_nat)
  show ?thesis using assms(2) idx k h get_slot_header_ok [OF ok(1) km]
    by (simp add: get_latest_view_def Let_def SLOT_HEADER_SIZE_def)
qed

lemma slot_view:
  assumes "slot_holds z b k d" and "n \<le> length d"
  shows "view_bytes (slot_off z k + 64, n) b = take n d"
proof -
  have "take n (pyslice b (slot_off z k + 64) (slot_off z k + 64 + length d)) = take n d"
    using assms(1) by (simp add: slot_holds_def)
  then show ?thesis using assms(2) by (simp add: view_bytes_def pyslice_def min_absorb1)
qed

text \<open>
  How long a view without copying is good: it shows the latest message, the same as the copy;
  it still does after up to \<open>num_slots - 1\<close> further messages; the next message, if it is not
  shorter, replaces its contents, and the reader that holds the view sees bytes of that message.
\<close>

theorem history_view_lifetime:
  assumes "hb_rel ps b" and "ps \<noteq> []" and "pid \<noteq> 0" and "\<forall>d \<in> set ds. length d \<le> slot_size_of b"
    and "length ps + length ds < 2 ^ 63"
  shows "\<exists>v b'. get_latest_view b = Inr v \<and> get_latest b = Inr (view_bytes v b) \<and>
    publish_all pid now t1 t2 ds b = Some b' \<and>
    (length ds < slots_of b \<longrightarrow> view_bytes v b' = last ps) \<and>
    (length ds = slots_of b \<and> length (last ps) \<le> length (last ds) \<longrightarrow>
       view_bytes v b' = take (length (last ps)) (last ds))"
proof -
  let ?n = "length ps - 1" and ?m = "slots_of b" and ?z = "slot_size_of b"
  let ?v = "(slot_off ?z (?n mod ?m) + 64, length (last ps))"
  have n: "length ps = Suc ?n" "0 < ?m" using assms(1,2) by (auto simp: hb_rel_def hb_ok_def)
  from publish_all_frame [OF assms(1,3,4,5), of now t1 t2] obtain b' where
    b': "publish_all pid now t1 t2 ds b = Some b'" "hb_rel (ps @ ds) b'" "slots_of b' = ?m" "slot_size_of b' = ?z"
    by blast
  have holds: "slot_holds ?z b' (i mod ?m) ((ps @ ds) ! i)"
    if "i < length (ps @ ds)" "length (ps @ ds) \<le> i + ?m" for i
    using that b'(2-4) by (auto simp: hb_rel_def)
  have "slot_holds ?z b (?n mod ?m) (last ps)" using assms(1,2) n by (auto simp: hb_rel_def last_conv_nth)
  then have "get_latest b = Inr (view_bytes ?v b)"
    using get_latest_refines [OF assms(1)] assms(2) by (simp add: slot_view)
  moreover have "view_bytes ?v b' = last ps" if "length ds < ?m"
  proof -
    have "slot_holds ?z b' (?n mod ?m) ((ps @ ds) ! ?n)" using that n by (intro holds) auto
    then show ?thesis using assms(2) n by (simp add: slot_view nth_append last_conv_nth)
  qed
  moreover have "view_bytes ?v b' = take (length (last ps)) (last ds)"
    if "length ds = ?m" "length (last ps) \<le> length (last ds)"
  proof -
    have "slot_holds ?z b' ((?n + ?m) mod ?m) ((ps @ ds) ! (?n + ?m))" using that n by (intro holds) auto
    moreover have "ds \<noteq> []" using that(1) n(2) by auto
    then have "(ps @ ds) ! (?n + ?m) = last ds"
      using that(1) n last_conv_nth [of ds] by (auto simp: nth_append)
    ultimately show ?thesis using that(2) by (simp add: slot_view)
  qed
  ultimately show ?thesis using view_of_latest [OF assms(1,2)] b'(1) by blast
qed

theorem history_view_lifetime_witness:
  "\<exists>b v b'. get_latest_view b = Inr v \<and> view_bytes v b = [4] \<and>
    publish_all 7 0 1 2 [[5], [6], [7], [8]] b = Some b' \<and> view_bytes v b' = [8]"
proof -
  have "\<forall>d \<in> set [[4] :: bytes]. length d \<le> slot_size_of demo_buf" by (simp add: demo_buf_rel(3))
  from publish_all_frame [OF demo_buf_rel(1) _ this, of 7 0 1 2] obtain b where
    b: "hb_rel [[4]] b" "slots_of b = 4" "slot_size_of b = 16" using demo_buf_rel(2,3) by auto
  have "\<forall>d \<in> set [[5], [6], [7], [8] :: bytes]. length d \<le> slot_size_of b" by (simp add: b(3))
  from history_view_lifetime [OF b(1) _ _ this, of 7 0 1 2] b(2) get_latest_refines [OF b(1)] obtain v b' where
    "get_latest_view b = Inr v" "view_bytes v b = [4]" "publish_all 7 0 1 2 [[5], [6], [7], [8]] b = Some b'"
    "view_bytes v b' = [8]" by (auto simp del: publish_all.simps)
  then show ?thesis by blast
qed

section \<open>Creating a buffer that exists\<close>

text \<open>
  C33. \<open>create\<close> does not create a new buffer when the name is in use: it returns a handle on the
  segment that is there and formats it. When that segment is a live buffer, with messages and with a
  writer that holds its mutex, the messages are gone for every process, a reader that got the last
  message before now gets \<open>ValueError\<close>, and another process can acquire the mutex that the
  writer still holds.
\<close>

theorem history_create_resets_live_buffer:
  assumes "nm \<noteq> []" and "CHR ''/'' \<notin> set nm" and "os_shm s (CHR ''/'' # hb_shm_name nm) = Some ino"
    and "1 \<le> num_slots" and "num_slots < 2 ^ 64" and "0 \<le> slot_size" and "slot_size < 2 ^ 64"
    and "\<forall>c \<in> set meta. scalar c" and "length (utf8_encode meta) < 2 ^ 64"
    and "hb_size num_slots slot_size (length (utf8_encode meta)) \<le> int (length (os_ino s ino))"
    and "ring_rel (slots_of (os_ino s ino)) (slot_size_of (os_ino s ino)) ps (os_ino s ino)" and "ps \<noteq> []"
    and "mx_state (mutex64_at (os_ino s ino) 64) \<noteq> 0" and "q \<noteq> 0"
  shows "\<exists>g s' m. NamedHistoryBuffer_create environ pid nm num_slots slot_size meta quiet_init s = (Inr g, s') \<and>
    gsm_buf g = Inr ino \<and> get_latest (os_ino s ino) = Inr (last ps) \<and>
    hb_rel [] (os_ino s' ino) \<and> get_latest (os_ino s' ino) = Inl ValueError \<and>
    mutex_acquire q now 64 (os_ino s' ino) = Owned m"
proof -
  let ?m = "utf8_encode meta"
  let ?n = "hb_size num_slots slot_size (length ?m)"
  let ?a = "(gsm_args_of (hb_shm_name nm) ?n)\<lparr>a_try_cleanup := False\<rparr>"
  have pos: "0 < ?n" using assms(4,6) unfolding hb_size_def by (intro add_pos_nonneg) auto
  have a: "good_args ?a" "1 \<le> a_max_attempts ?a" "os_shm s (posix_of ?a) = Some ino"
    "a_size ?a \<le> int (length (os_ino s ino))"
    using assms(1-3,10) pos by (simp_all add: good_args_def gsm_args_of_def hb_shm_name_def)
  from new_attaches [OF a, of environ pid] obtain g s1 where
    init: "GuardedSharedMemory_new environ pid ?a quiet_init s = (Inr g, s1)"
    and g: "gsm_buf g = Inr ino" "os_ino s1 = os_ino s" by (auto simp: handle_of_def gsm_buf_def)
  from hb_format_rel [OF assms(4-7,9,10)] obtain b where
    b: "and_then (hb_format num_slots slot_size ?m) hb_attach (os_ino s ino) = (Inr (), b)" "hb_rel [] b" by blast
  have e: "str_encode meta = Inr ?m" using assms(8) by (simp add: str_encode_def list_all_iff)
  have n: "int HB_HEADER_SIZE + num_slots * (int SLOT_HEADER_SIZE + slot_size) + (int (length ?m) div 64 + 1) * 64 = ?n"
    by (simp add: hb_size_def HB_HEADER_SIZE_def SLOT_HEADER_SIZE_def)
  have c: "NamedHistoryBuffer_create environ pid nm num_slots slot_size meta quiet_init s = (Inr g, put_ino ino b s1)"
    unfolding NamedHistoryBuffer_create_def e sum.case Let_def n using init g b(1) by (simp add: on_segment_def)
  have "64 + 64 \<le> length b" "mx_state (mutex64_at b 64) = 0" "mx_owner (mutex64_at b 64) \<noteq> q"
    using b(2) assms(14) by (auto simp: hb_rel_def hb_ok_def)
  from mutex_acquire_free [OF this, of now] obtain m where "mutex_acquire q now 64 b = Owned m" by blast
  moreover have "get_latest b = Inl ValueError" using get_latest_refines [OF b(2)] by simp
  moreover have "get_latest (os_ino s ino) = Inr (last ps)" using get_latest_ring [OF assms(11)] assms(12) by simp
  ultimately show ?thesis using c g(1) b(2) by (auto simp: put_ino_def)
qed

theorem history_create_resets_live_buffer_witness:
  "\<exists>s ino g s'. mx_state (mutex64_at (os_ino s ino) 64) \<noteq> 0 \<and> get_latest (os_ino s ino) = Inr [4] \<and>
    NamedHistoryBuffer_create None 9 ''h'' 2 16 [104] quiet_init s = (Inr g, s') \<and>
    gsm_buf g = Inr ino \<and> get_latest (os_ino s' ino) = Inl ValueError"
proof -
  have "\<forall>d \<in> set [[4] :: bytes]. length d \<le> slot_size_of demo_buf" by (simp add: demo_buf_rel(3))
  from publish_all_frame [OF demo_buf_rel(1) _ this, of 7 0 1 2] obtain b where
    b: "hb_rel [[4]] b" "slots_of b = 4" "slot_size_of b = 16" using demo_buf_rel(2,3) by auto
  have l: "448 \<le> length b" using b by (simp add: hb_rel_def hb_ok_def)
  have "64 + 64 \<le> length b" "mx_state (mutex64_at b 64) = 0" "mx_owner (mutex64_at b 64) \<noteq> 7"
    using b(1) l by (auto simp: hb_rel_def hb_ok_def)
  from mutex_acquire_free [OF this, of 0] obtain w where
    w: "length w = length b" "mutex64_at w 64 = (mutex64_at b 64)\<lparr>mx_state := 1, mx_owner := 7, mx_last_ns := 0\<rparr>"
    "mutex_frame b w" by (auto simp: mutex_frame_def)
  have h: "hb_header_at w = hb_header_at b" using mutex_frame_header [OF w(3)] .
  have r: "ring_rel (slots_of w) (slot_size_of w) [[4]] w"
    using b(1) w(1) mutex_frame_slot [OF w(3)] unfolding hb_rel_ring ring_rel_def ring_shape_def h by simp
  let ?s = "os_empty\<lparr>os_shm := [CHR ''/'' # hb_shm_name ''h'' \<mapsto> 0], os_ino := (\<lambda>i. w)\<rparr>"
  have "os_shm ?s (CHR ''/'' # hb_shm_name ''h'') = Some 0" "os_ino ?s 0 = w" by simp_all
  moreover have "\<forall>c \<in> set [104]. scalar c" "utf8_encode [104] = [104]"
    by (simp_all add: scalar_def utf8_encode_def utf8_char_def)
  moreover have "hb_size 2 16 (length (utf8_encode [104])) \<le> int (length w)"
    using l w(1) \<open>utf8_encode [104] = [104]\<close> by (simp add: hb_size_def)
  ultimately obtain g s' where
    "NamedHistoryBuffer_create None 9 ''h'' 2 16 [104] quiet_init ?s = (Inr g, s')" "gsm_buf g = Inr 0"
    "get_latest w = Inr [4]" "get_latest (os_ino s' 0) = Inl ValueError"
    using history_create_resets_live_buffer [of "''h''" ?s 0 2 16 "[104]" "[[4]]" 5 None 9 0] r w(2) by auto
  then show ?thesis using w(2) by (intro exI [of _ ?s] exI [of _ "0 :: nat"] exI [of _ g] exI [of _ s']) simp
qed

end
