(* ===== verification/NQueue.thy ===== *)
theory NQueue
  imports History_Correct Named
begin

text \<open>
  \<open>fastipc.data.named_queue\<close>: the mode names, the header, \<open>create\<close>, and the constructor
  as it is written: it passes a keyword that guarded shared memory does not have, and further down
  refers to names that are not defined.
\<close>

section \<open>Modes\<close>

definition QUEUE :: int where "QUEUE = 0"
definition LATEST_CACHE :: int where "LATEST_CACHE = 1"

definition to_str :: "int \<Rightarrow> string" where
  "to_str mode =
     (if mode = QUEUE then ''QUEUE'' else if mode = LATEST_CACHE then ''LATEST_CACHE'' else ''UNKNOWN'')"

definition lower_char :: "char \<Rightarrow> char" where
  "lower_char c = (let n = (of_char c :: nat) in if 65 \<le> n \<and> n \<le> 90 then char_of (n + 32) else c)"

definition str_lower :: "string \<Rightarrow> string" where
  "str_lower s = map lower_char s"

definition from_str :: "string \<Rightarrow> int res" where
  "from_str mode_str =
     (if str_lower mode_str = ''queue'' then Inr QUEUE
      else if str_lower mode_str = ''latest_cache'' then Inr LATEST_CACHE
      else Inl ValueError)"

section \<open>The header\<close>

definition NQ_MAGIC :: u64 where "NQ_MAGIC = 0x50464E51"
definition NQ_HEADER_SIZE :: nat where "NQ_HEADER_SIZE = 128"

record NamedQueueHeader =
  nq_magic :: u64
  nq_meta_size :: u64
  nq_num_slots :: u64
  nq_slot_size :: u64
  nq_head :: u64
  nq_tail :: u64
  nq_mode :: u64

definition nq_header_at :: "bytes \<Rightarrow> NamedQueueHeader" where
  "nq_header_at buf =
     \<lparr>nq_magic = u64_at buf 0, nq_meta_size = u64_at buf 8, nq_num_slots = u64_at buf 16,
      nq_slot_size = u64_at buf 24, nq_head = u64_at buf 32, nq_tail = u64_at buf 40,
      nq_mode = u64_at buf 48\<rparr>"

text \<open>The slot header of the queue: three numbers and padding to a cache line.\<close>

record NQ_SlotHeader =
  nqs_size :: u64
  nqs_start_version :: u64
  nqs_end_version :: u64

definition NQ_SLOT_HEADER_SIZE :: nat where "NQ_SLOT_HEADER_SIZE = 8 * 3 + (64 - 8 * 3)"

definition nq_total_size :: "NamedQueueHeader \<Rightarrow> int" where
  "nq_total_size h =
     int NQ_HEADER_SIZE + uint (nq_num_slots h) * (int NQ_SLOT_HEADER_SIZE + uint (nq_slot_size h))
       + uint (nq_meta_size h)"

section \<open>create\<close>

definition nq_format :: "int \<Rightarrow> int \<Rightarrow> nat \<Rightarrow> string \<Rightarrow> bytes \<Rightarrow> unit res \<times> bytes" where
  \<comment> \<open>the header assignments in their order; the mode is parsed after four of them\<close>
  "nq_format num_slots slot_size meta_size mode buf =
     (case from_buffer NQ_HEADER_SIZE buf 0 of
        Inl e \<Rightarrow> (Inl e, buf)
      | Inr off \<Rightarrow>
          (let buf1 = u64_put 24 (word_of_int slot_size) (u64_put 16 (word_of_int num_slots)
                        (u64_put 8 (of_nat meta_size) (u64_put 0 NQ_MAGIC buf)))
           in case from_str mode of
                Inl e \<Rightarrow> (Inl e, buf1)
              | Inr m \<Rightarrow>
                  (Inr (), u32_store_rel 64 MUTEX_OFF_MAGIC MUTEX_MAGIC
                     (u64_put 40 0 (u64_put 32 0 (u64_put 48 (word_of_int m) buf1))))))"

definition nq_shm_name :: "string \<Rightarrow> string" where
  "nq_shm_name nm = ''__pyfastipc_queue_'' @ nm"

text \<open>\<open>create\<close> has no return statement: its value is \<open>None\<close>.\<close>

definition NamedQueue_create :: "string option \<Rightarrow> nat \<Rightarrow> string \<Rightarrow> int \<Rightarrow> int \<Rightarrow> pystr \<Rightarrow> string \<Rightarrow>
    init_env \<Rightarrow> os \<Rightarrow> py_value res \<times> os" where
  "NamedQueue_create environ pid nm num_slots slot_size metadata mode ie s =
     (case str_encode metadata of
        Inl e \<Rightarrow> (Inl e, s)
      | Inr meta_encoded \<Rightarrow>
          (let meta_size = length meta_encoded;
               total_size = int NQ_HEADER_SIZE + num_slots * (int NQ_SLOT_HEADER_SIZE + slot_size) + int meta_size
           in case GuardedSharedMemory_new environ pid (gsm_args_of (nq_shm_name nm) total_size) ie s of
                (Inl e, s1) \<Rightarrow> (Inl e, s1)
              | (Inr g, s1) \<Rightarrow>
                  (if \<not> g_created g then (Inl FileExistsError, s1)
                   else (case on_segment g (nq_format num_slots slot_size meta_size mode) s1 of
                           (Inl e, s2) \<Rightarrow> (Inl e, s2)
                         | (Inr u, s2) \<Rightarrow> (Inr PyNone, s2)))))"

section \<open>The constructor\<close>

definition GSM_KEYWORDS :: "string list" where
  "GSM_KEYWORDS = [''name'', ''size'', ''attach_only'', ''pid_dir'', ''max_attempts'', ''backoff_base'',
     ''try_cleanup_on_exit'']"

definition check_keywords :: "string list \<Rightarrow> string list \<Rightarrow> unit res" where
  \<comment> \<open>a call with a keyword that is not a parameter raises \<open>TypeError\<close> before the body runs\<close>
  "check_keywords params given = (if list_all (\<lambda>k. k \<in> set params) given then Inr () else Inl TypeError)"

definition NamedQueue_init :: "string option \<Rightarrow> nat \<Rightarrow> string \<Rightarrow> init_env \<Rightarrow> os \<Rightarrow> gsm res \<times> os" where
  "NamedQueue_init environ pid nm ie s =
     (case check_keywords GSM_KEYWORDS [''size'', ''try_create''] of
        Inl e \<Rightarrow> (Inl e, s)
      | Inr u \<Rightarrow>
          (case GuardedSharedMemory_new environ pid (gsm_args_of (nq_shm_name nm) (int NQ_HEADER_SIZE)) ie s of
             (Inl e, s1) \<Rightarrow> (Inl e, s1)
           | (Inr g, s1) \<Rightarrow>
               (case on_segment g (\<lambda>b.
                   if nq_magic (nq_header_at b) \<noteq> NQ_MAGIC then (Inl ValueError, b)
                   else (Inr (), u32_store_rel 64 MUTEX_OFF_MAGIC MUTEX_MAGIC b)) s1 of
                  (Inl e, s2) \<Rightarrow> (Inl e, s2)
                | (Inr u, s2) \<Rightarrow> (Inl NameError, s2)))) \<comment> \<open>\<open>num_slots\<close> is not defined\<close>"

section \<open>The rest of the module\<close>

definition get_met :: py_value where
  \<comment> \<open>the body of the method is \<open>pass\<close>\<close>
  "get_met = PyNone"

definition NQ_INIT_KEYWORDS :: "string list" where
  "NQ_INIT_KEYWORDS = [''name'', ''shm'']"

definition NamedQueue_main :: "string option \<Rightarrow> nat \<Rightarrow> init_env \<Rightarrow> os \<Rightarrow> gsm res \<times> os" where
  \<comment> \<open>the example under \<open>__main__\<close>: a constructor call with keywords\<close>
  "NamedQueue_main environ pid ie s =
     (case check_keywords NQ_INIT_KEYWORDS [''num_slots'', ''slot_size'', ''mode''] of
        Inl e \<Rightarrow> (Inl e, s)
      | Inr u \<Rightarrow> NamedQueue_init environ pid ''test_queue'' ie s)"

section \<open>Lemmas\<close>

lemma lower_modes:
  "str_lower ''QUEUE'' = ''queue''" "str_lower ''LATEST_CACHE'' = ''latest_cache''"
  "str_lower ''UNKNOWN'' = ''unknown''" "str_lower ''Queue'' = ''queue''"
  by (code_simp, code_simp, code_simp, code_simp)

lemma from_str_error: "from_str mode = Inl e \<Longrightarrow> e = ValueError"
  by (auto simp: from_str_def split: if_splits)

lemma nq_format_props:
  assumes "128 \<le> length buf" and "nq_format ns z n mode buf = (r, b)"
  shows "nq_magic (nq_header_at b) = NQ_MAGIC \<and>
    (case from_str mode of
       Inl e \<Rightarrow> r = Inl ValueError
     | Inr m \<Rightarrow> r = Inr () \<and> nq_header_at b =
         \<lparr>nq_magic = NQ_MAGIC, nq_meta_size = of_nat n, nq_num_slots = word_of_int ns,
          nq_slot_size = word_of_int z, nq_head = 0, nq_tail = 0, nq_mode = word_of_int m\<rparr>)"
proof -
  have f: "from_buffer NQ_HEADER_SIZE buf 0 = Inr 0"
    using assms(1) by (simp add: from_buffer_def NQ_HEADER_SIZE_def)
  show ?thesis
    using assms from_str_error [of mode]
    by (cases "from_str mode")
      (auto simp: nq_format_def f Let_def nq_header_at_def mutex_access_defs buf_simps)
qed

lemma nq_format_length:
  assumes "128 \<le> length buf" and "nq_format ns z n mode buf = (r, b)"
  shows "length b = length buf"
  using assms
  by (auto simp: nq_format_def from_buffer_def NQ_HEADER_SIZE_def Let_def mutex_access_defs
      split: sum.splits if_splits)

lemma nq_total_size_exact:
  assumes "0 \<le> ns" and "ns < 2 ^ 64" and "0 \<le> z" and "z < 2 ^ 64" and "int n < 2 ^ 64"
    and "nq_num_slots h = word_of_int ns" and "nq_slot_size h = word_of_int z" and "nq_meta_size h = of_nat n"
  shows "nq_total_size h = int NQ_HEADER_SIZE + ns * (int NQ_SLOT_HEADER_SIZE + z) + int n"
  using assms by (simp add: nq_total_size_def uint_word_of_int take_bit_int_eq_self unsigned_of_nat take_bit_nat_eq_self of_nat_take_bit)

section \<open>Properties\<close>

text \<open>
  Mode names: printing a mode and parsing it gives the mode back, and parsing accepts nothing
  but the two modes.
\<close>

theorem queue_mode_roundtrip:
  "(from_str (to_str mode) = Inr mode \<longleftrightarrow> mode = QUEUE \<or> mode = LATEST_CACHE) \<and>
   (\<forall>str m. from_str str = Inr m \<longrightarrow> str_lower (to_str m) = str_lower str)"
  by (auto simp: from_str_def to_str_def QUEUE_def LATEST_CACHE_def lower_modes split: if_splits)

theorem queue_mode_roundtrip_witness: "from_str (to_str LATEST_CACHE) = Inr LATEST_CACHE"
  using queue_mode_roundtrip [of LATEST_CACHE] by simp

text \<open>
  Attaching to a queue never works: the constructor raises \<open>TypeError\<close> for every name
  and every state of the system, and does nothing; so does the example of the module, whose
  keywords the constructor does not have.
\<close>

theorem queue_init_raises:
  "NamedQueue_init environ pid nm ie s = (Inl TypeError, s) \<and>
   NamedQueue_main environ pid ie s = (Inl TypeError, s)"
  by (simp add: NamedQueue_init_def NamedQueue_main_def check_keywords_def GSM_KEYWORDS_def NQ_INIT_KEYWORDS_def)

text \<open>
  C37. Creating a queue under a new name: with a known mode the header has the given numbers, an
  empty queue and the mode, the total size that is computed from the header is the size of the
  segment, and the call returns \<open>None\<close>, not a queue; with an unknown mode it
  raises \<open>ValueError\<close> but leaves the segment behind, linked, with a valid magic number.
\<close>

theorem queue_create:
  assumes "CHR ''/'' \<notin> set nm" and "os_shm s (CHR ''/'' # nq_shm_name nm) = None"
    and "0 \<le> num_slots" and "num_slots < 2 ^ 64" and "0 \<le> slot_size" and "slot_size < 2 ^ 64"
    and "length (utf8_encode metadata) < 2 ^ 64" and "\<forall>c \<in> set metadata. scalar c"
  shows "\<exists>r s' ino. NamedQueue_create environ pid nm num_slots slot_size metadata mode quiet_init s = (r, s') \<and>
    os_shm s' (CHR ''/'' # nq_shm_name nm) = Some ino \<and>
    nq_magic (nq_header_at (os_ino s' ino)) = NQ_MAGIC \<and>
    (case from_str mode of
       Inl e \<Rightarrow> r = Inl ValueError
     | Inr m \<Rightarrow> r = Inr PyNone \<and> nq_header_at (os_ino s' ino) =
         \<lparr>nq_magic = NQ_MAGIC, nq_meta_size = of_nat (length (utf8_encode metadata)),
          nq_num_slots = word_of_int num_slots, nq_slot_size = word_of_int slot_size,
          nq_head = 0, nq_tail = 0, nq_mode = word_of_int m\<rparr> \<and>
         nq_total_size (nq_header_at (os_ino s' ino)) = int (length (os_ino s' ino)))"
proof -
  let ?m = "utf8_encode metadata"
  let ?n = "int NQ_HEADER_SIZE + num_slots * (int NQ_SLOT_HEADER_SIZE + slot_size) + int (length ?m)"
  have z: "128 \<le> ?n" using assms(3,5) by (simp add: NQ_HEADER_SIZE_def)
  have n: "nq_shm_name nm \<noteq> []" "CHR ''/'' \<notin> set (nq_shm_name nm)"
    using assms(1) by (simp_all add: nq_shm_name_def)
  have "0 < ?n" using z by linarith
  from named_create [OF n this assms(2), of environ pid] obtain g s1 where
    g: "GuardedSharedMemory_new environ pid (gsm_args_of (nq_shm_name nm) ?n) quiet_init s = (Inr g, s1)"
    "gsm_buf g = Inr (os_next_ino s)" "g_created g" "os_ino s1 (os_next_ino s) = replicate (nat ?n) 0"
    "os_shm s1 (CHR ''/'' # nq_shm_name nm) = Some (os_next_ino s)" by blast
  let ?b = "replicate (nat ?n) (0 :: u8)"
  have l: "128 \<le> length ?b" using z by simp
  have e: "str_encode metadata = Inr ?m" using assms(8) by (simp add: str_encode_def list_all_iff)
  obtain r b where f: "nq_format num_slots slot_size (length ?m) mode ?b = (r, b)" by fastforce
  have c: "NamedQueue_create environ pid nm num_slots slot_size metadata mode quiet_init s =
      (map_sum id (\<lambda>u. PyNone) r, put_ino (os_next_ino s) b s1)"
    unfolding NamedQueue_create_def e sum.case Let_def using g f
    by (cases r) (simp_all add: on_segment_def)
  have len: "int (length b) = ?n" using nq_format_length [OF l f] z by simp
  have m: "int (length ?m) < 2 ^ 64" using assms(7) by simp
  note total = nq_total_size_exact [OF assms(3-6) m]
  show ?thesis
    using nq_format_props [OF l f] c g(5) total [of "nq_header_at b"] len
    by (cases "from_str mode") (auto simp: put_ino_def)
qed

theorem queue_create_witness:
  "\<exists>s' ino. NamedQueue_create None 7 ''q'' 4 16 [104] ''Queue'' quiet_init os_empty = (Inr PyNone, s') \<and>
    nq_num_slots (nq_header_at (os_ino s' ino)) = 4"
proof -
  have a: "CHR ''/'' \<notin> set ''q''" "os_shm os_empty (CHR ''/'' # nq_shm_name ''q'') = None"
    "\<forall>c \<in> set [104]. scalar c" by (simp_all add: os_empty_def scalar_def)
  have u: "length (utf8_encode [104]) < 2 ^ 64" by (simp add: utf8_encode_def utf8_char_def)
  have m: "from_str ''Queue'' = Inr QUEUE" by (simp add: from_str_def lower_modes)
  from queue_create [OF a(1,2) _ _ _ _ u a(3), of 4 16 None 7 "''Queue''", unfolded m sum.case] obtain r s' ino where
    q: "NamedQueue_create None 7 ''q'' 4 16 [104] ''Queue'' quiet_init os_empty = (r, s')"
    and h: "r = Inr PyNone \<and> nq_header_at (os_ino s' ino) =
      \<lparr>nq_magic = NQ_MAGIC, nq_meta_size = of_nat (length (utf8_encode [104])), nq_num_slots = word_of_int 4,
       nq_slot_size = word_of_int 16, nq_head = 0, nq_tail = 0, nq_mode = word_of_int QUEUE\<rparr>" by auto
  show ?thesis using q h by (intro exI [of _ s'] exI [of _ ino]) simp
qed

end
