(* ===== verification/Nptree.thy ===== *)
theory Nptree
  imports Decimal
begin

unbundle bit_operations_syntax

text \<open>
  \<open>fastipc.nptree.schema\<close>: layouts of trees of numpy arrays in one buffer.

  \<open>numpy\<close> and \<open>optree\<close> are not part of the program. What the code calls of
  \<open>numpy\<close> is the record \<open>numpy\<close>, an argument of every definition, over types
  \<open>'a\<close> of arrays and \<open>'d\<close> of dtypes that stay abstract. A tree is what
  \<open>optree\<close> makes of it: a structure of an abstract type \<open>'s\<close> and the leaves in
  order; \<open>tree_map\<close> calls the function on the leaves in order, stops at the first exception,
  and keeps the structure.
\<close>

section \<open>The libraries\<close>

record ('a, 'd) numpy =
  np_dtype :: "string \<Rightarrow> 'd res"
  dtype_str :: "'d \<Rightarrow> string"
  dtype_itemsize :: "'d \<Rightarrow> int"
  np_prod_times :: "int list \<Rightarrow> int \<Rightarrow> int"  \<comment> \<open>\<open>int(np.prod(shape) * k)\<close>\<close>
  arr_dtype :: "'a \<Rightarrow> 'd"
  arr_shape :: "'a \<Rightarrow> int list"
  arr_nbytes :: "'a \<Rightarrow> int"
  arr_bytes :: "'a \<Rightarrow> bytes res"     \<comment> \<open>\<open>memoryview(a).cast("B")\<close> of the C-contiguous array\<close>
  np_frombuffer :: "bytes \<Rightarrow> 'd \<Rightarrow> 'a res"
  np_reshape :: "'a \<Rightarrow> int list \<Rightarrow> 'a res"

datatype 'a leaf = NdArray 'a | OtherLeaf

record ('s, 'l) pytree =
  pt_structure :: 's
  pt_leaves :: "'l list"

fun map_leaves :: "('x \<Rightarrow> 'st \<Rightarrow> ('y \<times> 'st) res) \<Rightarrow> 'x list \<Rightarrow> 'st \<Rightarrow> ('y list \<times> 'st) res" where
  "map_leaves f [] st = Inr ([], st)"
| "map_leaves f (x # xs) st =
     res_bind (f x st) (\<lambda>(y, st1). res_bind (map_leaves f xs st1) (\<lambda>(ys, st2). Inr (y # ys, st2)))"

definition tree_map :: "('x \<Rightarrow> 'st \<Rightarrow> ('y \<times> 'st) res) \<Rightarrow> ('s, 'x) pytree \<Rightarrow> 'st \<Rightarrow>
    (('s, 'y) pytree \<times> 'st) res" where
  \<comment> \<open>\<open>st\<close>: the \<open>nonlocal\<close> variable or buffer that the function updates\<close>
  "tree_map f t st =
     res_bind (map_leaves f (pt_leaves t) st)
       (\<lambda>(ys, st'). Inr (\<lparr>pt_structure = pt_structure t, pt_leaves = ys\<rparr>, st'))"

definition tree_zip :: "('s, 'x) pytree \<Rightarrow> ('s, 'z) pytree \<Rightarrow> ('s, 'x \<times> 'z) pytree res" where
  \<comment> \<open>\<open>tree_map\<close> over two trees: refused when the structures differ\<close>
  "tree_zip t u =
     (if pt_structure t = pt_structure u
      then Inr \<lparr>pt_structure = pt_structure t, pt_leaves = zip (pt_leaves t) (pt_leaves u)\<rparr>
      else Inl ValueError)"

section \<open>Layouts\<close>

abbreviation TAB :: char where "TAB \<equiv> CHR 0x09"

definition align_up :: "int \<Rightarrow> int \<Rightarrow> int" where
  "align_up offset alignment = (offset + alignment - 1) div alignment * alignment"

definition arr_desc :: "('a, 'd) numpy \<Rightarrow> int \<Rightarrow> 'a leaf \<Rightarrow> int \<Rightarrow> (string \<times> int) res" where
  "arr_desc np alignment leaf offset =
     (case leaf of
        NdArray a \<Rightarrow>
          Inr (dtype_str np (arr_dtype np a) @ TAB # str_join CHR '','' (map str_int (arr_shape np a))
                 @ TAB # str_int offset,
               align_up (offset + arr_nbytes np a) alignment)
      | OtherLeaf \<Rightarrow> Inl TypeError)"

definition build_nptree_layout :: "('a, 'd) numpy \<Rightarrow> ('s, 'a leaf) pytree \<Rightarrow> int \<Rightarrow>
    ('s, string) pytree res" where
  "build_nptree_layout np tree alignment =
     (if alignment \<le> 0 \<or> (alignment AND (alignment - 1)) \<noteq> 0 then Inl ValueError
      else res_bind (tree_map (arr_desc np alignment) tree 0) (\<lambda>(layout, offset). Inr layout))"

fun map_res :: "('x \<Rightarrow> 'y res) \<Rightarrow> 'x list \<Rightarrow> 'y list res" where
  "map_res f [] = Inr []"
| "map_res f (x # xs) = res_bind (f x) (\<lambda>y. res_bind (map_res f xs) (\<lambda>ys. Inr (y # ys)))"

definition parse_arr_desc :: "('a, 'd) numpy \<Rightarrow> string \<Rightarrow> ('d \<times> int list \<times> int \<times> int) res" where
  "parse_arr_desc np desc =
     (case str_split TAB desc of
        [dtype_s, shape_s, offset_s] \<Rightarrow>
          res_bind (np_dtype np dtype_s) (\<lambda>dtype.
          res_bind (if shape_s \<noteq> [] then map_res py_int (str_split CHR '','' shape_s) else Inr []) (\<lambda>shape.
          res_bind (py_int offset_s) (\<lambda>offset.
          Inr (dtype, shape, offset, np_prod_times np shape (dtype_itemsize np dtype)))))
      | _ \<Rightarrow> Inl ValueError)"

definition update_max_offset :: "('a, 'd) numpy \<Rightarrow> string \<Rightarrow> int \<Rightarrow> (unit \<times> int) res" where
  "update_max_offset np desc max_offset =
     res_bind (parse_arr_desc np desc) (\<lambda>(dtype, shape, offset, sz).
       let end_offset = offset + sz in
       Inr ((), if end_offset > max_offset then end_offset else max_offset))"

definition calc_buffer_size :: "('a, 'd) numpy \<Rightarrow> ('s, string) pytree \<Rightarrow> int res" where
  "calc_buffer_size np layout =
     res_bind (tree_map (update_max_offset np) layout 0) (\<lambda>(t, max_offset). Inr max_offset)"

text \<open>
  The check of one leaf. \<open>OtherLeaf\<close> is an object without the attributes of an array.
\<close>

definition check_leaf :: "('a, 'd) numpy \<Rightarrow> 'a leaf \<times> string \<Rightarrow> unit \<Rightarrow> (unit \<times> unit) res" where
  "check_leaf np = (\<lambda>(leaf, desc) u.
     res_bind (parse_arr_desc np desc) (\<lambda>(dtype, shape, offset, sz).
       case leaf of
         OtherLeaf \<Rightarrow> Inl AttributeError
       | NdArray a \<Rightarrow>
           (if arr_dtype np a \<noteq> dtype then Inl TypeError
            else if arr_shape np a \<noteq> shape then Inl ValueError
            else Inr ((), ()))))"

definition validate_layout :: "('a, 'd) numpy \<Rightarrow> ('s, 'a leaf) pytree \<Rightarrow> ('s, string) pytree \<Rightarrow> unit res" where
  "validate_layout np tree layout =
     (if pt_structure tree \<noteq> pt_structure layout then Inl ValueError
      else res_bind (tree_zip tree layout) (\<lambda>both.
           res_bind (tree_map (check_leaf np) both ()) (\<lambda>r. Inr ())))"

section \<open>Serialisation\<close>

definition clip_index :: "int \<Rightarrow> nat \<Rightarrow> nat" where
  \<comment> \<open>a slice bound of a sequence of length \<open>n\<close>\<close>
  "clip_index i n = (if i < 0 then nat (max 0 (i + int n)) else min (nat i) n)"

definition py_setslice :: "'x list \<Rightarrow> int \<Rightarrow> int \<Rightarrow> 'x list \<Rightarrow> 'x list" where
  "py_setslice xs a b ys =
     bytearray_setslice xs (clip_index a (length xs)) (clip_index b (length xs)) ys"

definition py_getslice :: "'x list \<Rightarrow> int \<Rightarrow> int \<Rightarrow> 'x list" where
  "py_getslice xs a b = pyslice xs (clip_index a (length xs)) (clip_index b (length xs))"

definition serialize_leaf :: "('a, 'd) numpy \<Rightarrow> 'a leaf \<times> string \<Rightarrow> bytes \<Rightarrow> (unit \<times> bytes) res" where
  "serialize_leaf np = (\<lambda>(leaf, desc) buffer.
     res_bind (parse_arr_desc np desc) (\<lambda>(dtype, shape, offset, sz).
       if sz = 0 then Inr ((), buffer)
       else (case leaf of
               OtherLeaf \<Rightarrow> Inl AttributeError
             | NdArray a \<Rightarrow>
                 res_bind (arr_bytes np a) (\<lambda>data.
                   Inr ((), py_setslice buffer offset (offset + sz) data)))))"

definition get_buffer :: "bytes option \<Rightarrow> int \<Rightarrow> bytes res" where
  \<comment> \<open>a fresh \<open>bytearray\<close>, or the given buffer if it is large enough\<close>
  "get_buffer buffer n =
     (case buffer of
        None \<Rightarrow> Inr (replicate (nat n) 0)
      | Some b \<Rightarrow> if int (length b) < n then Inl ValueError else Inr b)"

definition serialize_nptree :: "('a, 'd) numpy \<Rightarrow> ('s, 'a leaf) pytree \<Rightarrow> ('s, string) pytree \<Rightarrow>
    bytes option \<Rightarrow> bytes res" where
  "serialize_nptree np nptree layout buffer =
     (if pt_structure nptree \<noteq> pt_structure layout then Inl ValueError
      else res_bind (calc_buffer_size np layout) (\<lambda>buffer_size.
           res_bind (get_buffer buffer buffer_size) (\<lambda>buf.
           res_bind (tree_zip nptree layout) (\<lambda>both.
           res_bind (tree_map (serialize_leaf np) both buf) (\<lambda>(t, buf'). Inr buf')))))"

definition desc_to_arr :: "('a, 'd) numpy \<Rightarrow> bytes \<Rightarrow> string \<Rightarrow> unit \<Rightarrow> ('a leaf \<times> unit) res" where
  "desc_to_arr np buffer desc u =
     res_bind (parse_arr_desc np desc) (\<lambda>(dtype, shape, offset, sz).
     res_bind (np_frombuffer np (py_getslice buffer offset (offset + sz)) dtype) (\<lambda>a.
     res_bind (np_reshape np a shape) (\<lambda>b. Inr (NdArray b, ()))))"

definition deserialize_nptree :: "('a, 'd) numpy \<Rightarrow> ('s, string) pytree \<Rightarrow> bytes option \<Rightarrow>
    ('s, 'a leaf) pytree res" where
  "deserialize_nptree np layout buffer =
     res_bind (calc_buffer_size np layout) (\<lambda>min_buffer_size.
     res_bind (get_buffer buffer min_buffer_size) (\<lambda>buf.
     res_bind (tree_map (desc_to_arr np buf) layout ()) (\<lambda>(t, u). Inr t)))"

end
