(* ===== verification/Nptree_Correct.thy ===== *)
theory Nptree_Correct
  imports Nptree
begin

text \<open>
  Correctness of the layouts: what a built layout says of each array, alignment and
  disjointness of the slots, the size of the buffer, and the round trip of serialisation. The
  contract with \<open>numpy\<close> is the locale \<open>numpy_api\<close>; \<open>good\<close> are the arrays
  whose dtype is a plain native one, for which \<open>numpy\<close> documents these laws.
\<close>

section \<open>The contract with numpy\<close>

locale numpy_api =
  fixes np :: "('a, 'd) numpy" and good :: "'a \<Rightarrow> bool"
  assumes dtype_roundtrip: "good a \<Longrightarrow> np_dtype np (dtype_str np (arr_dtype np a)) = Inr (arr_dtype np a)"
    and dtype_no_tab: "good a \<Longrightarrow> TAB \<notin> set (dtype_str np (arr_dtype np a))"
    and shape_nonneg: "good a \<Longrightarrow> d \<in> set (arr_shape np a) \<Longrightarrow> 0 \<le> d"
    and nbytes_nonneg: "good a \<Longrightarrow> 0 \<le> arr_nbytes np a"
    and prod_size: "good a \<Longrightarrow>
      np_prod_times np (arr_shape np a) (dtype_itemsize np (arr_dtype np a)) = arr_nbytes np a"
    and bytes_ok: "good a \<Longrightarrow> \<exists>bs. arr_bytes np a = Inr bs \<and> int (length bs) = arr_nbytes np a"
    and frombuffer_reshape: "good a \<Longrightarrow> arr_bytes np a = Inr bs \<Longrightarrow>
      \<exists>b. np_frombuffer np bs (arr_dtype np a) = Inr b \<and> np_reshape np b (arr_shape np a) = Inr a"

section \<open>Slots in a buffer\<close>

fun layout_offsets :: "int \<Rightarrow> int \<Rightarrow> int list \<Rightarrow> int list" where
  \<comment> \<open>the offsets that a layout gives to arrays of these sizes, from \<open>offset\<close> on\<close>
  "layout_offsets al offset [] = []"
| "layout_offsets al offset (n # ns) = offset # layout_offsets al (align_up (offset + n) al) ns"

fun slots_from :: "int \<Rightarrow> (int \<times> int) list \<Rightarrow> bool" where
  \<comment> \<open>slots (offset, size) in order, without overlap, all from \<open>lo\<close> on\<close>
  "slots_from lo [] = True"
| "slots_from lo ((off, n) # ws) = (lo \<le> off \<and> 0 \<le> n \<and> slots_from (off + n) ws)"

definition slots_end :: "(int \<times> int) list \<Rightarrow> int \<Rightarrow> int" where
  "slots_end ws m = fold (\<lambda>(off, n) m. max m (off + n)) ws m"

lemma align_up_round: "align_up n a = round_up n a"
  by (simp add: align_up_def round_up_def)

lemma length_layout_offsets [simp]: "length (layout_offsets al off ns) = length ns"
  by (induction ns arbitrary: off) auto

lemma layout_offsets_aligned:
  "al dvd off \<Longrightarrow> o' \<in> set (layout_offsets al off ns) \<Longrightarrow> al dvd o'"
proof (induction ns arbitrary: off)
  case (Cons n ns)
  then show ?case using Cons.IH [of "align_up (off + n) al"] by (auto simp: align_up_round round_up_dvd)
qed simp

lemma slots_from_mono: "slots_from lo ws \<Longrightarrow> lo' \<le> lo \<Longrightarrow> slots_from lo' ws"
  by (cases ws) auto

lemma layout_slots:
  "0 < al \<Longrightarrow> \<forall>n \<in> set ns. 0 \<le> n \<Longrightarrow> slots_from off (zip (layout_offsets al off ns) ns)"
proof (induction ns arbitrary: off)
  case (Cons n ns)
  have "off + n \<le> align_up (off + n) al" using Cons.prems(1) by (simp add: align_up_round round_up_ge)
  moreover have "slots_from (align_up (off + n) al) (zip (layout_offsets al (align_up (off + n) al) ns) ns)"
    using Cons.IH Cons.prems by simp
  ultimately show ?case using Cons.prems(2) by (auto intro: slots_from_mono)
qed simp

lemma slots_from_lower: "slots_from lo ws \<Longrightarrow> (off, n) \<in> set ws \<Longrightarrow> lo \<le> off \<and> 0 \<le> n"
proof (induction ws arbitrary: lo)
  case (Cons w ws)
  then show ?case by (cases w) force
qed simp

lemma slots_from_sorted:
  "slots_from lo ws \<Longrightarrow> sorted_wrt (\<lambda>(o1, n1) (o2, n2). o1 + n1 \<le> o2) ws"
proof (induction ws arbitrary: lo)
  case (Cons w ws)
  then show ?case by (cases w) (auto dest: slots_from_lower)
qed simp

lemma slots_end_ge: "m \<le> slots_end ws m"
proof (induction ws arbitrary: m)
  case (Cons w ws)
  obtain off n where w: "w = (off, n)" by fastforce
  have "max m (off + n) \<le> slots_end ws (max m (off + n))" by (rule Cons.IH)
  with w show ?case by (simp add: slots_end_def)
qed (simp add: slots_end_def)

lemma slots_end_bound: "(off, n) \<in> set ws \<Longrightarrow> off + n \<le> slots_end ws m"
proof (induction ws arbitrary: m)
  case (Cons w ws)
  have "off + n \<le> slots_end ws (max m (off + n))" using slots_end_ge [of "max m (off + n)" ws] by simp
  with Cons show ?case by (cases w) (auto simp: slots_end_def)
qed simp

text \<open>Writing disjoint slots one after the other: every slot can be read back.\<close>

fun write_slots :: "(nat \<times> 'x list) list \<Rightarrow> 'x list \<Rightarrow> 'x list" where
  "write_slots [] buf = buf"
| "write_slots ((off, bs) # ws) buf = write_slots ws (overwrite buf off bs)"

fun data_slots :: "nat \<Rightarrow> nat \<Rightarrow> (nat \<times> 'x list) list \<Rightarrow> bool" where
  "data_slots lo len [] = True"
| "data_slots lo len ((off, bs) # ws) =
     (lo \<le> off \<and> off + length bs \<le> len \<and> data_slots (off + length bs) len ws)"

lemma data_slots_lower: "data_slots lo len ws \<Longrightarrow> (off, bs) \<in> set ws \<Longrightarrow> lo \<le> off"
proof (induction ws arbitrary: lo)
  case (Cons w ws)
  then show ?case by (cases w) force
qed simp

lemma length_write_slots: "data_slots lo (length buf) ws \<Longrightarrow> length (write_slots ws buf) = length buf"
proof (induction ws arbitrary: lo buf)
  case (Cons w ws)
  then show ?case by (cases w) auto
qed simp

lemma write_slots_outside:
  "data_slots lo (length buf) ws \<Longrightarrow> \<forall>(off, bs) \<in> set ws. d \<le> off \<or> off + length bs \<le> c \<Longrightarrow>
    pyslice (write_slots ws buf) c d = pyslice buf c d"
proof (induction ws arbitrary: lo buf)
  case (Cons w ws)
  obtain off bs where w: "w = (off, bs)" by fastforce
  have "length (overwrite buf off bs) = length buf" using Cons.prems(1) w by simp
  with Cons w show ?case by (auto simp: slice_overwrite_other)
qed simp

lemma write_slots_read:
  "data_slots lo (length buf) ws \<Longrightarrow> (off, bs) \<in> set ws \<Longrightarrow>
    pyslice (write_slots ws buf) off (off + length bs) = bs"
proof (induction ws arbitrary: lo buf)
  case (Cons w ws)
  obtain o1 b1 where w: "w = (o1, b1)" by fastforce
  let ?buf = "overwrite buf o1 b1"
  have l: "length ?buf = length buf" and d: "data_slots (o1 + length b1) (length ?buf) ws"
    using Cons.prems(1) w by auto
  show ?case
  proof (cases "(off, bs) \<in> set ws")
    case True
    then show ?thesis using Cons.IH [OF d] w by simp
  next
    case False
    then have e: "off = o1" "bs = b1" using Cons.prems(2) w by auto
    have "\<forall>(o2, b2) \<in> set ws. o1 + length b1 \<le> o2 \<or> o2 + length b2 \<le> o1"
      using data_slots_lower [OF d] by auto
    from write_slots_outside [OF d this] Cons.prems(1) w e show ?thesis by simp
  qed
qed simp

lemma overwrite_Nil [simp]: "overwrite buf off [] = buf"
  by (simp add: overwrite_def)

section \<open>Slices with integer bounds\<close>

lemma clip_index_inside: "0 \<le> i \<Longrightarrow> i \<le> int n \<Longrightarrow> clip_index i n = nat i"
  by (simp add: clip_index_def)

lemma py_setslice_inside:
  assumes "0 \<le> off" and "off + int (length ys) \<le> int (length xs)"
  shows "py_setslice xs off (off + int (length ys)) ys = overwrite xs (nat off) ys"
proof -
  have "clip_index off (length xs) = nat off"
    "clip_index (off + int (length ys)) (length xs) = nat off + length ys"
    using assms by (simp_all add: clip_index_inside nat_add_distrib)
  with assms show ?thesis by (simp add: py_setslice_def bytearray_setslice_same)
qed

lemma py_getslice_inside:
  assumes "0 \<le> off" and "0 \<le> n" and "off + n \<le> int (length xs)"
  shows "py_getslice xs off (off + n) = pyslice xs (nat off) (nat off + nat n)"
  using assms by (simp add: py_getslice_def clip_index_inside nat_add_distrib)

section \<open>Leaf descriptions\<close>

definition desc_of :: "('a, 'd) numpy \<Rightarrow> 'a \<Rightarrow> int \<Rightarrow> string" where
  "desc_of np a off = dtype_str np (arr_dtype np a) @ TAB #
     str_join CHR '','' (map str_int (arr_shape np a)) @ TAB # str_int off"

lemma str_int_nonneg: "0 \<le> v \<Longrightarrow> str_int v = str_nat (nat v)"
  by (simp add: str_int_def)

lemma digit_not_in: "is_digit c \<Longrightarrow> c \<noteq> TAB \<and> c \<noteq> CHR '',''"
  unfolding is_digit_def by auto

lemma str_int_no_tab: "TAB \<notin> set (str_int v)"
proof -
  have "TAB \<notin> set (str_nat n)" for n
    using str_nat_digits [of n] digit_not_in by (auto simp: list_all_iff)
  then show ?thesis by (simp add: str_int_def)
qed

lemma shape_words:
  assumes "\<forall>d \<in> set sh. 0 \<le> (d :: int)"
  shows "\<forall>w \<in> set (map str_int sh). list_all is_digit w \<and> w \<noteq> []"
  using assms by (auto simp: str_int_nonneg str_nat_digits str_nat_nonempty)

lemma join_shape_empty: "\<forall>d \<in> set sh. 0 \<le> (d :: int) \<Longrightarrow>
    str_join CHR '','' (map str_int sh) = [] \<longleftrightarrow> sh = []"
  by (induction "CHR '',''" "map str_int sh" rule: str_join.induct)
    (auto simp: str_int_nonneg str_nat_nonempty)

lemma map_res_py_int: "map_res py_int (map str_int vs) = Inr vs"
  by (induction vs) (auto simp: py_int_str_int)

lemma parse_shape:
  assumes "\<forall>d \<in> set sh. 0 \<le> (d :: int)"
  defines "s \<equiv> str_join CHR '','' (map str_int sh)"
  shows "(if s \<noteq> [] then map_res py_int (str_split CHR '','' s) else Inr []) = Inr sh \<and> TAB \<notin> set s"
proof -
  have w: "\<forall>w \<in> set (map str_int sh). list_all is_digit w" using shape_words [OF assms(1)] by blast
  then have "\<forall>w \<in> set (map str_int sh). CHR '','' \<notin> set w" using digit_not_in by (fastforce simp: list_all_iff)
  then have "sh \<noteq> [] \<Longrightarrow> str_split CHR '','' s = map str_int sh" unfolding s_def
    by (intro str_split_join) auto
  moreover have "TAB \<notin> set s" using str_join_digits [OF w, of TAB] digit_not_in unfolding s_def by auto
  ultimately show ?thesis
    using join_shape_empty [OF assms(1)] map_res_py_int [of sh] by (auto simp: s_def)
qed

lemma arr_desc_NdArray:
  "arr_desc np al (NdArray a) off = Inr (desc_of np a off, align_up (off + arr_nbytes np a) al)"
  by (simp add: arr_desc_def desc_of_def)

lemma build_leaves:
  "\<exists>end. map_leaves (arr_desc np al) (map NdArray as) off =
    Inr (map (\<lambda>(a, off). desc_of np a off) (zip as (layout_offsets al off (map (arr_nbytes np) as))), end)"
proof (induction as arbitrary: off)
  case (Cons a as)
  obtain e where "map_leaves (arr_desc np al) (map NdArray as) (align_up (off + arr_nbytes np a) al) =
    Inr (map (\<lambda>(a, off). desc_of np a off)
      (zip as (layout_offsets al (align_up (off + arr_nbytes np a) al) (map (arr_nbytes np) as))), e)"
    using Cons.IH by blast
  then show ?case by (simp add: arr_desc_NdArray)
qed simp

lemma build_other_leaf: "OtherLeaf \<in> set ls \<Longrightarrow> map_leaves (arr_desc np al) ls off = Inl TypeError"
proof (induction ls arbitrary: off)
  case (Cons l ls)
  then show ?case by (cases l) (simp_all add: arr_desc_NdArray, simp add: arr_desc_def)
qed simp

lemma only_arrays: "OtherLeaf \<notin> set ls \<Longrightarrow> \<exists>as. ls = map NdArray as"
proof (induction ls)
  case (Cons l ls)
  then obtain as where "ls = map NdArray as" by auto
  with Cons.prems show ?case by (cases l) (auto intro: exI [of _ "_ # as"])
qed simp

context numpy_api begin

lemma parse_desc:
  assumes "good a"
  shows "parse_arr_desc np (desc_of np a off) =
    Inr (arr_dtype np a, arr_shape np a, off, arr_nbytes np a)"
proof -
  let ?s = "str_join CHR '','' (map str_int (arr_shape np a))"
  have sh: "\<forall>d \<in> set (arr_shape np a). 0 \<le> d" using shape_nonneg [OF assms] by blast
  note p = parse_shape [OF sh]
  have "str_split TAB (desc_of np a off) = [dtype_str np (arr_dtype np a), ?s, str_int off]"
    using dtype_no_tab [OF assms] p
    by (simp add: desc_of_def str_split_sep str_split_single str_int_no_tab)
  then show ?thesis
    using dtype_roundtrip [OF assms] p prod_size [OF assms]
    by (simp add: parse_arr_desc_def py_int_str_int)
qed

lemma calc_leaves:
  "\<forall>(a, off) \<in> set xs. good a \<Longrightarrow>
    map_leaves (update_max_offset np) (map (\<lambda>(a, off). desc_of np a off) xs) m =
      Inr (map (\<lambda>x. ()) xs, slots_end (map (\<lambda>(a, off). (off, arr_nbytes np a)) xs) m)"
proof (induction xs arbitrary: m)
  case (Cons x xs)
  then show ?case
    by (cases x) (auto simp: update_max_offset_def parse_desc slots_end_def Let_def max_def)
qed (simp add: slots_end_def)

lemma check_leaves:
  "\<forall>(a, off) \<in> set xs. good a \<Longrightarrow>
    map_leaves (check_leaf np) (map (\<lambda>(a, off). (NdArray a, desc_of np a off)) xs) () =
      Inr (map (\<lambda>x. ()) xs, ())"
proof (induction xs)
  case (Cons x xs)
  then show ?case by (cases x) (auto simp: check_leaf_def parse_desc)
qed simp

definition slot_data :: "'a \<times> int \<Rightarrow> nat \<times> bytes" where
  "slot_data x = (nat (snd x), projr (arr_bytes np (fst x)))"

lemma slot_data_pair [simp]: "slot_data (a, off) = (nat off, projr (arr_bytes np a))"
  by (simp add: slot_data_def)

lemma good_bytes: "good a \<Longrightarrow> arr_bytes np a = Inr (projr (arr_bytes np a)) \<and>
    int (length (projr (arr_bytes np a))) = arr_nbytes np a"
  using bytes_ok [of a] by auto

lemma serialize_leaf_writes:
  assumes "good a" and "0 \<le> off" and "off + arr_nbytes np a \<le> int (length buf)"
  shows "serialize_leaf np (NdArray a, desc_of np a off) buf =
      Inr ((), overwrite buf (nat off) (projr (arr_bytes np a))) \<and>
    length (overwrite buf (nat off) (projr (arr_bytes np a))) = length buf"
proof -
  obtain bs where b: "arr_bytes np a = Inr bs" "arr_nbytes np a = int (length bs)"
    using good_bytes [OF assms(1)] by metis
  have "nat off + length bs \<le> length buf" using assms(2,3) b(2) by linarith
  then show ?thesis using b assms parse_desc [OF assms(1), of off] py_setslice_inside [of off bs buf]
    by (auto simp: serialize_leaf_def)
qed

lemma serialize_leaves:
  "\<forall>(a, off) \<in> set xs. good a \<and> 0 \<le> off \<and> off + arr_nbytes np a \<le> int (length buf) \<Longrightarrow>
    map_leaves (serialize_leaf np) (map (\<lambda>(a, off). (NdArray a, desc_of np a off)) xs) buf =
      Inr (map (\<lambda>x. ()) xs, write_slots (map slot_data xs) buf)"
proof (induction xs arbitrary: buf)
  case (Cons x xs)
  obtain a off where x: "x = (a, off)" by fastforce
  have g: "good a" "0 \<le> off" "off + arr_nbytes np a \<le> int (length buf)" using Cons.prems x by auto
  let ?buf = "overwrite buf (nat off) (projr (arr_bytes np a))"
  have "length ?buf = length buf" using serialize_leaf_writes [OF g] by blast
  with Cons.IH [of ?buf] Cons.prems have
    "map_leaves (serialize_leaf np) (map (\<lambda>(a, off). (NdArray a, desc_of np a off)) xs) ?buf =
      Inr (map (\<lambda>x. ()) xs, write_slots (map slot_data xs) ?buf)" by auto
  with serialize_leaf_writes [OF g] x show ?case by simp
qed simp

lemma slots_data:
  "slots_from lo (map (\<lambda>(a, off). (off, arr_nbytes np a)) xs) \<Longrightarrow> 0 \<le> lo \<Longrightarrow>
    \<forall>(a, off) \<in> set xs. good a \<and> off + arr_nbytes np a \<le> int len \<Longrightarrow>
    data_slots (nat lo) len (map slot_data xs)"
proof (induction xs arbitrary: lo)
  case (Cons x xs)
  obtain a off where x: "x = (a, off)" by fastforce
  have g: "good a" "lo \<le> off" "off + arr_nbytes np a \<le> int len"
    "slots_from (off + arr_nbytes np a) (map (\<lambda>(a, off). (off, arr_nbytes np a)) xs)"
    using Cons.prems x by auto
  have l: "int (length (projr (arr_bytes np a))) = arr_nbytes np a" using good_bytes [OF g(1)] by simp
  then have n: "nat (off + arr_nbytes np a) = nat off + length (projr (arr_bytes np a))"
    using g(2) Cons.prems(2) by (simp add: nat_add_distrib flip: l)
  have "data_slots (nat (off + arr_nbytes np a)) len (map slot_data xs)"
    using Cons.IH [OF g(4)] Cons.prems(2,3) g(2) nbytes_nonneg [OF g(1)] by simp
  moreover have "nat off + length (projr (arr_bytes np a)) \<le> len" "nat lo \<le> nat off"
    using g(2,3) Cons.prems(2) l by linarith+
  ultimately show ?case using n x by simp
qed simp

lemma deserialize_leaf_reads:
  assumes "good a" and "0 \<le> off" and "off + arr_nbytes np a \<le> int (length buf)"
    and "pyslice buf (nat off) (nat off + length (projr (arr_bytes np a))) = projr (arr_bytes np a)"
  shows "desc_to_arr np buf (desc_of np a off) () = Inr (NdArray a, ())"
proof -
  obtain bs where b: "arr_bytes np a = Inr bs" "arr_nbytes np a = int (length bs)"
    using good_bytes [OF assms(1)] by metis
  have "py_getslice buf off (off + arr_nbytes np a) = bs"
    using py_getslice_inside [of off "arr_nbytes np a" buf] assms b nbytes_nonneg [OF assms(1)] by simp
  with frombuffer_reshape [OF assms(1) b(1)] show ?thesis
    by (auto simp: desc_to_arr_def parse_desc [OF assms(1)])
qed

lemma deserialize_leaves:
  "\<forall>(a, off) \<in> set xs. desc_to_arr np buf (desc_of np a off) () = Inr (NdArray a, ()) \<Longrightarrow>
    map_leaves (desc_to_arr np buf) (map (\<lambda>(a, off). desc_of np a off) xs) () =
      Inr (map (\<lambda>(a, off). NdArray a) xs, ())"
proof (induction xs)
  case (Cons x xs)
  then show ?case by (cases x) auto
qed simp

text \<open>The pairs of arrays and offsets of a built layout.\<close>

definition placed :: "int \<Rightarrow> 'a list \<Rightarrow> ('a \<times> int) list" where
  "placed al as = zip as (layout_offsets al 0 (map (arr_nbytes np) as))"

lemma placed_slots:
  assumes "0 < al" and "\<forall>a \<in> set as. good a"
  shows "slots_from 0 (map (\<lambda>(a, off). (off, arr_nbytes np a)) (placed al as))"
proof -
  let ?ns = "map (arr_nbytes np) as"
  have "map (\<lambda>(a, off). (off, arr_nbytes np a)) (zip as offs) = zip offs ?ns"
    if "length offs = length as" for offs
    using that by (induction as offs rule: list_induct2') auto
  from this [of "layout_offsets al 0 ?ns"]
  have "map (\<lambda>(a, off). (off, arr_nbytes np a)) (placed al as) = zip (layout_offsets al 0 ?ns) ?ns"
    unfolding placed_def by simp
  moreover have "slots_from 0 (zip (layout_offsets al 0 ?ns) ?ns)"
    using assms nbytes_nonneg by (intro layout_slots) auto
  ultimately show ?thesis by simp
qed

lemma placed_good: "\<forall>a \<in> set as. good a \<Longrightarrow> (a, off) \<in> set (placed al as) \<Longrightarrow> good a"
  by (auto simp: placed_def dest: set_zip_leftD)

lemma map_fst_placed: "map fst (placed al as) = as"
  by (simp add: placed_def)

definition placed_size :: "int \<Rightarrow> 'a list \<Rightarrow> int" where
  "placed_size al as = slots_end (map (\<lambda>(a, off). (off, arr_nbytes np a)) (placed al as)) 0"

lemma placed_bounds:
  assumes "0 < al" and "\<forall>a \<in> set as. good a" and "(a, off) \<in> set (placed al as)"
  shows "good a \<and> 0 \<le> off \<and> off + arr_nbytes np a \<le> placed_size al as"
proof -
  have m: "(off, arr_nbytes np a) \<in> set (map (\<lambda>(a, off). (off, arr_nbytes np a)) (placed al as))"
    using assms(3) by force
  show ?thesis
    using placed_good [OF assms(2,3)] slots_from_lower [OF placed_slots [OF assms(1,2)] m]
      slots_end_bound [OF m] by (simp add: placed_size_def)
qed

definition layout_of :: "int \<Rightarrow> 's \<Rightarrow> 'a list \<Rightarrow> ('s, string) pytree" where
  "layout_of al sp as = \<lparr>pt_structure = sp, pt_leaves = map (\<lambda>(a, off). desc_of np a off) (placed al as)\<rparr>"

lemma build_layout:
  assumes "0 < al" and "al AND (al - 1) = 0" and "pt_leaves tree = map NdArray as"
  shows "build_nptree_layout np tree al = Inr (layout_of al (pt_structure tree) as)"
proof -
  obtain e where "map_leaves (arr_desc np al) (map NdArray as) 0 =
      Inr (map (\<lambda>(a, off). desc_of np a off) (placed al as), e)"
    using build_leaves [of np al as 0] unfolding placed_def by blast
  then show ?thesis using assms
    by (simp add: build_nptree_layout_def tree_map_def layout_of_def)
qed

lemma buffer_size_layout:
  assumes "\<forall>a \<in> set as. good a"
  shows "calc_buffer_size np (layout_of al sp as) = Inr (placed_size al as)"
proof -
  have "\<forall>(a, off) \<in> set (placed al as). good a" using placed_good [OF assms] by blast
  then show ?thesis
    by (simp add: calc_buffer_size_def tree_map_def layout_of_def calc_leaves placed_size_def)
qed

lemma zip_layout:
  assumes "pt_leaves tree = map NdArray as" and "pt_structure tree = sp"
  shows "tree_zip tree (layout_of al sp as) = Inr \<lparr>pt_structure = sp,
    pt_leaves = map (\<lambda>(a, off). (NdArray a, desc_of np a off)) (placed al as)\<rparr>"
proof -
  have "zip (map NdArray (map fst xs)) (map (\<lambda>(a, off). desc_of np a off) xs) =
      map (\<lambda>(a, off). (NdArray a, desc_of np a off)) xs" for xs :: "('a \<times> int) list"
    by (induction xs) auto
  from this [of "placed al as"] show ?thesis
    using assms by (simp add: tree_zip_def layout_of_def map_fst_placed)
qed

lemma validate_layout_ok:
  assumes "\<forall>a \<in> set as. good a" and "pt_leaves tree = map NdArray as"
  shows "validate_layout np tree (layout_of al (pt_structure tree) as) = Inr ()"
proof -
  have "\<forall>(a, off) \<in> set (placed al as). good a" using placed_good [OF assms(1)] by blast
  then show ?thesis using zip_layout [OF assms(2) refl, of al]
    by (simp add: validate_layout_def layout_of_def tree_map_def check_leaves)
qed

lemma serialize_layout:
  assumes "0 < al" and "\<forall>a \<in> set as. good a" and "pt_leaves tree = map NdArray as"
    and "get_buffer buffer (placed_size al as) = Inr buf" and "placed_size al as \<le> int (length buf)"
  shows "serialize_nptree np tree (layout_of al (pt_structure tree) as) buffer =
      Inr (write_slots (map slot_data (placed al as)) buf) \<and>
    data_slots 0 (length buf) (map slot_data (placed al as))"
proof -
  have b: "\<forall>(a, off) \<in> set (placed al as). good a \<and> 0 \<le> off \<and> off + arr_nbytes np a \<le> int (length buf)"
    using placed_bounds [OF assms(1,2)] assms(5) by fastforce
  have "data_slots (nat 0) (length buf) (map slot_data (placed al as))"
    using placed_slots [OF assms(1,2)] b by (intro slots_data) auto
  with serialize_leaves [OF b] zip_layout [OF assms(3) refl, of al] buffer_size_layout [OF assms(2), of al "pt_structure tree"]
  show ?thesis using assms(4)
    by (simp add: serialize_nptree_def tree_map_def) (simp add: layout_of_def)
qed

lemma deserialize_layout:
  assumes "0 < al" and "\<forall>a \<in> set as. good a" and "placed_size al as \<le> int (length buf)"
    and "\<forall>(a, off) \<in> set (placed al as).
      pyslice buf (nat off) (nat off + length (projr (arr_bytes np a))) = projr (arr_bytes np a)"
  shows "deserialize_nptree np (layout_of al sp as) (Some buf) =
    Inr \<lparr>pt_structure = sp, pt_leaves = map NdArray as\<rparr>"
proof -
  have "\<forall>(a, off) \<in> set (placed al as). desc_to_arr np buf (desc_of np a off) () = Inr (NdArray a, ())"
    using placed_bounds [OF assms(1,2)] assms(3,4) by (fastforce intro: deserialize_leaf_reads)
  note leaves = deserialize_leaves [OF this]
  have "map (\<lambda>(a, off). NdArray a) (placed al as) = map NdArray (map fst (placed al as))"
    by (simp add: case_prod_beta)
  with leaves buffer_size_layout [OF assms(2), of al sp] assms(3) show ?thesis
    by (simp add: deserialize_nptree_def get_buffer_def tree_map_def map_fst_placed)
      (simp add: layout_of_def)
qed

end

section \<open>The alignment check\<close>

lemma pow2_check_step: "(2 * b) AND (2 * b - 1) = 2 * (b AND (b - 1))" for b :: int
proof -
  have "(2 * b - 1) div 2 = b - 1" by presburger
  then show ?thesis by (subst and_rec) simp
qed

lemma pow2_check: "2 ^ k AND (2 ^ k - 1) = (0 :: int)"
  by (induction k) (simp_all add: pow2_check_step)

lemma pow2_check_conv: "0 < a \<Longrightarrow> a AND (a - 1) = 0 \<Longrightarrow> \<exists>k. a = 2 ^ k" for a :: int
proof (induction "nat a" arbitrary: a rule: less_induct)
  case less
  show ?case
  proof (cases "even a")
    case True
    then obtain b where b: "a = 2 * b" by blast
    with less.prems have "0 < b" "b AND (b - 1) = 0" using pow2_check_step [of b] by auto
    moreover have "nat b < nat a" using b less.prems(1) by simp
    ultimately obtain k where "b = 2 ^ k" using less.hyps by blast
    with b show ?thesis by (metis power_Suc)
  next
    case False
    then obtain b where b: "a = 2 * b + 1" by (elim oddE)
    have "(2 * b + 1) AND (2 * b) = 2 * b" by (subst and_rec) simp
    with less.prems b have "a = 2 ^ 0" by simp
    then show ?thesis by blast
  qed
qed

lemma alignment_check: "(al \<le> 0 \<or> (al AND (al - 1)) \<noteq> 0) \<longleftrightarrow> (\<nexists>k. al = 2 ^ k)" for al :: int
  using pow2_check pow2_check_conv [of al] by (metis not_le zero_less_numeral zero_less_power)

section \<open>A concrete instance of the contract\<close>

text \<open>
  Four plain dtypes of \<open>numpy\<close> with their type strings and item sizes; an array is its dtype,
  its shape and its bytes in C order.
\<close>

datatype plain_dtype = I4 | F8 | B1 | U1

fun plain_str :: "plain_dtype \<Rightarrow> string" where
  "plain_str I4 = ''<i4''"
| "plain_str F8 = ''<f8''"
| "plain_str B1 = ''|b1''"
| "plain_str U1 = ''|u1''"

fun plain_size :: "plain_dtype \<Rightarrow> int" where
  "plain_size I4 = 4"
| "plain_size F8 = 8"
| "plain_size B1 = 1"
| "plain_size U1 = 1"

definition plain_of_str :: "string \<Rightarrow> plain_dtype res" where
  "plain_of_str s =
     (if s = ''<i4'' then Inr I4 else if s = ''<f8'' then Inr F8 else if s = ''|b1'' then Inr B1
      else if s = ''|u1'' then Inr U1 else Inl TypeError)"

record nd =
  nd_dtype :: plain_dtype
  nd_shape :: "int list"
  nd_data :: bytes

definition nd_ok :: "nd \<Rightarrow> bool" where
  "nd_ok a \<longleftrightarrow> (\<forall>d \<in> set (nd_shape a). 0 \<le> d) \<and>
     int (length (nd_data a)) = prod_list (nd_shape a) * plain_size (nd_dtype a)"

definition plain_numpy :: "(nd, plain_dtype) numpy" where
  "plain_numpy =
     \<lparr>np_dtype = plain_of_str, dtype_str = plain_str, dtype_itemsize = plain_size,
      np_prod_times = (\<lambda>sh k. prod_list sh * k), arr_dtype = nd_dtype, arr_shape = nd_shape,
      arr_nbytes = (\<lambda>a. prod_list (nd_shape a) * plain_size (nd_dtype a)),
      arr_bytes = (\<lambda>a. Inr (nd_data a)),
      np_frombuffer = (\<lambda>bs d. if int (length bs) mod plain_size d \<noteq> 0 then Inl ValueError
        else Inr \<lparr>nd_dtype = d, nd_shape = [int (length bs) div plain_size d], nd_data = bs\<rparr>),
      np_reshape = (\<lambda>a sh. if prod_list sh = prod_list (nd_shape a) then Inr (a\<lparr>nd_shape := sh\<rparr>)
        else Inl ValueError)\<rparr>"

interpretation plain: numpy_api plain_numpy nd_ok
proof unfold_locales
  fix a :: nd assume a: "nd_ok a"
  have s: "0 < plain_size d" for d by (cases d) simp_all
  show "np_dtype plain_numpy (dtype_str plain_numpy (arr_dtype plain_numpy a)) = Inr (arr_dtype plain_numpy a)"
    by (cases "nd_dtype a") (simp_all add: plain_numpy_def plain_of_str_def)
  show "TAB \<notin> set (dtype_str plain_numpy (arr_dtype plain_numpy a))"
    by (cases "nd_dtype a") (simp_all add: plain_numpy_def)
  show "0 \<le> arr_nbytes plain_numpy a"
    using a by (simp add: plain_numpy_def nd_ok_def flip: of_nat_0_le_iff)
  show "\<exists>bs. arr_bytes plain_numpy a = Inr bs \<and> int (length bs) = arr_nbytes plain_numpy a"
    using a by (simp add: plain_numpy_def nd_ok_def)
  fix bs assume "arr_bytes plain_numpy a = Inr bs"
  then have "bs = nd_data a" by (simp add: plain_numpy_def)
  then show "\<exists>b. np_frombuffer plain_numpy bs (arr_dtype plain_numpy a) = Inr b \<and>
      np_reshape plain_numpy b (arr_shape plain_numpy a) = Inr a"
    using a s [of "nd_dtype a"] by (simp add: plain_numpy_def nd_ok_def)
qed (simp_all add: plain_numpy_def nd_ok_def)

section \<open>Validation\<close>

context numpy_api begin

lemma check_leaves_iff:
  "length bs = length xs \<Longrightarrow> \<forall>(a, off) \<in> set xs. good a \<Longrightarrow>
    is_ok (map_leaves (check_leaf np)
      (zip (map NdArray bs) (map (\<lambda>(a, off). desc_of np a off) xs)) ()) \<longleftrightarrow>
    map (arr_dtype np) bs = map (arr_dtype np \<circ> fst) xs \<and> map (arr_shape np) bs = map (arr_shape np \<circ> fst) xs"
proof (induction bs xs rule: list_induct2)
  case (Cons b bs x xs)
  obtain a off where x: "x = (a, off)" by fastforce
  have g: "good a" using Cons.prems x by simp
  let ?rest = "map_leaves (check_leaf np) (zip (map NdArray bs) (map (\<lambda>(a, off). desc_of np a off) xs)) ()"
  have "is_ok (res_bind ?rest (\<lambda>(ys, st2). Inr (() # ys, st2))) = is_ok ?rest" by (cases ?rest) auto
  then show ?case using Cons x g by (auto simp: check_leaf_def parse_desc)
qed simp

lemma validate_layout_iff:
  assumes "\<forall>a \<in> set as. good a" and "pt_structure tree = sp" and "pt_leaves tree = map NdArray bs"
    and "length bs = length as"
  shows "is_ok (validate_layout np tree (layout_of al sp as)) \<longleftrightarrow>
    map (arr_dtype np) bs = map (arr_dtype np) as \<and> map (arr_shape np) bs = map (arr_shape np) as"
proof -
  have l: "length bs = length (placed al as)" using assms(4) by (simp add: placed_def)
  have g: "\<forall>(a, off) \<in> set (placed al as). good a" using placed_good [OF assms(1)] by blast
  have f2: "map (f \<circ> fst) (placed al as) = map f as" for f :: "'a \<Rightarrow> 'd"
    using map_fst_placed [of al as] by (metis map_map)
  have f3: "map (f \<circ> fst) (placed al as) = map f as" for f :: "'a \<Rightarrow> int list"
    using map_fst_placed [of al as] by (metis map_map)
  let ?r = "map_leaves (check_leaf np) (zip (map NdArray bs) (map (\<lambda>(a, off). desc_of np a off) (placed al as))) ()"
  have "is_ok (validate_layout np tree (layout_of al sp as)) = is_ok ?r"
    using assms(2,3)
    by (cases ?r) (auto simp: validate_layout_def tree_zip_def tree_map_def layout_of_def)
  then show ?thesis using check_leaves_iff [OF l g] unfolding f2 f3 by simp
qed

definition offset_at :: "int \<Rightarrow> 'a list \<Rightarrow> nat \<Rightarrow> int" where
  "offset_at al as i = layout_offsets al 0 (map (arr_nbytes np) as) ! i"

lemma placed_nth: "i < length as \<Longrightarrow> placed al as ! i = (as ! i, offset_at al as i)"
  by (simp add: placed_def offset_at_def)

lemma length_placed [simp]: "length (placed al as) = length as"
  by (simp add: placed_def)

lemma placed_mem: "i < length as \<Longrightarrow> (as ! i, offset_at al as i) \<in> set (placed al as)"
  using nth_mem [of i "placed al as"] placed_nth [of i as al] by simp

lemma layout_leaf:
  "i < length as \<Longrightarrow> pt_leaves (layout_of al sp as) ! i = desc_of np (as ! i) (offset_at al as i)"
  by (simp add: layout_of_def placed_nth)

lemma layout_shape: "pt_structure (layout_of al sp as) = sp" "length (pt_leaves (layout_of al sp as)) = length as"
  by (simp_all add: layout_of_def)

lemma offset_aligned: "i < length as \<Longrightarrow> al dvd offset_at al as i"
  unfolding offset_at_def by (rule layout_offsets_aligned [of al 0 _ "map (arr_nbytes np) as"]) simp_all

lemma offsets_disjoint:
  assumes "0 < al" and "\<forall>a \<in> set as. good a" and "i < j" and "j < length as"
  shows "offset_at al as i + arr_nbytes np (as ! i) \<le> offset_at al as j"
  using slots_from_sorted [OF placed_slots [OF assms(1,2)]] assms(3,4)
  by (simp add: sorted_wrt_map sorted_wrt_iff_nth_less placed_nth case_prod_beta)

lemma layout_slots_spec:
  assumes "0 < al" and "\<forall>a \<in> set as. good a" and "i < length as"
  shows "parse_arr_desc np (pt_leaves (layout_of al sp as) ! i) =
      Inr (arr_dtype np (as ! i), arr_shape np (as ! i), offset_at al as i, arr_nbytes np (as ! i)) \<and>
    0 \<le> offset_at al as i \<and> al dvd offset_at al as i \<and>
    offset_at al as i + arr_nbytes np (as ! i) \<le> placed_size al as"
  using placed_bounds [OF assms(1,2) placed_mem [OF assms(3)]] layout_leaf [OF assms(3), of al sp] assms(2,3)
    offset_aligned [OF assms(3), of al] by (simp add: parse_desc)

lemma layout_descs:
  assumes "0 < al" and "\<forall>a \<in> set as. good a" and "desc \<in> set (pt_leaves (layout_of al sp as))"
  shows "\<exists>a off. good a \<and> parse_arr_desc np desc = Inr (arr_dtype np a, arr_shape np a, off, arr_nbytes np a) \<and>
    0 \<le> off \<and> off + arr_nbytes np a \<le> placed_size al as"
proof -
  obtain i where i: "i < length as" "desc = pt_leaves (layout_of al sp as) ! i"
    using assms(3) layout_shape(2) [of al sp as] by (metis in_set_conv_nth)
  then have "good (as ! i)" using assms(2) by simp
  with layout_slots_spec [OF assms(1,2) i(1), of sp] i(2) show ?thesis by blast
qed

lemma written_slots:
  assumes "0 < al" and "\<forall>a \<in> set as. good a" and "placed_size al as \<le> int (length buf)"
    and "data_slots 0 (length buf) (map slot_data (placed al as))"
  defines "buf' \<equiv> write_slots (map slot_data (placed al as)) buf"
  shows "length buf' = length buf \<and> drop (nat (placed_size al as)) buf' = drop (nat (placed_size al as)) buf \<and>
    (\<forall>(a, off) \<in> set (placed al as).
       pyslice buf' (nat off) (nat off + length (projr (arr_bytes np a))) = projr (arr_bytes np a))"
proof -
  let ?n = "nat (placed_size al as)"
  have len: "length buf' = length buf" unfolding buf'_def by (rule length_write_slots [OF assms(4)])
  have "\<forall>(off, bs) \<in> set (map slot_data (placed al as)). length buf \<le> off \<or> off + length bs \<le> ?n"
  proof clarify
    fix off bs assume "(off, bs) \<in> set (map slot_data (placed al as))" and n: "\<not> off + length bs \<le> ?n"
    then obtain a o' where a: "(a, o') \<in> set (placed al as)" "off = nat o'" "bs = projr (arr_bytes np a)" by auto
    have "o' + arr_nbytes np a \<le> placed_size al as" "0 \<le> o'" "int (length bs) = arr_nbytes np a"
      using placed_bounds [OF assms(1,2) a(1)] good_bytes a(3) by auto
    with a(2) n show "length buf \<le> off" by linarith
  qed
  from write_slots_outside [OF assms(4) this] have "drop ?n buf' = drop ?n buf"
    using len by (simp add: pyslice_def buf'_def)
  moreover have "pyslice buf' (nat off) (nat off + length (projr (arr_bytes np a))) = projr (arr_bytes np a)"
    if "(a, off) \<in> set (placed al as)" for a off
    using that unfolding buf'_def by (intro write_slots_read [OF assms(4)]) force
  ultimately show ?thesis using len by blast
qed

lemma roundtrip_layout:
  assumes "0 < al" and "\<forall>a \<in> set as. good a" and "pt_leaves tree = map NdArray as"
    and "get_buffer buffer (placed_size al as) = Inr buf" and "placed_size al as \<le> int (length buf)"
  shows "\<exists>buf'. serialize_nptree np tree (layout_of al (pt_structure tree) as) buffer = Inr buf' \<and>
    deserialize_nptree np (layout_of al (pt_structure tree) as) (Some buf') =
      Inr \<lparr>pt_structure = pt_structure tree, pt_leaves = pt_leaves tree\<rparr> \<and>
    length buf' = length buf \<and> drop (nat (placed_size al as)) buf' = drop (nat (placed_size al as)) buf"
proof -
  let ?buf = "write_slots (map slot_data (placed al as)) buf"
  have s: "serialize_nptree np tree (layout_of al (pt_structure tree) as) buffer = Inr ?buf"
    and d: "data_slots 0 (length buf) (map slot_data (placed al as))"
    using serialize_layout [OF assms] by blast+
  note w = written_slots [OF assms(1,2,5) d]
  have "placed_size al as \<le> int (length ?buf)" using w assms(5) by simp
  from deserialize_layout [OF assms(1,2) this, of "pt_structure tree"] w s show ?thesis using assms(3) by auto
qed

lemma slots_end_attained: "slots_end ws m = m \<or> (\<exists>(off, n) \<in> set ws. off + n = slots_end ws m)"
proof (induction ws arbitrary: m)
  case (Cons w ws)
  obtain off n where w: "w = (off, n)" by fastforce
  then have e: "slots_end (w # ws) m = slots_end ws (max m (off + n))" by (simp add: slots_end_def)
  from Cons.IH [of "max m (off + n)"] show ?case unfolding e using w by (auto simp: max_def split: if_splits)
qed (simp add: slots_end_def)

lemma placed_size_attained:
  assumes "\<forall>a \<in> set as. good a"
  shows "placed_size al as = 0 \<or> (\<exists>desc \<in> set (pt_leaves (layout_of al sp as)). \<exists>dt sh off sz.
    parse_arr_desc np desc = Inr (dt, sh, off, sz) \<and> off + sz = placed_size al as)"
proof -
  consider "placed_size al as = 0" | a off where "(a, off) \<in> set (placed al as)"
      "off + arr_nbytes np a = placed_size al as"
    using slots_end_attained [of "map (\<lambda>(a, off). (off, arr_nbytes np a)) (placed al as)" 0]
    unfolding placed_size_def by auto
  then show ?thesis
  proof cases
    case 2
    have "desc_of np a off \<in> set (pt_leaves (layout_of al sp as))"
      using 2(1) by (auto simp: layout_of_def intro: rev_image_eqI)
    moreover have "parse_arr_desc np (desc_of np a off) =
        Inr (arr_dtype np a, arr_shape np a, off, arr_nbytes np a)"
      using parse_desc placed_good [OF assms 2(1)] by blast
    ultimately show ?thesis using 2(2) by blast
  qed simp
qed

end

definition demo_arrays :: "nd list" where
  "demo_arrays = [\<lparr>nd_dtype = I4, nd_shape = [3], nd_data = replicate 12 1\<rparr>,
     \<lparr>nd_dtype = F8, nd_shape = [2, 1], nd_data = replicate 16 2\<rparr>]"

definition demo_tree :: "(string, nd leaf) pytree" where
  "demo_tree = \<lparr>pt_structure = ''pair'', pt_leaves = map NdArray demo_arrays\<rparr>"

lemma demo_arrays_ok: "\<forall>a \<in> set demo_arrays. nd_ok a"
  by (simp add: demo_arrays_def nd_ok_def)

lemma demo_tree_leaves: "pt_leaves demo_tree = map NdArray demo_arrays"
  by (simp add: demo_tree_def)

section \<open>Properties\<close>

text \<open>
  C18. What a built layout says: for a tree of arrays and a power-of-two alignment, leaf \<open>i\<close>
  of the layout parses back to the dtype and shape of array \<open>i\<close>, its number of bytes, and an
  offset; the offsets are multiples of the alignment, and a slot ends before the next one begins,
  so no two arrays overlap.
\<close>

theorem nptree_layout_slots:
  assumes "numpy_api np good" and "pt_leaves tree = map NdArray as" and "\<forall>a \<in> set as. good a"
  shows "\<exists>layout offs. build_nptree_layout np tree (2 ^ k) = Inr layout \<and>
    pt_structure layout = pt_structure tree \<and> length (pt_leaves layout) = length as \<and>
    (\<forall>i < length as. parse_arr_desc np (pt_leaves layout ! i) =
        Inr (arr_dtype np (as ! i), arr_shape np (as ! i), offs i, arr_nbytes np (as ! i)) \<and>
      0 \<le> offs i \<and> 2 ^ k dvd offs i) \<and>
    (\<forall>i j. i < j \<and> j < length as \<longrightarrow> offs i + arr_nbytes np (as ! i) \<le> offs j)"
proof -
  have p: "0 < (2 ^ k :: int)" by simp
  show ?thesis
    using numpy_api.build_layout [OF assms(1) p pow2_check assms(2)]
      numpy_api.layout_slots_spec [OF assms(1) p assms(3), where sp = "pt_structure tree"]
      numpy_api.offsets_disjoint [OF assms(1) p assms(3)]
    by (intro exI [of _ "numpy_api.layout_of np (2 ^ k) (pt_structure tree) as"]
          exI [of _ "numpy_api.offset_at np (2 ^ k) as"])
      (simp add: numpy_api.layout_shape [OF assms(1)])
qed

theorem nptree_layout_slots_witness:
  "\<exists>layout offs. build_nptree_layout plain_numpy demo_tree (2 ^ 3) = Inr layout \<and>
    (\<forall>i < length demo_arrays. 2 ^ 3 dvd (offs i :: int)) \<and> offs 0 + 12 \<le> offs 1"
proof -
  from nptree_layout_slots [OF plain.numpy_api_axioms demo_tree_leaves demo_arrays_ok, of 3]
  obtain layout offs where l: "build_nptree_layout plain_numpy demo_tree (2 ^ 3) = Inr layout"
    "\<forall>i < length demo_arrays. 2 ^ 3 dvd (offs i :: int)"
    "\<forall>i j. i < j \<and> j < length demo_arrays \<longrightarrow>
       offs i + arr_nbytes plain_numpy (demo_arrays ! i) \<le> offs j" by blast
  have "offs 0 + arr_nbytes plain_numpy (demo_arrays ! 0) \<le> offs 1"
    using l(3) [THEN spec, of 0, THEN spec, of 1] by (simp add: demo_arrays_def)
  then have "offs 0 + 12 \<le> offs 1" by (simp add: demo_arrays_def plain_numpy_def)
  with l(1,2) show ?thesis by blast
qed

text \<open>
  The buffer size of a built layout: every slot lies inside it, and it is not larger than
  necessary, being 0 or the end of some slot.
\<close>

theorem nptree_buffer_size:
  assumes "numpy_api np good" and "pt_leaves tree = map NdArray as" and "\<forall>a \<in> set as. good a"
    and "build_nptree_layout np tree (2 ^ k) = Inr layout"
  shows "\<exists>n. calc_buffer_size np layout = Inr n \<and> 0 \<le> n \<and>
    (\<forall>desc \<in> set (pt_leaves layout). \<exists>dt sh off sz. parse_arr_desc np desc = Inr (dt, sh, off, sz) \<and>
      0 \<le> off \<and> 0 \<le> sz \<and> off + sz \<le> n) \<and>
    (n = 0 \<or> (\<exists>desc \<in> set (pt_leaves layout). \<exists>dt sh off sz.
      parse_arr_desc np desc = Inr (dt, sh, off, sz) \<and> off + sz = n))"
proof -
  have p: "0 < (2 ^ k :: int)" by simp
  have l: "layout = numpy_api.layout_of np (2 ^ k) (pt_structure tree) as"
    using numpy_api.build_layout [OF assms(1) p pow2_check assms(2)] assms(4) by simp
  let ?n = "numpy_api.placed_size np (2 ^ k) as"
  have c: "calc_buffer_size np layout = Inr ?n" unfolding l
    by (rule numpy_api.buffer_size_layout [OF assms(1,3)])
  have "0 \<le> ?n" by (simp add: numpy_api.placed_size_def [OF assms(1)] slots_end_ge)
  moreover have "\<forall>desc \<in> set (pt_leaves layout). \<exists>dt sh off sz. parse_arr_desc np desc = Inr (dt, sh, off, sz) \<and>
      0 \<le> off \<and> 0 \<le> sz \<and> off + sz \<le> ?n"
    using numpy_api.layout_descs [OF assms(1) p assms(3), of _ "pt_structure tree"]
      numpy_api.nbytes_nonneg [OF assms(1)] unfolding l by (metis (no_types, lifting))
  moreover have "?n = 0 \<or> (\<exists>desc \<in> set (pt_leaves layout). \<exists>dt sh off sz.
      parse_arr_desc np desc = Inr (dt, sh, off, sz) \<and> off + sz = ?n)"
    using numpy_api.placed_size_attained [OF assms(1,3), of "2 ^ k" "pt_structure tree"] unfolding l by blast
  ultimately show ?thesis using c by blast
qed

theorem nptree_buffer_size_witness:
  "\<exists>layout n. build_nptree_layout plain_numpy demo_tree (2 ^ 3) = Inr layout \<and>
    calc_buffer_size plain_numpy layout = Inr n \<and> 0 \<le> n"
proof -
  obtain layout where l: "build_nptree_layout plain_numpy demo_tree (2 ^ 3) = Inr layout"
    using plain.build_layout [OF _ pow2_check demo_tree_leaves, of 3] by auto
  from nptree_buffer_size [OF plain.numpy_api_axioms demo_tree_leaves demo_arrays_ok l] l show ?thesis by blast
qed

lemma serialize_deserialize:
  assumes "numpy_api np good" and "pt_leaves tree = map NdArray as" and "\<forall>a \<in> set as. good a"
    and "build_nptree_layout np tree (2 ^ k) = Inr layout" and "calc_buffer_size np layout = Inr n"
    and "\<forall>b. buffer = Some b \<longrightarrow> n \<le> int (length b)"
  shows "\<exists>buf. serialize_nptree np tree layout buffer = Inr buf \<and>
    deserialize_nptree np layout (Some buf) = Inr \<lparr>pt_structure = pt_structure tree, pt_leaves = pt_leaves tree\<rparr> \<and>
    (\<forall>b. buffer = Some b \<longrightarrow> length buf = length b \<and> drop (nat n) buf = drop (nat n) b) \<and>
    (buffer = None \<longrightarrow> int (length buf) = n)"
proof -
  have p: "0 < (2 ^ k :: int)" by simp
  have l: "layout = numpy_api.layout_of np (2 ^ k) (pt_structure tree) as"
    using numpy_api.build_layout [OF assms(1) p pow2_check assms(2)] assms(4) by simp
  have n: "n = numpy_api.placed_size np (2 ^ k) as" "0 \<le> n"
    using numpy_api.buffer_size_layout [OF assms(1,3), of "2 ^ k" "pt_structure tree"] assms(5) l
    by (auto simp: numpy_api.placed_size_def [OF assms(1)] slots_end_ge)
  obtain buf where buf: "get_buffer buffer n = Inr buf" "n \<le> int (length buf)"
      "buffer = None \<longrightarrow> length buf = nat n" "\<forall>b. buffer = Some b \<longrightarrow> buf = b"
    using assms(6) by (cases buffer) (auto simp: get_buffer_def)
  from numpy_api.roundtrip_layout [OF assms(1) p assms(3,2) buf(1,2) [unfolded n(1)]] buf(3,4) n
  show ?thesis unfolding l by auto
qed

text \<open>
  C4. Round trip: serialising a tree of arrays by its layout, into a fresh buffer or into a given
  one that is large enough, succeeds; deserialising the buffer by the same layout gives the tree
  back. A given buffer keeps its length and every byte after the layout's size.
\<close>

theorem nptree_roundtrip:
  assumes "numpy_api np good" and "pt_leaves tree = map NdArray as" and "\<forall>a \<in> set as. good a"
    and "build_nptree_layout np tree (2 ^ k) = Inr layout" and "calc_buffer_size np layout = Inr n"
    and "\<forall>b. buffer = Some b \<longrightarrow> n \<le> int (length b)"
  shows "\<exists>buf. serialize_nptree np tree layout buffer = Inr buf \<and>
    deserialize_nptree np layout (Some buf) = Inr \<lparr>pt_structure = pt_structure tree, pt_leaves = pt_leaves tree\<rparr> \<and>
    (\<forall>b. buffer = Some b \<longrightarrow> length buf = length b \<and> drop (nat n) buf = drop (nat n) b) \<and>
    (buffer = None \<longrightarrow> int (length buf) = n)"
  using serialize_deserialize [OF assms] .

theorem nptree_roundtrip_witness:
  "\<exists>layout buf. build_nptree_layout plain_numpy demo_tree (2 ^ 3) = Inr layout \<and>
    serialize_nptree plain_numpy demo_tree layout None = Inr buf \<and>
    deserialize_nptree plain_numpy layout (Some buf) = Inr demo_tree"
proof -
  obtain layout where l: "build_nptree_layout plain_numpy demo_tree (2 ^ 3) = Inr layout"
      "layout = plain.layout_of (2 ^ 3) (pt_structure demo_tree) demo_arrays"
    using plain.build_layout [OF _ pow2_check demo_tree_leaves, of 3] by auto
  have "calc_buffer_size plain_numpy layout = Inr (plain.placed_size (2 ^ 3) demo_arrays)"
    unfolding l(2) by (rule plain.buffer_size_layout [OF demo_arrays_ok])
  from nptree_roundtrip [OF plain.numpy_api_axioms demo_tree_leaves demo_arrays_ok l(1) this, of None]
  show ?thesis using l(1) by auto
qed

text \<open>
  Errors of building a layout: \<open>ValueError\<close> exactly when the alignment is not a power
  of two; otherwise \<open>TypeError\<close> exactly when some leaf is not an array; otherwise a layout.
\<close>

theorem nptree_build_errors:
  "(build_nptree_layout np tree al = Inl ValueError \<longleftrightarrow> (\<nexists>k. al = 2 ^ k)) \<and>
   (build_nptree_layout np tree al = Inl TypeError \<longleftrightarrow> (\<exists>k. al = 2 ^ k) \<and> OtherLeaf \<in> set (pt_leaves tree)) \<and>
   (is_ok (build_nptree_layout np tree al) \<longleftrightarrow> (\<exists>k. al = 2 ^ k) \<and> OtherLeaf \<notin> set (pt_leaves tree))"
proof (cases "OtherLeaf \<in> set (pt_leaves tree)")
  case True
  then show ?thesis using alignment_check [of al]
    by (auto simp: build_nptree_layout_def tree_map_def build_other_leaf)
next
  case False
  then obtain as where as: "pt_leaves tree = map NdArray as" using only_arrays by blast
  obtain ds e where "map_leaves (arr_desc np al) (map NdArray as) 0 = Inr (ds, e)"
    using build_leaves [of np al as 0] by blast
  then have "tree_map (arr_desc np al) tree 0 = Inr (\<lparr>pt_structure = pt_structure tree, pt_leaves = ds\<rparr>, e)"
    by (simp add: tree_map_def as)
  with False show ?thesis using alignment_check [of al]
    by (auto simp: build_nptree_layout_def)
qed

text \<open>
  Validation is exact: a tree of arrays with the structure of a built layout is accepted if
  and only if its arrays have the dtypes and the shapes that the layout was built from.
\<close>

theorem nptree_validate_exact:
  assumes "numpy_api np good" and "pt_leaves tree = map NdArray as" and "\<forall>a \<in> set as. good a"
    and "build_nptree_layout np tree (2 ^ k) = Inr layout"
    and "pt_structure other = pt_structure tree" and "pt_leaves other = map NdArray bs"
    and "length bs = length as"
  shows "is_ok (validate_layout np other layout) \<longleftrightarrow>
    map (arr_dtype np) bs = map (arr_dtype np) as \<and> map (arr_shape np) bs = map (arr_shape np) as"
proof -
  have "layout = numpy_api.layout_of np (2 ^ k) (pt_structure tree) as"
    using numpy_api.build_layout [OF assms(1) _ pow2_check assms(2)] assms(4) by simp
  then show ?thesis using numpy_api.validate_layout_iff [OF assms(1,3,5,6,7)] by simp
qed

theorem nptree_validate_exact_witness:
  "\<exists>layout. build_nptree_layout plain_numpy demo_tree (2 ^ 3) = Inr layout \<and>
    is_ok (validate_layout plain_numpy demo_tree layout)"
proof -
  obtain layout where l: "build_nptree_layout plain_numpy demo_tree (2 ^ 3) = Inr layout"
    using plain.build_layout [OF _ pow2_check demo_tree_leaves, of 3] by auto
  from nptree_validate_exact [OF plain.numpy_api_axioms demo_tree_leaves demo_arrays_ok l refl demo_tree_leaves refl]
  show ?thesis using l by blast
qed

text \<open>
  Serialisation compares structures only: an array with another number of bytes than the
  layout's slot is not refused, the slice assignment silently gives the buffer another length.
\<close>

theorem nptree_serialize_resizes:
  assumes "numpy_api np good" and "good a" and "good b" and "arr_nbytes np a \<noteq> 0"
    and "build_nptree_layout np \<lparr>pt_structure = sp, pt_leaves = [NdArray a]\<rparr> (2 ^ k) = Inr layout"
  shows "\<exists>buf. serialize_nptree np \<lparr>pt_structure = sp, pt_leaves = [NdArray b]\<rparr> layout None = Inr buf \<and>
    calc_buffer_size np layout = Inr (arr_nbytes np a) \<and> int (length buf) = arr_nbytes np b"
proof -
  let ?n = "arr_nbytes np a" and ?d = "desc_of np a 0"
  have n: "0 < ?n" using numpy_api.nbytes_nonneg [OF assms(1,2)] assms(4) by simp
  have l: "layout = \<lparr>pt_structure = sp, pt_leaves = [?d]\<rparr>"
    using assms(5) pow2_check [of k] by (auto simp: build_nptree_layout_def tree_map_def arr_desc_NdArray)
  note parse = numpy_api.parse_desc [OF assms(1,2), of 0]
  have c: "calc_buffer_size np layout = Inr ?n"
    using n by (simp add: l calc_buffer_size_def tree_map_def update_max_offset_def parse)
  obtain bs where bs: "arr_bytes np b = Inr bs" "int (length bs) = arr_nbytes np b"
    using numpy_api.bytes_ok [OF assms(1,3)] by blast
  have "py_setslice (replicate (nat ?n) 0) 0 ?n bs = bs"
    using n by (simp add: py_setslice_def clip_index_def bytearray_setslice_def)
  then have "serialize_nptree np \<lparr>pt_structure = sp, pt_leaves = [NdArray b]\<rparr> layout None = Inr bs"
    using c n bs(1) by (simp add: serialize_nptree_def l tree_zip_def tree_map_def serialize_leaf_def
        get_buffer_def parse)
  with c bs(2) show ?thesis by blast
qed

theorem nptree_serialize_resizes_witness:
  "\<exists>layout buf. serialize_nptree plain_numpy \<lparr>pt_structure = (), pt_leaves = [NdArray (demo_arrays ! 1)]\<rparr>
      layout None = Inr buf \<and> calc_buffer_size plain_numpy layout = Inr 12 \<and> length buf = 16"
proof -
  let ?a = "demo_arrays ! 0" and ?b = "demo_arrays ! 1"
  have g: "nd_ok ?a" "nd_ok ?b" "arr_nbytes plain_numpy ?a = 12" "arr_nbytes plain_numpy ?b = 16"
    by (simp_all add: demo_arrays_def nd_ok_def plain_numpy_def)
  obtain layout where l: "build_nptree_layout plain_numpy \<lparr>pt_structure = (), pt_leaves = [NdArray ?a]\<rparr> (2 ^ 3) = Inr layout"
    using plain.build_layout [OF _ pow2_check, of 3 "\<lparr>pt_structure = (), pt_leaves = [NdArray ?a]\<rparr>" "[?a]"] by auto
  from nptree_serialize_resizes [OF plain.numpy_api_axioms g(1,2) _ l] g(3,4) show ?thesis by auto
qed

end
