(* ===== verification/Nptree_History.thy ===== *)
theory Nptree_History
  imports Nptree_Correct History_Correct
begin

text \<open>
  A tree of arrays as a message: the serialised tree is published in a history buffer, and what a
  reader gets from the buffer is deserialised by the same layout.
\<close>

text \<open>
  C19. End to end: when the slots have room for the layout, a tree that is serialised and published
  is what a reader gets: \<open>get_latest\<close> returns the bytes that were published and deserialising
  them gives the tree.
\<close>

theorem nptree_over_history:
  assumes "numpy_api np good" and "pt_leaves tree = map NdArray as" and "\<forall>a \<in> set as. good a"
    and "build_nptree_layout np tree (2 ^ k) = Inr layout" and "calc_buffer_size np layout = Inr n"
    and "hb_rel ps buf" and "pid \<noteq> 0" and "Suc (length ps) < 2 ^ 63" and "n \<le> int (slot_size_of buf)"
  shows "\<exists>data buf' received. serialize_nptree np tree layout None = Inr data \<and>
    publish pid now t1 t2 data buf = Some (Inr (), buf') \<and> hb_rel (ps @ [data]) buf' \<and>
    get_latest buf' = Inr received \<and>
    deserialize_nptree np layout (Some received) =
      Inr \<lparr>pt_structure = pt_structure tree, pt_leaves = pt_leaves tree\<rparr>"
proof -
  from serialize_deserialize [OF assms(1-5), of None] obtain data where
    d: "serialize_nptree np tree layout None = Inr data" "int (length data) = n"
    "deserialize_nptree np layout (Some data) = Inr \<lparr>pt_structure = pt_structure tree, pt_leaves = pt_leaves tree\<rparr>"
    by auto
  have "length data \<le> slot_size_of buf" using d(2) assms(9) by linarith
  from publish_refines [OF assms(6-8) this, of now t1 t2] obtain buf' where
    b: "publish pid now t1 t2 data buf = Some (Inr (), buf')" "hb_rel (ps @ [data]) buf'" by blast
  have "get_latest buf' = Inr data" using get_latest_refines [OF b(2)] by simp
  with b d show ?thesis by blast
qed

lemma demo_size: "plain.placed_size (2 ^ 3) demo_arrays \<le> 64"
  unfolding plain.placed_size_def plain.placed_def
  by (simp add: demo_arrays_def slots_end_def align_up_def plain_numpy_def)

theorem nptree_over_history_witness:
  "\<exists>layout buf data buf'. build_nptree_layout plain_numpy demo_tree (2 ^ 3) = Inr layout \<and>
    publish 7 0 1 2 data buf = Some (Inr (), buf') \<and> get_latest buf' = Inr data \<and>
    deserialize_nptree plain_numpy layout (Some data) = Inr demo_tree"
proof -
  obtain layout where l: "build_nptree_layout plain_numpy demo_tree (2 ^ 3) = Inr layout"
      "layout = plain.layout_of (2 ^ 3) (pt_structure demo_tree) demo_arrays"
    using plain.build_layout [OF _ pow2_check demo_tree_leaves, of 3] by auto
  have c: "calc_buffer_size plain_numpy layout = Inr (plain.placed_size (2 ^ 3) demo_arrays)"
    unfolding l(2) by (rule plain.buffer_size_layout [OF demo_arrays_ok])
  obtain b where b: "hb_rel [] b" "slot_size_of b = 64"
    using hb_format_rel [of 4 64 "[]" "replicate 704 0"] by (auto simp: hb_size_def)
  from nptree_over_history [OF plain.numpy_api_axioms demo_tree_leaves demo_arrays_ok l(1) c b(1), of 7 0 1 2]
    demo_size b(2) obtain data buf' received where
    "publish 7 0 1 2 data b = Some (Inr (), buf')" "hb_rel ([] @ [data]) buf'" "get_latest buf' = Inr received"
    "deserialize_nptree plain_numpy layout (Some received) = Inr demo_tree" by auto
  moreover have "received = data" using calculation(2,3) get_latest_refines [of "[data]" buf'] by simp
  ultimately show ?thesis using l(1) by blast
qed

end
