(* ===== verification/Atomics.thy ===== *)
theory Atomics
  imports Futex Decimal
begin

text \<open>
  \<open>AtomicU32\<close> and \<open>AtomicU64\<close> of the C extension, and \<open>align_to_cacheline_size\<close>
  of \<open>fastipc.utils\<close>. Python integers are converted by the argument parser before the range
  check of the C function sees them: the format \<open>k\<close> keeps the low 64 bits.
\<close>

definition check_aligned :: "bufview \<Rightarrow> nat \<Rightarrow> nat \<Rightarrow> bool" where
  "check_aligned view sz align = (\<not> v_len view < sz \<and> v_addr view mod align = 0)"

record AtomicU32 =
  a32_uaddr :: nat

definition AtomicU32_init :: "bufview \<Rightarrow> AtomicU32 res" where
  "AtomicU32_init view =
     (if check_aligned view 4 4 then Inr \<lparr>a32_uaddr = v_off view\<rparr> else Inl ValueError)"

definition AtomicU32_load :: "AtomicU32 \<Rightarrow> bytes \<Rightarrow> int" where
  "AtomicU32_load self mem = uint (u32_at mem (a32_uaddr self))"

definition AtomicU32_store :: "AtomicU32 \<Rightarrow> int \<Rightarrow> bytes \<Rightarrow> unit res \<times> bytes" where
  "AtomicU32_store self v mem =
     (let v_ul = arg_k v in
      if v_ul > 0xFFFFFFFF then (Inl OverflowError, mem)
      else (Inr (), u32_put (a32_uaddr self) (ucast v_ul) mem))"

definition AtomicU32_cas :: "AtomicU32 \<Rightarrow> int \<Rightarrow> int \<Rightarrow> bytes \<Rightarrow> bool res \<times> bytes" where
  "AtomicU32_cas self expected desired mem =
     (let expected_ul = arg_k expected; desired_ul = arg_k desired in
      if expected_ul > 0xFFFFFFFF \<or> desired_ul > 0xFFFFFFFF then (Inl OverflowError, mem)
      else if u32_at mem (a32_uaddr self) = ucast expected_ul
      then (Inr True, u32_put (a32_uaddr self) (ucast desired_ul) mem)
      else (Inr False, mem))"

record AtomicU64 =
  a64_uaddr :: nat

definition AtomicU64_init :: "bufview \<Rightarrow> AtomicU64 res" where
  "AtomicU64_init view =
     (if check_aligned view 8 8 then Inr \<lparr>a64_uaddr = v_off view\<rparr> else Inl ValueError)"

definition AtomicU64_load :: "AtomicU64 \<Rightarrow> bytes \<Rightarrow> int" where
  "AtomicU64_load self mem = uint (u64_at mem (a64_uaddr self))"

definition AtomicU64_store :: "AtomicU64 \<Rightarrow> int \<Rightarrow> bytes \<Rightarrow> bytes" where
  "AtomicU64_store self v mem = u64_put (a64_uaddr self) (arg_k v) mem"

definition AtomicU64_cas :: "AtomicU64 \<Rightarrow> int \<Rightarrow> int \<Rightarrow> bytes \<Rightarrow> bool \<times> bytes" where
  "AtomicU64_cas self expected desired mem =
     (if u64_at mem (a64_uaddr self) = arg_k expected
      then (True, u64_put (a64_uaddr self) (arg_k desired) mem)
      else (False, mem))"

definition cache_line_size :: "string option \<Rightarrow> int res" where
  \<comment> \<open>\<open>int(os.environ.get("CACHE_LINE_SIZE", 64))\<close>\<close>
  "cache_line_size environ = (case environ of None \<Rightarrow> Inr 64 | Some v \<Rightarrow> py_int v)"

definition align_to_cacheline_size :: "string option \<Rightarrow> int \<Rightarrow> int res" where
  "align_to_cacheline_size environ sz =
     res_bind (cache_line_size environ) (\<lambda>line.
       if line = 0 then Inl ZeroDivisionError else Inr ((sz + line - 1) div line * line))"

section \<open>Lemmas\<close>

lemma arg_k_mod: "uint (arg_k v) = v mod 2 ^ 64"
  by (simp add: arg_k_def uint_word_of_int)

lemma ucast_arg_k: "uint (ucast (arg_k v) :: u32) = v mod 2 ^ 32"
  by (simp add: arg_k_def unsigned_ucast_eq unsigned_of_int take_bit_eq_mod mod_mod_cancel)

lemma arg_k_range: "arg_k v > 0xFFFFFFFF \<longleftrightarrow> 2 ^ 32 \<le> v mod 2 ^ 64"
  unfolding word_less_def arg_k_mod by auto

section \<open>Properties\<close>

text \<open>
  C38. Range checks of \<open>AtomicU32.store\<close>: the check sees the value modulo \<open>2^64\<close> only. A
  value from 0 to \<open>2^32 - 1\<close> is stored and read back, a value that is at least \<open>2^32\<close>
  modulo \<open>2^64\<close> is refused and changes nothing, and every value that is congruent to a small
  one is stored without an error.
\<close>

theorem atomic_u32_store_range:
  assumes "a32_uaddr self + 4 \<le> length mem"
  shows "if v mod 2 ^ 64 < 2 ^ 32
    then fst (AtomicU32_store self v mem) = Inr () \<and>
      AtomicU32_load self (snd (AtomicU32_store self v mem)) = v mod 2 ^ 64
    else AtomicU32_store self v mem = (Inl OverflowError, mem)"
proof (cases "v mod 2 ^ 64 < 2 ^ 32")
  case True
  have "(v mod 2 ^ 64) mod 2 ^ 32 = v mod 2 ^ 32" by (simp add: mod_mod_cancel)
  with True have "v mod 2 ^ 32 = v mod 2 ^ 64" by simp
  with True show ?thesis using assms ucast_arg_k [of v] arg_k_range [of v]
    by (simp add: AtomicU32_store_def AtomicU32_load_def Let_def buf_simps)
next
  case False
  then show ?thesis using arg_k_range [of v] by (simp add: AtomicU32_store_def Let_def)
qed

theorem atomic_u32_store_range_witness:
  "fst (AtomicU32_store \<lparr>a32_uaddr = 0\<rparr> (2 ^ 64 + 5) (replicate 4 0)) = Inr ()"
proof -
  have "a32_uaddr \<lparr>a32_uaddr = 0\<rparr> + 4 \<le> length (replicate 4 (0 :: u8))" by simp
  from atomic_u32_store_range [OF this, of "2 ^ 64 + 5"] show ?thesis by simp
qed

text \<open>
  Compare-and-swap on 64 bits is exact modulo \<open>2^64\<close>: it succeeds if and only if the cell
  holds the expected value, then the cell holds the new one, and otherwise nothing changes.
\<close>

theorem atomic_u64_cas_exact:
  assumes "a64_uaddr self + 8 \<le> length mem"
  shows "fst (AtomicU64_cas self e d mem) = (AtomicU64_load self mem = e mod 2 ^ 64) \<and>
    AtomicU64_load self (snd (AtomicU64_cas self e d mem)) =
      (if AtomicU64_load self mem = e mod 2 ^ 64 then d mod 2 ^ 64 else AtomicU64_load self mem) \<and>
    length (snd (AtomicU64_cas self e d mem)) = length mem"
proof -
  have "(u64_at mem (a64_uaddr self) = arg_k e) = (uint (u64_at mem (a64_uaddr self)) = e mod 2 ^ 64)"
    using arg_k_mod [of e] by (metis word_uint_eq_iff)
  then show ?thesis using assms
    by (simp add: AtomicU64_cas_def AtomicU64_load_def buf_simps arg_k_mod)
qed

theorem atomic_u64_cas_exact_witness:
  "fst (AtomicU64_cas \<lparr>a64_uaddr = 0\<rparr> 0 9 (replicate 8 0)) =
     (AtomicU64_load \<lparr>a64_uaddr = 0\<rparr> (replicate 8 0) = 0 mod 2 ^ 64)"
proof -
  have "a64_uaddr \<lparr>a64_uaddr = 0\<rparr> + 8 \<le> length (replicate 8 (0 :: u8))" by simp
  from atomic_u64_cas_exact [OF this, of 0 9] show ?thesis by simp
qed

text \<open>
  Rounding to cache lines gives the least multiple of the line size, when that is positive, that
  is not smaller than the argument.
\<close>

theorem align_to_cacheline_least:
  assumes "cache_line_size environ = Inr line" and "0 < line"
  shows "\<exists>r. align_to_cacheline_size environ sz = Inr r \<and> line dvd r \<and> sz \<le> r \<and> r < sz + line \<and>
    (\<forall>m. line dvd m \<and> sz \<le> m \<longrightarrow> r \<le> m)"
  using round_up_dvd [of line sz] round_up_ge [OF assms(2), of sz] round_up_less [OF assms(2), of sz]
    round_up_least [OF assms(2), of _ sz] assms
  by (auto simp: align_to_cacheline_size_def round_up_def)

theorem align_to_cacheline_least_witness:
  "\<exists>r. align_to_cacheline_size None 65 = Inr r \<and> 64 dvd r \<and> 65 \<le> r"
  using align_to_cacheline_least [of None 64 65] by (auto simp: cache_line_size_def)

end
