(* ===== verification/Lifetime.thy ===== *)
theory Lifetime
  imports Mutex_Calls Transition
begin

text \<open>
  How long the memory behind a primitive exists: the reference counts and the buffer protocol that
  the constructors and destructors of \<open>_primitives.c\<close> use, the \<open>memoryview\<close> and
  \<open>mmap\<close> objects of \<open>GuardedSharedMemory\<close>, and its \<open>detach\<close>.

  A constructor takes the address of the buffer, keeps a reference to the buffer object
  (\<open>owner\<close>) and gives the buffer back at once; so the reference keeps the object alive but does
  not keep it from being released. All views of one mapping share one managed buffer: the mapping
  is exported as long as one of them is not released.
\<close>

section \<open>Python objects\<close>

record mview =
  mv_off :: nat
  mv_len :: nat
  mv_released :: bool
  mv_exports :: nat     \<comment> \<open>buffers handed out by \<open>PyObject_GetBuffer\<close>\<close>
  mv_refs :: nat        \<comment> \<open>the reference count\<close>

record pmem =
  pm_bytes :: bytes
  pm_base :: nat        \<comment> \<open>the address of the mapping\<close>
  pm_mapped :: bool
  pm_held :: bool       \<comment> \<open>the handle refers to the \<open>mmap\<close> object\<close>
  pm_views :: "nat \<rightharpoonup> mview"
  pm_next :: nat        \<comment> \<open>the identity of the next view\<close>

definition exported :: "pmem \<Rightarrow> bool" where
  \<comment> \<open>some view is not released\<close>
  "exported pm \<longleftrightarrow>
     list_ex (\<lambda>v. case pm_views pm v of None \<Rightarrow> False | Some mv \<Rightarrow> \<not> mv_released mv) [0..<pm_next pm]"

definition settle :: "pmem \<Rightarrow> pmem" where
  \<comment> \<open>an \<open>mmap\<close> object that nobody refers to is deallocated, which unmaps the memory\<close>
  "settle pm = (if \<not> pm_held pm \<and> \<not> exported pm then pm\<lparr>pm_mapped := False\<rparr> else pm)"

definition put_view :: "nat \<Rightarrow> mview \<Rightarrow> pmem \<Rightarrow> pmem" where
  "put_view v mv pm = pm\<lparr>pm_views := (pm_views pm)(v \<mapsto> mv)\<rparr>"

definition new_view :: "nat \<Rightarrow> nat \<Rightarrow> pmem \<Rightarrow> nat \<times> pmem" where
  "new_view off len pm =
     (pm_next pm,
      (put_view (pm_next pm) \<lparr>mv_off = off, mv_len = len, mv_released = False, mv_exports = 0, mv_refs = 1\<rparr> pm)
        \<lparr>pm_next := Suc (pm_next pm)\<rparr>)"

definition py_incref :: "nat \<Rightarrow> pmem \<Rightarrow> pmem" where
  "py_incref v pm =
     (case pm_views pm v of None \<Rightarrow> pm | Some mv \<Rightarrow> put_view v (mv\<lparr>mv_refs := Suc (mv_refs mv)\<rparr>) pm)"

definition py_decref :: "nat \<Rightarrow> pmem \<Rightarrow> pmem" where
  "py_decref v pm =
     (case pm_views pm v of
        None \<Rightarrow> pm
      | Some mv \<Rightarrow>
          (if mv_refs mv \<le> 1 then settle (pm\<lparr>pm_views := (pm_views pm)(v := None)\<rparr>)
           else put_view v (mv\<lparr>mv_refs := mv_refs mv - 1\<rparr>) pm))"

definition view_slice :: "nat \<Rightarrow> nat \<Rightarrow> nat \<Rightarrow> pmem \<Rightarrow> nat res \<times> pmem" where
  \<comment> \<open>\<open>view[a:b]\<close>; also the view that a \<open>ctypes\<close> structure makes in \<open>from_buffer\<close>\<close>
  "view_slice v a b pm =
     (case pm_views pm v of
        None \<Rightarrow> (Inl ValueError, pm)
      | Some mv \<Rightarrow>
          (if mv_released mv then (Inl ValueError, pm)
           else (case new_view (mv_off mv + min a (mv_len mv)) (min b (mv_len mv) - min a (mv_len mv)) pm of
                   (w, pm') \<Rightarrow> (Inr w, pm'))))"

definition PyObject_get_buffer :: "nat \<Rightarrow> pmem \<Rightarrow> (nat \<times> nat) res \<times> pmem" where
  \<comment> \<open>\<open>PyObject_GetBuffer\<close>: offset and length; the buffer refers to the view\<close>
  "PyObject_get_buffer v pm =
     (case pm_views pm v of
        None \<Rightarrow> (Inl ValueError, pm)
      | Some mv \<Rightarrow>
          (if mv_released mv then (Inl ValueError, pm)
           else (Inr (mv_off mv, mv_len mv),
                 py_incref v (put_view v (mv\<lparr>mv_exports := Suc (mv_exports mv)\<rparr>) pm))))"

definition PyBuffer_release :: "nat \<Rightarrow> pmem \<Rightarrow> pmem" where
  \<comment> \<open>\<open>PyBuffer_Release\<close>\<close>
  "PyBuffer_release v pm =
     (case pm_views pm v of
        None \<Rightarrow> pm
      | Some mv \<Rightarrow> py_decref v (put_view v (mv\<lparr>mv_exports := mv_exports mv - 1\<rparr>) pm))"

definition view_release :: "nat \<Rightarrow> pmem \<Rightarrow> unit res \<times> pmem" where
  \<comment> \<open>\<open>memoryview.release()\<close>\<close>
  "view_release v pm =
     (case pm_views pm v of
        None \<Rightarrow> (Inr (), pm)
      | Some mv \<Rightarrow>
          (if mv_released mv then (Inr (), pm)
           else if 0 < mv_exports mv then (Inl BufferError, pm)
           else (Inr (), settle (put_view v (mv\<lparr>mv_released := True\<rparr>) pm))))"

definition mmap_close :: "pmem \<Rightarrow> unit res \<times> pmem" where
  "mmap_close pm = (if exported pm then (Inl BufferError, pm) else (Inr (), pm\<lparr>pm_mapped := False\<rparr>))"

section \<open>The primitives\<close>

datatype prim_kind = KFutexWord | KAtomicU32 | KAtomicU64 | KMutex | KSemaphore

fun prim_size :: "prim_kind \<Rightarrow> nat" where
  "prim_size KFutexWord = 4"
| "prim_size KAtomicU32 = 4"
| "prim_size KAtomicU64 = 8"
| "prim_size KMutex = MUTEX64_SIZE"
| "prim_size KSemaphore = 64"

fun prim_align :: "prim_kind \<Rightarrow> nat" where
  "prim_align KAtomicU64 = 8"
| "prim_align k = 4"

record prim =
  pr_kind :: prim_kind
  pr_off :: nat        \<comment> \<open>the stored address, relative to the mapping\<close>
  pr_owner :: nat      \<comment> \<open>the view that was passed\<close>

definition prim_init :: "prim_kind \<Rightarrow> nat \<Rightarrow> pmem \<Rightarrow> prim res \<times> pmem" where
  \<comment> \<open>what the five constructors do with the buffer; a semaphore whose initial count is refused
    is initialised and then deallocated\<close>
  "prim_init k v pm =
     (case PyObject_get_buffer v pm of
        (Inl e, pm1) \<Rightarrow> (Inl e, pm1)
      | (Inr (off, len), pm1) \<Rightarrow>
          (if len < prim_size k \<or> (pm_base pm1 + off) mod prim_align k \<noteq> 0
           then (Inl ValueError, PyBuffer_release v pm1)
           else (Inr \<lparr>pr_kind = k, pr_off = off, pr_owner = v\<rparr>, PyBuffer_release v (py_incref v pm1))))"

definition prim_dealloc :: "prim \<Rightarrow> pmem \<Rightarrow> pmem" where
  "prim_dealloc p pm = py_decref (pr_owner p) pm"

definition prim_call :: "(nat \<Rightarrow> bytes \<Rightarrow> 'r \<times> bytes) \<Rightarrow> prim \<Rightarrow> pmem \<Rightarrow> ('r \<times> pmem) option" where
  \<comment> \<open>run a method on the memory at the stored address; \<open>None\<close>: the access faults\<close>
  "prim_call f p pm =
     (if pm_mapped pm then (case f (pr_off p) (pm_bytes pm) of (r, b) \<Rightarrow> Some (r, pm\<lparr>pm_bytes := b\<rparr>))
      else None)"

section \<open>A process with one handle\<close>

record life =
  lf_mem :: pmem
  lf_buf :: "nat option"      \<comment> \<open>\<open>_buf\<close> of the handle\<close>
  lf_held :: "nat list"       \<comment> \<open>views that variables and \<open>ctypes\<close> structures refer to\<close>
  lf_pins :: "nat list"       \<comment> \<open>views whose buffer somebody else holds (a \<open>numpy\<close> array)\<close>
  lf_prims :: "prim list"

definition map_segment :: "nat \<Rightarrow> bytes \<Rightarrow> life" where
  \<comment> \<open>\<open>mm = mmap(...)\<close>, \<open>_buf = memoryview(mm)\<close>\<close>
  "map_segment base b =
     \<lparr>lf_mem = \<lparr>pm_bytes = b, pm_base = base, pm_mapped = True, pm_held = True,
        pm_views = [0 \<mapsto> \<lparr>mv_off = 0, mv_len = length b, mv_released = False, mv_exports = 0, mv_refs = 1\<rparr>],
        pm_next = 1\<rparr>,
      lf_buf = Some 0, lf_held = [], lf_pins = [], lf_prims = []\<rparr>"

definition drop_mmap :: "pmem \<Rightarrow> pmem" where
  \<comment> \<open>close the \<open>mmap\<close>, whatever exception that raises, and drop the reference\<close>
  "drop_mmap pm = (if pm_held pm then settle ((snd (mmap_close pm))\<lparr>pm_held := False\<rparr>) else pm)"

definition detach_views :: "life \<Rightarrow> unit res \<times> life" where
  \<comment> \<open>\<open>detach\<close>: only \<open>AttributeError\<close> of \<open>release()\<close> is caught\<close>
  "detach_views s =
     (case lf_buf s of
        None \<Rightarrow> (Inr (), s\<lparr>lf_mem := drop_mmap (lf_mem s)\<rparr>)
      | Some v \<Rightarrow>
          (case view_release v (lf_mem s) of
             (Inl e, pm) \<Rightarrow> (Inl e, s\<lparr>lf_mem := pm\<rparr>)
           | (Inr u, pm) \<Rightarrow> (Inr (), s\<lparr>lf_buf := None, lf_mem := drop_mmap (py_decref v pm)\<rparr>)))"

datatype life_event =
    LSlice nat nat       \<comment> \<open>keep \<open>_buf[a:b]\<close>\<close>
  | LDrop nat            \<comment> \<open>drop a kept view\<close>
  | LPin nat
  | LUnpin nat
  | LInit prim_kind nat  \<comment> \<open>construct a primitive on a view\<close>
  | LDealloc nat         \<comment> \<open>the last reference to a primitive is dropped\<close>
  | LDetach

definition refers :: "life \<Rightarrow> nat \<Rightarrow> bool" where
  \<comment> \<open>the program can name the view\<close>
  "refers s v \<longleftrightarrow> lf_buf s = Some v \<or> v \<in> set (lf_held s)"

fun life_exec :: "life_event \<Rightarrow> life \<Rightarrow> life option" where
  "life_exec (LSlice a b) s =
     (case lf_buf s of
        None \<Rightarrow> None
      | Some v \<Rightarrow>
          (case view_slice v a b (lf_mem s) of
             (Inl e, pm) \<Rightarrow> Some (s\<lparr>lf_mem := pm\<rparr>)
           | (Inr w, pm) \<Rightarrow> Some (s\<lparr>lf_mem := pm, lf_held := w # lf_held s\<rparr>)))"
| "life_exec (LDrop v) s =
     (if v \<in> set (lf_held s)
      then Some (s\<lparr>lf_mem := py_decref v (lf_mem s), lf_held := remove1 v (lf_held s)\<rparr>) else None)"
| "life_exec (LPin v) s =
     (if refers s v then
        (case PyObject_get_buffer v (lf_mem s) of
           (Inl e, pm) \<Rightarrow> Some (s\<lparr>lf_mem := pm\<rparr>)
         | (Inr r, pm) \<Rightarrow> Some (s\<lparr>lf_mem := pm, lf_pins := v # lf_pins s\<rparr>))
      else None)"
| "life_exec (LUnpin v) s =
     (if v \<in> set (lf_pins s)
      then Some (s\<lparr>lf_mem := PyBuffer_release v (lf_mem s), lf_pins := remove1 v (lf_pins s)\<rparr>) else None)"
| "life_exec (LInit k v) s =
     (if refers s v then
        (case prim_init k v (lf_mem s) of
           (Inl e, pm) \<Rightarrow> Some (s\<lparr>lf_mem := pm\<rparr>)
         | (Inr p, pm) \<Rightarrow> Some (s\<lparr>lf_mem := pm, lf_prims := lf_prims s @ [p]\<rparr>))
      else None)"
| "life_exec (LDealloc i) s =
     (if i < length (lf_prims s)
      then Some (s\<lparr>lf_mem := prim_dealloc (lf_prims s ! i) (lf_mem s),
                   lf_prims := take i (lf_prims s) @ drop (Suc i) (lf_prims s)\<rparr>)
      else None)"
| "life_exec LDetach s = Some (snd (detach_views s))"

fun life_run :: "life_event list \<Rightarrow> life \<Rightarrow> life option" where
  "life_run [] s = Some s"
| "life_run (e # es) s = Option.bind (life_exec e s) (life_run es)"

inductive life_step :: "life \<Rightarrow> life \<Rightarrow> bool" where
  life_stepI: "life_exec e s = Some s' \<Longrightarrow> life_step s s'"

inductive_cases life_stepE: "life_step s s'"

definition life_init :: "life \<Rightarrow> bool" where
  "life_init s \<longleftrightarrow> (\<exists>base b. s = map_segment base b)"

text \<open>What the constructors of the named objects and of the history buffer do with the segment.\<close>

definition named_client :: "prim_kind \<Rightarrow> life_event list" where
  "named_client k = [LInit k 0]"

definition history_client :: "life_event list" where
  \<comment> \<open>the header structure, then the mutex on a slice that nothing else refers to\<close>
  "history_client = [LSlice 0 128, LSlice 64 128, LInit KMutex 2, LDrop 2]"

end
