(* ===== verification/Lifetime_Safety.thy ===== *)
theory Lifetime_Safety
  imports Lifetime
begin

text \<open>
  The accounting behind the primitives: reference counts are exact, memory that a primitive can
  reach is mapped unless the primitive was built on the view that \<open>detach\<close> releases, and nothing
  stays mapped once everything is dropped. And the consequence for the named objects, which are built on
  exactly that view.
\<close>

section \<open>Counting references\<close>

text \<open>
  \<open>mem_ok H D R X pm\<close>: the views have the reference counts \<open>R\<close> and the export counts
  \<open>X\<close>, only the first view can be released (when \<open>D\<close>), and the memory is mapped as long as
  the handle holds the \<open>mmap\<close> (when \<open>H\<close>) or a view is not released.
\<close>

definition mview_ok :: "bool \<Rightarrow> (nat \<Rightarrow> nat) \<Rightarrow> (nat \<Rightarrow> nat) \<Rightarrow> nat \<Rightarrow> nat \<Rightarrow> mview \<Rightarrow> bool" where
  "mview_ok D R X n v mv \<longleftrightarrow> mv_refs mv = R v \<and> 0 < R v \<and> mv_exports mv = X v \<and>
     (mv_released mv \<longleftrightarrow> D \<and> v = 0) \<and> (mv_released mv \<longrightarrow> X v = 0) \<and> mv_off mv + mv_len mv \<le> n"

definition views_ok :: "bool \<Rightarrow> (nat \<Rightarrow> nat) \<Rightarrow> (nat \<Rightarrow> nat) \<Rightarrow> pmem \<Rightarrow> bool" where
  "views_ok D R X pm \<longleftrightarrow>
     (\<forall>v mv. pm_views pm v = Some mv \<longrightarrow> mview_ok D R X (length (pm_bytes pm)) v mv) \<and>
     (\<forall>v. pm_views pm v = None \<longrightarrow> R v = 0) \<and>
     (\<forall>v \<ge> pm_next pm. pm_views pm v = None) \<and> 0 < pm_next pm"

definition mem_ok :: "bool \<Rightarrow> bool \<Rightarrow> (nat \<Rightarrow> nat) \<Rightarrow> (nat \<Rightarrow> nat) \<Rightarrow> pmem \<Rightarrow> bool" where
  "mem_ok H D R X pm \<longleftrightarrow> views_ok D R X pm \<and> pm_held pm = H \<and> (pm_mapped pm \<longleftrightarrow> H \<or> exported pm)"

lemma views_okI:
  assumes "\<And>v mv. pm_views pm v = Some mv \<Longrightarrow> mview_ok D R X (length (pm_bytes pm)) v mv"
    and "\<And>v. pm_views pm v = None \<Longrightarrow> R v = 0" and "\<And>v. pm_next pm \<le> v \<Longrightarrow> pm_views pm v = None"
    and "0 < pm_next pm"
  shows "views_ok D R X pm"
  using assms by (simp add: views_ok_def)

lemma mem_okD:
  assumes "mem_ok H D R X pm"
  shows "views_ok D R X pm" "pm_held pm = H" "pm_mapped pm \<longleftrightarrow> H \<or> exported pm" "0 < pm_next pm"
    "\<And>v mv. pm_views pm v = Some mv \<Longrightarrow> mview_ok D R X (length (pm_bytes pm)) v mv"
    "\<And>v. pm_views pm v = None \<Longrightarrow> R v = 0" "\<forall>v \<ge> pm_next pm. pm_views pm v = None"
  using assms by (simp_all add: mem_ok_def views_ok_def)

lemma mview_ok_cong:
  assumes "mview_ok D R X n v mv" and "R' v = R v" and "X' v = X v"
  shows "mview_ok D R' X' n v mv"
  using assms by (auto simp: mview_ok_def)

lemma exported_iff:
  assumes "\<forall>v \<ge> pm_next pm. pm_views pm v = None"
  shows "exported pm \<longleftrightarrow> (\<exists>v mv. pm_views pm v = Some mv \<and> \<not> mv_released mv)"
proof -
  have "v < pm_next pm" if "pm_views pm v = Some mv" for v mv
    using assms that by (metis leI option.distinct(1))
  then show ?thesis by (auto simp: exported_def list_ex_iff split: option.splits) force
qed

lemma view_alive: "mem_ok H D R X pm \<Longrightarrow> 0 < R v \<Longrightarrow>
    \<exists>mv. pm_views pm v = Some mv \<and> mview_ok D R X (length (pm_bytes pm)) v mv"
  by (cases "pm_views pm v") (auto simp: mem_ok_def views_ok_def)

lemma unmapped_simps [simp]:
  "exported (pm\<lparr>pm_mapped := m\<rparr>) = exported pm" "views_ok D R X (pm\<lparr>pm_mapped := m\<rparr>) = views_ok D R X pm"
  "exported (pm\<lparr>pm_held := m\<rparr>) = exported pm" "views_ok D R X (pm\<lparr>pm_held := m\<rparr>) = views_ok D R X pm"
  by (simp_all add: exported_def views_ok_def)

lemma settle_ok:
  assumes "views_ok D R X pm" and "pm_held pm \<or> exported pm \<longrightarrow> pm_mapped pm"
  shows "mem_ok (pm_held pm) D R X (settle pm)"
  using assms by (auto simp: mem_ok_def settle_def)

lemma put_view_ok:
  assumes "mem_ok H D R X pm" and "pm_views pm v = Some mv" and "mv_released mv' = mv_released mv"
    and "mview_ok D R' X' (length (pm_bytes pm)) v mv'" and "\<forall>u. u \<noteq> v \<longrightarrow> R' u = R u \<and> X' u = X u"
  shows "mem_ok H D R' X' (put_view v mv' pm)"
proof -
  let ?p = "put_view v mv' pm"
  have n: "\<forall>u \<ge> pm_next pm. pm_views pm u = None" using assms(1) by (simp add: mem_ok_def views_ok_def)
  have v: "v < pm_next pm" using n assms(2) by (metis leI option.distinct(1))
  have n': "\<forall>u \<ge> pm_next ?p. pm_views ?p u = None" using n v by (auto simp: put_view_def)
  have "exported pm" if "exported ?p"
    using that assms(2,3) unfolding exported_iff [OF n] exported_iff [OF n']
    by (auto simp: put_view_def split: if_splits)
  moreover have "exported ?p" if "exported pm"
  proof -
    from that obtain u mu where u: "pm_views pm u = Some mu" "\<not> mv_released mu"
      unfolding exported_iff [OF n] by blast
    then have "pm_views ?p u = Some (if u = v then mv' else mu)" "\<not> mv_released (if u = v then mv' else mu)"
      using assms(2,3) by (auto simp: put_view_def)
    then show ?thesis unfolding exported_iff [OF n'] by blast
  qed
  ultimately have e: "exported ?p \<longleftrightarrow> exported pm" by blast
  have "views_ok D R' X' ?p"
  proof (rule views_okI)
    fix u mu assume "pm_views ?p u = Some mu"
    then show "mview_ok D R' X' (length (pm_bytes ?p)) u mu"
      using assms(4,5) mem_okD(5) [OF assms(1), of u mu] mview_ok_cong [of D R X _ u mu R' X']
      by (auto simp: put_view_def split: if_splits)
  next
    fix u assume "pm_views ?p u = None"
    then show "R' u = 0" using assms(5) mem_okD(6) [OF assms(1), of u] by (auto simp: put_view_def split: if_splits)
  qed (use n' mem_okD(4) [OF assms(1)] in \<open>auto simp: put_view_def\<close>)
  then show ?thesis using e mem_okD(2,3) [OF assms(1)] by (simp add: mem_ok_def) (simp add: put_view_def)
qed

lemma incref_ok:
  assumes "mem_ok H D R X pm" and "0 < R v"
  shows "mem_ok H D (R(v := Suc (R v))) X (py_incref v pm)"
proof -
  from view_alive [OF assms] obtain mv where
    mv: "pm_views pm v = Some mv" "mview_ok D R X (length (pm_bytes pm)) v mv" by blast
  then show ?thesis unfolding py_incref_def mv(1) option.case
    by (intro put_view_ok [OF assms(1) mv(1)]) (auto simp: mview_ok_def)
qed

lemma decref_ok:
  assumes "mem_ok H D R X pm" and "0 < R v"
  shows "mem_ok H D (R(v := R v - 1)) X (py_decref v pm)"
proof -
  from view_alive [OF assms] obtain mv where
    mv: "pm_views pm v = Some mv" "mview_ok D R X (length (pm_bytes pm)) v mv" by blast
  show ?thesis
  proof (cases "mv_refs mv \<le> 1")
    case True
    let ?p = "pm\<lparr>pm_views := (pm_views pm)(v := None)\<rparr>"
    have n: "\<forall>u \<ge> pm_next pm. pm_views pm u = None" using assms(1) by (simp add: mem_ok_def views_ok_def)
    then have n': "\<forall>u \<ge> pm_next ?p. pm_views ?p u = None" by simp
    have e: "exported ?p \<Longrightarrow> exported pm"
      unfolding exported_iff [OF n] exported_iff [OF n'] by (auto split: if_splits)
    have "views_ok D (R(v := R v - 1)) X ?p"
    proof (rule views_okI)
      fix u mu assume "pm_views ?p u = Some mu"
      then show "mview_ok D (R(v := R v - 1)) X (length (pm_bytes ?p)) u mu"
        using mem_okD(5) [OF assms(1), of u mu] by (auto simp: mview_ok_def split: if_splits)
    next
      fix u assume "pm_views ?p u = None"
      then show "(R(v := R v - 1)) u = 0"
        using mem_okD(6) [OF assms(1), of u] mv(2) True by (auto simp: mview_ok_def split: if_splits)
    qed (use n' mem_okD(4) [OF assms(1)] in auto)
    from settle_ok [OF this] e assms(1) mv(1) True show ?thesis
      by (auto simp: py_decref_def mem_ok_def)
  next
    case False
    with mv show ?thesis unfolding py_decref_def
      by (simp, intro put_view_ok [OF assms(1) mv(1)]) (auto simp: mview_ok_def)
  qed
qed

lemma PyObject_get_buffer_ok:
  assumes "mem_ok H D R X pm" and "0 < R v"
  shows "(case PyObject_get_buffer v pm of
      (Inl e, pm') \<Rightarrow> e = ValueError \<and> pm' = pm \<and> D \<and> v = 0
    | (Inr (off, len), pm') \<Rightarrow> mem_ok H D (R(v := Suc (R v))) (X(v := Suc (X v))) pm' \<and> \<not> (D \<and> v = 0) \<and>
        off + len \<le> length (pm_bytes pm) \<and> pm_bytes pm' = pm_bytes pm \<and> pm_base pm' = pm_base pm)"
proof -
  from view_alive [OF assms] obtain mv where
    mv: "pm_views pm v = Some mv" "mview_ok D R X (length (pm_bytes pm)) v mv" by blast
  have "mem_ok H D R (X(v := Suc (X v))) (put_view v (mv\<lparr>mv_exports := Suc (mv_exports mv)\<rparr>) pm)"
    if "\<not> mv_released mv"
    using mv(2) that by (intro put_view_ok [OF assms(1) mv(1)]) (auto simp: mview_ok_def)
  from incref_ok [OF this, of v] show ?thesis using mv assms(2)
    by (auto simp: PyObject_get_buffer_def mview_ok_def py_incref_def put_view_def)
qed

lemma PyBuffer_release_ok:
  assumes "mem_ok H D R X pm" and "0 < R v"
  shows "mem_ok H D (R(v := R v - 1)) (X(v := X v - 1)) (PyBuffer_release v pm)"
proof -
  from view_alive [OF assms] obtain mv where
    mv: "pm_views pm v = Some mv" "mview_ok D R X (length (pm_bytes pm)) v mv" by blast
  have "mem_ok H D R (X(v := X v - 1)) (put_view v (mv\<lparr>mv_exports := mv_exports mv - 1\<rparr>) pm)"
    using mv(2) by (intro put_view_ok [OF assms(1) mv(1)]) (auto simp: mview_ok_def)
  from decref_ok [OF this assms(2)] show ?thesis by (simp add: PyBuffer_release_def mv(1))
qed

lemma slice_ok:
  assumes "mem_ok H D R X pm" and "0 < R v" and "\<not> (D \<and> v = 0)" and "X (pm_next pm) = 0"
  shows "\<exists>pm'. view_slice v a b pm = (Inr (pm_next pm), pm') \<and> pm_views pm (pm_next pm) = None \<and>
    mem_ok H D (R(pm_next pm := 1)) X pm' \<and> pm_bytes pm' = pm_bytes pm \<and> 0 < pm_next pm"
proof -
  from view_alive [OF assms(1,2)] obtain mv where
    mv: "pm_views pm v = Some mv" "mview_ok D R X (length (pm_bytes pm)) v mv" by blast
  let ?off = "mv_off mv + min a (mv_len mv)" and ?len = "min b (mv_len mv) - min a (mv_len mv)"
  obtain pm' where pm': "new_view ?off ?len pm = (pm_next pm, pm')" by (simp add: new_view_def)
  have n: "\<forall>u \<ge> pm_next pm. pm_views pm u = None" and n0: "0 < pm_next pm"
    using assms(1) by (auto simp: mem_ok_def views_ok_def)
  have n': "\<forall>u \<ge> pm_next pm'. pm_views pm' u = None" using pm' n by (auto simp: new_view_def put_view_def)
  have "exported pm'" unfolding exported_iff [OF n'] using pm' by (auto simp: new_view_def put_view_def)
  moreover have "exported pm" unfolding exported_iff [OF n] using mv assms(3) by (auto simp: mview_ok_def)
  moreover have "views_ok D (R(pm_next pm := 1)) X pm'"
  proof (rule views_okI)
    fix u mu assume "pm_views pm' u = Some mu"
    then show "mview_ok D (R(pm_next pm := 1)) X (length (pm_bytes pm')) u mu"
      using mem_okD(5) [OF assms(1), of u mu] mv(2) assms(4) n0 pm'
      by (auto simp: mview_ok_def new_view_def put_view_def split: if_splits)
  next
    fix u assume "pm_views pm' u = None"
    then show "(R(pm_next pm := 1)) u = 0"
      using mem_okD(6) [OF assms(1), of u] pm' by (auto simp: new_view_def put_view_def split: if_splits)
  qed (use n' pm' in \<open>auto simp: new_view_def put_view_def\<close>)
  ultimately have "mem_ok H D (R(pm_next pm := 1)) X pm'"
    using mem_okD(2,3) [OF assms(1)] pm' by (auto simp: mem_ok_def new_view_def put_view_def)
  then show ?thesis using mv assms(3) n n0 pm'
    by (auto simp: view_slice_def mview_ok_def new_view_def put_view_def)
qed

lemma settle_simps [simp]:
  "pm_bytes (settle pm) = pm_bytes pm" "pm_base (settle pm) = pm_base pm" "pm_held (settle pm) = pm_held pm"
  by (simp_all add: settle_def)

lemma py_count_bytes [simp]:
  "pm_bytes (py_incref v pm) = pm_bytes pm" "pm_bytes (py_decref v pm) = pm_bytes pm"
  "pm_bytes (PyBuffer_release v pm) = pm_bytes pm" "pm_bytes (drop_mmap pm) = pm_bytes pm"
  "pm_bytes (snd (view_release v pm)) = pm_bytes pm"
  by (simp_all add: py_incref_def py_decref_def PyBuffer_release_def put_view_def drop_mmap_def mmap_close_def
      view_release_def split: option.split)

lemma prim_init_ok:
  assumes "mem_ok H D R X pm" and "0 < R v"
  shows "(case prim_init k v pm of
      (Inl e, pm') \<Rightarrow> mem_ok H D R X pm' \<and> pm_bytes pm' = pm_bytes pm
    | (Inr p, pm') \<Rightarrow> mem_ok H D (R(v := Suc (R v))) X pm' \<and> pm_bytes pm' = pm_bytes pm \<and>
        pr_owner p = v \<and> pr_kind p = k \<and> pr_off p + prim_size k \<le> length (pm_bytes pm))"
proof (cases "PyObject_get_buffer v pm")
  case (Pair r pm1)
  note g = PyObject_get_buffer_ok [OF assms, unfolded Pair]
  show ?thesis
  proof (cases r)
    case (Inl e)
    then show ?thesis using Pair g assms(1) by (simp add: prim_init_def)
  next
    case (Inr ol)
    obtain off len where ol: "ol = (off, len)" by (cases ol)
    have g: "mem_ok H D (R(v := Suc (R v))) (X(v := Suc (X v))) pm1" "off + len \<le> length (pm_bytes pm)"
      "pm_bytes pm1 = pm_bytes pm" using g Inr ol by simp_all
    have "mem_ok H D R X (PyBuffer_release v pm1)"
      using PyBuffer_release_ok [OF g(1), of v] by simp
    moreover have "mem_ok H D (R(v := Suc (R v))) X (PyBuffer_release v (py_incref v pm1))"
      using PyBuffer_release_ok [OF incref_ok [OF g(1), of v], of v] by simp
    ultimately show ?thesis using Pair Inr ol g(2,3) by (simp add: prim_init_def)
  qed
qed

lemma view_release_ok:
  assumes "mem_ok True False R X pm" and "0 < R 0"
  shows "(case view_release 0 pm of
      (Inl e, pm') \<Rightarrow> e = BufferError \<and> pm' = pm \<and> 0 < X 0
    | (Inr u, pm') \<Rightarrow> mem_ok True True R X pm' \<and> X 0 = 0)"
proof -
  from view_alive [OF assms] obtain mv where
    mv: "pm_views pm 0 = Some mv" "mview_ok False R X (length (pm_bytes pm)) 0 mv" by blast
  let ?p = "put_view 0 (mv\<lparr>mv_released := True\<rparr>) pm"
  have "mem_ok True True R X (settle ?p)" if "X 0 = 0"
  proof -
    have "views_ok True R X ?p"
    proof (rule views_okI)
      fix u mu assume "pm_views ?p u = Some mu"
      then show "mview_ok True R X (length (pm_bytes ?p)) u mu"
        using mem_okD(5) [OF assms(1), of u mu] mv(2) that by (auto simp: mview_ok_def put_view_def split: if_splits)
    next
      fix u assume "pm_views ?p u = None"
      then show "R u = 0" using mem_okD(6) [OF assms(1), of u] by (auto simp: put_view_def split: if_splits)
    qed (use mem_okD(4,7) [OF assms(1)] in \<open>auto simp: put_view_def\<close>)
    from settle_ok [OF this] show ?thesis using mem_okD(2,3) [OF assms(1)] by (simp add: put_view_def)
  qed
  then show ?thesis using mv by (auto simp: view_release_def mview_ok_def)
qed

lemma drop_mmap_ok:
  assumes "mem_ok True D R X pm"
  shows "mem_ok False D R X (drop_mmap pm)"
  using assms by (auto simp: drop_mmap_def mmap_close_def settle_def mem_ok_def)

section \<open>The invariant of the process\<close>

definition refs_to :: "life \<Rightarrow> nat \<Rightarrow> nat" where
  \<comment> \<open>the references to a view: of the handle, of variables, of held buffers, of primitives\<close>
  "refs_to s v = (if lf_buf s = Some v then 1 else 0) + count_list (lf_held s) v + count_list (lf_pins s) v +
     count_list (map pr_owner (lf_prims s)) v"

definition life_inv :: "life \<Rightarrow> bool" where
  "life_inv s \<longleftrightarrow> mem_ok (lf_buf s \<noteq> None) (lf_buf s = None) (refs_to s) (count_list (lf_pins s)) (lf_mem s) \<and>
     (lf_buf s = None \<or> lf_buf s = Some 0) \<and>
     (\<forall>p \<in> set (lf_prims s). pr_off p + prim_size (pr_kind p) \<le> length (pm_bytes (lf_mem s)))"

lemma count_list_remove1: "count_list (remove1 x xs) = (count_list xs)(x := count_list xs x - 1)"
  by (induction xs) (auto simp: fun_eq_iff)

lemma count_list_Cons: "count_list (x # xs) = (count_list xs)(x := Suc (count_list xs x))"
  by (simp add: fun_eq_iff)

lemma count_list_pos: "x \<in> set xs \<Longrightarrow> 0 < count_list xs x"
  by (induction xs) auto

lemma count_list_delete:
  assumes "i < length xs"
  shows "count_list (map f (take i xs @ drop (Suc i) xs)) =
    (count_list (map f xs))(f (xs ! i) := count_list (map f xs) (f (xs ! i)) - 1)"
proof -
  have "map f xs = map f (take i xs) @ f (xs ! i) # map f (drop (Suc i) xs)"
    using id_take_nth_drop [OF assms] by (metis list.simps(9) map_append)
  then show ?thesis by (auto simp: fun_eq_iff count_list_append)
qed

lemma refs_to_pos:
  "lf_buf s = Some v \<Longrightarrow> 0 < refs_to s v" "v \<in> set (lf_held s) \<Longrightarrow> 0 < refs_to s v"
  "v \<in> set (lf_pins s) \<Longrightarrow> 0 < refs_to s v" "p \<in> set (lf_prims s) \<Longrightarrow> 0 < refs_to s (pr_owner p)"
  by (auto simp: refs_to_def count_list_pos)

lemma refs_to_simps:
  "refs_to (s\<lparr>lf_mem := pm\<rparr>) = refs_to s"
  "refs_to (s\<lparr>lf_mem := pm, lf_held := w # lf_held s\<rparr>) = (refs_to s)(w := Suc (refs_to s w))"
  "refs_to (s\<lparr>lf_mem := pm, lf_pins := w # lf_pins s\<rparr>) = (refs_to s)(w := Suc (refs_to s w))"
  "refs_to (s\<lparr>lf_mem := pm, lf_prims := lf_prims s @ [p]\<rparr>) = (refs_to s)(pr_owner p := Suc (refs_to s (pr_owner p)))"
  by (auto simp: fun_eq_iff refs_to_def count_list_append)

lemma refs_to_drop:
  "v \<in> set (lf_held s) \<Longrightarrow>
    refs_to (s\<lparr>lf_mem := pm, lf_held := remove1 v (lf_held s)\<rparr>) = (refs_to s)(v := refs_to s v - 1)"
  "v \<in> set (lf_pins s) \<Longrightarrow>
    refs_to (s\<lparr>lf_mem := pm, lf_pins := remove1 v (lf_pins s)\<rparr>) = (refs_to s)(v := refs_to s v - 1)"
  "lf_buf s = Some v \<Longrightarrow> refs_to (s\<lparr>lf_buf := None, lf_mem := pm\<rparr>) = (refs_to s)(v := refs_to s v - 1)"
  "i < length (lf_prims s) \<Longrightarrow>
    refs_to (s\<lparr>lf_mem := pm, lf_prims := take i (lf_prims s) @ drop (Suc i) (lf_prims s)\<rparr>) =
      (refs_to s)(pr_owner (lf_prims s ! i) := refs_to s (pr_owner (lf_prims s ! i)) - 1)"
  using count_list_pos [of v "lf_held s"] count_list_pos [of v "lf_pins s"]
    count_list_pos [of "pr_owner (lf_prims s ! i)" "map pr_owner (lf_prims s)"]
  by (auto simp: fun_eq_iff refs_to_def count_list_remove1 count_list_delete simp del: map_append)

lemma life_mem:
  "life_inv s \<Longrightarrow> mem_ok (lf_buf s \<noteq> None) (lf_buf s = None) (refs_to s) (count_list (lf_pins s)) (lf_mem s)"
  by (simp add: life_inv_def)

lemma refers_pos: "refers s v \<Longrightarrow> 0 < refs_to s v"
  by (auto simp: refers_def refs_to_pos)

lemma slice_inv:
  assumes "life_inv s" and "life_exec (LSlice a b) s = Some s'"
  shows "life_inv s'"
proof -
  obtain v where v: "lf_buf s = Some v" using assms(2) by (cases "lf_buf s") auto
  let ?n = "pm_next (lf_mem s)"
  have n: "refs_to s ?n = 0" using mem_okD(6,7) [OF life_mem [OF assms(1)]] by simp
  then have "count_list (lf_pins s) ?n = 0" by (simp add: refs_to_def)
  from slice_ok [OF life_mem [OF assms(1)] refs_to_pos(1) [OF v] _ this, of a b] v obtain pm where
    pm: "view_slice v a b (lf_mem s) = (Inr ?n, pm)" "pm_bytes pm = pm_bytes (lf_mem s)"
    "mem_ok True False ((refs_to s)(?n := 1)) (count_list (lf_pins s)) pm" by auto
  with assms v n show ?thesis by (auto simp: life_inv_def refs_to_simps)
qed

lemma pin_inv:
  assumes "life_inv s" and "life_exec (LPin v) s = Some s'"
  shows "life_inv s'"
proof -
  have v: "refers s v" using assms(2) by (auto split: if_splits)
  obtain r pm where r: "PyObject_get_buffer v (lf_mem s) = (r, pm)" by fastforce
  note g = PyObject_get_buffer_ok [OF life_mem [OF assms(1)] refers_pos [OF v], unfolded r]
  show ?thesis
  proof (cases r)
    case (Inl e)
    then show ?thesis using assms v r g by simp
  next
    case (Inr ol)
    then have "s' = s\<lparr>lf_mem := pm, lf_pins := v # lf_pins s\<rparr>" using assms(2) v r by simp
    then show ?thesis using assms(1) g Inr
      by (cases ol) (simp add: life_inv_def refs_to_simps count_list_Cons)
  qed
qed

lemma init_inv:
  assumes "life_inv s" and "life_exec (LInit k v) s = Some s'"
  shows "life_inv s'"
proof -
  have v: "refers s v" using assms(2) by (auto split: if_splits)
  from prim_init_ok [OF life_mem [OF assms(1)] refers_pos [OF v], of k] show ?thesis
    using assms v by (auto simp: life_inv_def refs_to_simps split: prod.splits sum.splits)
qed

lemma drop_inv:
  assumes "life_inv s" and "life_exec e s = Some s'" and "e = LDrop v \<or> e = LUnpin v \<or> e = LDealloc i"
  shows "life_inv s'"
  using assms(3)
proof (elim disjE)
  assume e: "e = LDrop v"
  then have v: "v \<in> set (lf_held s)" using assms(2) by (auto split: if_splits)
  from decref_ok [OF life_mem [OF assms(1)] refs_to_pos(2) [OF v]] show ?thesis
    using assms(1,2) e v by (auto simp: life_inv_def refs_to_drop)
next
  assume e: "e = LUnpin v"
  then have v: "v \<in> set (lf_pins s)" using assms(2) by (auto split: if_splits)
  from PyBuffer_release_ok [OF life_mem [OF assms(1)] refs_to_pos(3) [OF v]] show ?thesis
    using assms(1,2) e v by (auto simp: life_inv_def refs_to_drop count_list_remove1)
next
  assume e: "e = LDealloc i"
  then have i: "i < length (lf_prims s)" using assms(2) by (auto split: if_splits)
  from decref_ok [OF life_mem [OF assms(1)] refs_to_pos(4) [OF nth_mem [OF i]]] have
    "mem_ok (lf_buf s \<noteq> None) (lf_buf s = None) (refs_to s') (count_list (lf_pins s')) (lf_mem s')"
    using assms(2) e i by (auto simp: refs_to_drop prim_dealloc_def)
  moreover have "set (lf_prims s') \<subseteq> set (lf_prims s)" "pm_bytes (lf_mem s') = pm_bytes (lf_mem s)"
    "lf_buf s' = lf_buf s"
    using assms(2) e i set_take_subset [of i "lf_prims s"] set_drop_subset [of "Suc i" "lf_prims s"]
    by (auto simp: prim_dealloc_def)
  ultimately show ?thesis using assms(1) by (auto simp: life_inv_def)
qed

lemma detach_inv:
  assumes "life_inv s"
  shows "life_inv (snd (detach_views s))"
proof (cases "lf_buf s")
  case None
  then have "pm_held (lf_mem s) = False" using mem_okD(2) [OF life_mem [OF assms]] by simp
  then show ?thesis using assms None by (simp add: detach_views_def drop_mmap_def)
next
  case (Some v)
  then have v: "v = 0" "lf_buf s = Some 0" using assms by (auto simp: life_inv_def)
  have m: "mem_ok True False (refs_to s) (count_list (lf_pins s)) (lf_mem s)"
    using life_mem [OF assms] v by simp
  obtain r pm where r: "view_release 0 (lf_mem s) = (r, pm)" by fastforce
  have b: "pm_bytes pm = pm_bytes (lf_mem s)" using r py_count_bytes(5) [of 0 "lf_mem s"] by simp
  note rel = view_release_ok [OF m refs_to_pos(1) [OF v(2)], unfolded r]
  show ?thesis
  proof (cases r)
    case (Inl e)
    then have "detach_views s = (Inl e, s)" using r rel v by (simp add: detach_views_def)
    then show ?thesis using assms by simp
  next
    case (Inr u)
    then have "mem_ok True True (refs_to s) (count_list (lf_pins s)) pm" using rel by simp
    from drop_mmap_ok [OF decref_ok [OF this refs_to_pos(1) [OF v(2)]]] show ?thesis
      using assms v Inr r b by (simp add: detach_views_def life_inv_def refs_to_drop)
  qed
qed

lemma life_exec_inv:
  assumes "life_inv s" and "life_exec e s = Some s'"
  shows "life_inv s'"
proof (cases e)
  case LDetach
  with assms detach_inv [OF assms(1)] show ?thesis by simp
qed (use assms slice_inv pin_inv init_inv drop_inv in \<open>blast+\<close>)

lemma map_segment_inv: "life_inv (map_segment base b)"
proof -
  have "exported (lf_mem (map_segment base b))" by (simp add: exported_def map_segment_def)
  then show ?thesis
    by (auto simp: life_inv_def map_segment_def mem_ok_def views_ok_def mview_ok_def refs_to_def split: if_splits)
qed

interpretation life: inductive_invariant life_init life_step life_inv
  by unfold_locales (auto simp: life_init_def map_segment_inv elim!: life_stepE intro: life_exec_inv)

section \<open>Properties\<close>

text \<open>
  C17. Memory accounting, for every order of constructing and dropping primitives, keeping and dropping
  slices, holding buffers and closing the handle: a view exists exactly as long as somebody refers to
  it and its reference count is the number of references; a primitive on a slice, and any primitive
  while the handle is open, lies inside memory that is mapped, so its methods do not fault; and when
  the handle is closed and everything else is dropped, the memory is unmapped.
\<close>

theorem primitive_memory_accounting:
  assumes "reach life_init life_step s"
  shows "(\<forall>v. map_option mv_refs (pm_views (lf_mem s) v) = (if refs_to s v = 0 then None else Some (refs_to s v))) \<and>
    (\<forall>p \<in> set (lf_prims s). pr_owner p \<noteq> 0 \<or> lf_buf s \<noteq> None \<longrightarrow>
       pr_off p + prim_size (pr_kind p) \<le> length (pm_bytes (lf_mem s)) \<and>
       (\<forall>f :: nat \<Rightarrow> bytes \<Rightarrow> unit \<times> bytes. prim_call f p (lf_mem s) \<noteq> None)) \<and>
    (lf_buf s = None \<and> lf_held s = [] \<and> lf_pins s = [] \<and> lf_prims s = [] \<longrightarrow> \<not> pm_mapped (lf_mem s))"
proof -
  have inv: "life_inv s" using life.reach_inv [OF assms] .
  note m = life_mem [OF inv]
  have refs: "map_option mv_refs (pm_views (lf_mem s) v) = (if refs_to s v = 0 then None else Some (refs_to s v))" for v
    using mem_okD(5,6) [OF m, of v] by (cases "pm_views (lf_mem s) v") (auto simp: mview_ok_def)
  have mapped: "pm_mapped (lf_mem s)"
    if p: "p \<in> set (lf_prims s)" and o: "pr_owner p \<noteq> 0 \<or> lf_buf s \<noteq> None" for p
  proof -
    from view_alive [OF m refs_to_pos(4) [OF p]] obtain mv where
      "pm_views (lf_mem s) (pr_owner p) = Some mv" "\<not> mv_released mv" using o by (auto simp: mview_ok_def)
    then have "exported (lf_mem s)" unfolding exported_iff [OF mem_okD(7) [OF m]] by blast
    then show ?thesis using mem_okD(3) [OF m] by simp
  qed
  have gone: "\<not> exported (lf_mem s)" if "lf_buf s = None" "lf_held s = []" "lf_pins s = []" "lf_prims s = []"
    using that mem_okD(5) [OF m] unfolding exported_iff [OF mem_okD(7) [OF m]]
    by (auto simp: mview_ok_def refs_to_def)
  show ?thesis
    using refs mapped gone inv mem_okD(3) [OF m] by (auto simp: life_inv_def prim_call_def split: prod.splits)
qed

lemma life_run_reach:
  assumes "reach life_init life_step s" and "life_run es s = Some s'"
  shows "reach life_init life_step s'"
  using assms
proof (induction es arbitrary: s)
  case (Cons e es)
  then obtain s1 where "life_exec e s = Some s1" "life_run es s1 = Some s'" by (auto simp: bind_eq_Some_conv)
  with Cons.IH [OF reach_step [OF Cons.prems(1) life_stepI]] show ?case by blast
qed simp

lemmas life_eval = map_segment_def named_client_def history_client_def refers_def prim_init_def PyObject_get_buffer_def
  PyBuffer_release_def py_incref_def py_decref_def put_view_def settle_def exported_def detach_views_def
  view_release_def drop_mmap_def mmap_close_def view_slice_def new_view_def MUTEX64_SIZE_def

lemma named_client_run:
  assumes "prim_size k \<le> length b" and "base mod 8 = 0"
  shows "life_run (named_client k) (map_segment base b) =
    Some ((map_segment base b)\<lparr>lf_prims := [\<lparr>pr_kind = k, pr_off = 0, pr_owner = 0\<rparr>],
      lf_mem := py_incref 0 (lf_mem (map_segment base b))\<rparr>)"
proof -
  have "base mod 4 = 0" using assms(2) by presburger
  then have "base mod prim_align k = 0" using assms(2) by (cases k) simp_all
  then show ?thesis using assms(1) by (simp add: life_eval numeral_2_eq_2)
qed

lemma history_client_run:
  assumes "128 \<le> length b" and "base mod 8 = 0"
  shows "\<exists>s. life_run history_client (map_segment base b) = Some s \<and> lf_buf s = Some 0 \<and> lf_held s = [1] \<and>
    lf_pins s = [] \<and> lf_prims s = [\<lparr>pr_kind = KMutex, pr_off = 64, pr_owner = 2\<rparr>]"
proof -
  have "(base + 64) mod 4 = 0" using assms(2) by presburger
  then show ?thesis using assms(1) by (simp add: life_eval numeral_2_eq_2)
qed

lemma map_segment_reach: "reach life_init life_step (map_segment base b)"
  by (rule reach_init) (auto simp: life_init_def)

lemma detach_keeps_prims [simp]: "lf_prims (snd (detach_views s)) = lf_prims s"
  by (simp add: detach_views_def split: option.split prod.split sum.split)

theorem primitive_memory_accounting_witness:
  "\<exists>s p. reach life_init life_step s \<and> lf_buf s = None \<and> lf_prims s = [p] \<and>
    prim_call (\<lambda>a m. ((), m)) p (lf_mem s) \<noteq> None"
proof -
  let ?b = "replicate 128 0 :: bytes"
  from history_client_run [of ?b 0] obtain s where s: "life_run history_client (map_segment 0 ?b) = Some s"
    "lf_buf s = Some 0" "lf_held s = [1]" "lf_pins s = []" "lf_prims s = [\<lparr>pr_kind = KMutex, pr_off = 64, pr_owner = 2\<rparr>]"
    by auto
  have "reach life_init life_step s" using life_run_reach [OF map_segment_reach s(1)] .
  then have r: "reach life_init life_step (snd (detach_views s))"
    by (rule reach_step) (rule life_stepI [of LDetach], simp)
  have "lf_buf (snd (detach_views s)) = None"
    using s(1) unfolding history_client_def by (auto simp: life_eval numeral_2_eq_2)
  with r primitive_memory_accounting [OF r] s(5) show ?thesis by (intro exI [of _ "snd (detach_views s)"]) auto
qed

text \<open>
  C28. The primitives of the named objects are built on \<open>_buf\<close> itself. The constructor gives its
  buffer back, so closing the handle releases the view and unmaps the memory although the primitive
  still has the address: every method called afterwards accesses memory that is not mapped.
\<close>

theorem named_primitive_faults_after_close:
  assumes "prim_size k \<le> length b" and "base mod 8 = 0"
  shows "\<exists>s s' p. life_run (named_client k) (map_segment base b) = Some s \<and> lf_prims s = [p] \<and>
    prim_call f p (lf_mem s) \<noteq> None \<and> detach_views s = (Inr (), s') \<and> lf_prims s' = [p] \<and>
    prim_call f p (lf_mem s') = None"
proof -
  let ?p = "\<lparr>pr_kind = k, pr_off = 0, pr_owner = 0\<rparr>"
  let ?s = "(map_segment base b)\<lparr>lf_prims := [?p], lf_mem := py_incref 0 (lf_mem (map_segment base b))\<rparr>"
  have c: "prim_call f ?p (lf_mem ?s) \<noteq> None"
    by (simp add: prim_call_def py_incref_def put_view_def map_segment_def split: prod.splits)
  have r: "fst (detach_views ?s) = Inr ()" and u: "\<not> pm_mapped (lf_mem (snd (detach_views ?s)))"
    by (simp_all add: life_eval py_decref_def)
  have "detach_views ?s = (Inr (), snd (detach_views ?s))" using r by (metis prod.collapse)
  moreover have "prim_call f ?p (lf_mem (snd (detach_views ?s))) = None" using u by (simp only: prim_call_def if_False)
  moreover have "lf_prims (snd (detach_views ?s)) = [?p]" by simp
  ultimately show ?thesis using named_client_run [OF assms] c
    by (intro exI [of _ ?s] exI [of _ "snd (detach_views ?s)"] exI [of _ ?p]) simp
qed

theorem named_primitive_faults_after_close_witness:
  "\<exists>s s' p. life_run (named_client KMutex) (map_segment 4096 (replicate 64 0)) = Some s \<and>
    detach_views s = (Inr (), s') \<and> prim_call (\<lambda>a m. ((), mutex_force_release a m)) p (lf_mem s') = None"
proof -
  have "prim_size KMutex \<le> length (replicate 64 0 :: bytes)" "(4096 :: nat) mod 8 = 0"
    by (simp_all add: MUTEX64_SIZE_def)
  from named_primitive_faults_after_close [OF this, of "\<lambda>a m. ((), mutex_force_release a m)"] show ?thesis by blast
qed

end
