(* ===== verification/Semaphore_Progress.thy ===== *)
theory Semaphore_Progress
  imports Semaphore_Safety
begin

text \<open>
  Progress of the semaphore's methods, whatever the other threads do: a \<open>post\<close> can only be
  delayed by operations of other threads that succeed, and a non-blocking \<open>wait\<close> returns after a
  bounded number of its own actions. Both are instances of one potential argument, the locale
  \<open>sem_potential\<close>.
\<close>

section \<open>Counting actions\<close>

definition sem_own_steps :: "tid \<Rightarrow> sem_event list \<Rightarrow> nat" where
  "sem_own_steps t es = length (filter (\<lambda>e. case e of SemStep u env \<Rightarrow> u = t | _ \<Rightarrow> False) es)"

definition weak_failures :: "tid \<Rightarrow> sem_event list \<Rightarrow> nat" where
  \<comment> \<open>actions of the thread in which a weak compare-and-swap would fail spuriously\<close>
  "weak_failures t es =
     length (filter (\<lambda>e. case e of SemStep u env \<Rightarrow> u = t \<and> env_weak_fail env | _ \<Rightarrow> False) es)"

abbreviation count_of :: "'a sem_mem_scheme \<Rightarrow> u32" where
  "count_of m \<equiv> sm_count (ss_hdr m)"

fun count_changes :: "wakefn \<Rightarrow> (tid \<Rightarrow> u32) \<Rightarrow> tid \<Rightarrow> sem_event list \<Rightarrow> sem_sys \<Rightarrow> nat" where
  \<comment> \<open>actions of the other threads that change the count\<close>
  "count_changes wk pid t [] s = 0"
| "count_changes wk pid t (e # es) s =
     (case sem_exec wk pid e s of
        None \<Rightarrow> 0
      | Some s' \<Rightarrow>
          (if sem_own_steps t [e] = 0 \<and> count_of s' \<noteq> count_of s then 1 else 0) + count_changes wk pid t es s')"

section \<open>Potentials\<close>

text \<open>
  \<open>P\<close>: the program points of the call; \<open>pot\<close>: how many actions are left if nobody interferes,
  given the program point and the count. An action uses up one unit, a spurious failure costs
  \<open>w\<close> and a change of the count by another thread costs \<open>d\<close>.
\<close>

locale sem_potential =
  fixes P :: "sem_pc \<Rightarrow> bool" and pot :: "sem_pc \<Rightarrow> u32 \<Rightarrow> nat" and w d :: nat
  assumes own_step: "P pc \<Longrightarrow> sem_pc_step wk p env t pc m = Some (pc', m') \<Longrightarrow>
      P pc' \<and> Suc (pot pc' (count_of m')) \<le> pot pc (count_of m) + (if env_weak_fail env then w else 0)"
    and other_step: "P pc \<Longrightarrow> pot pc c' \<le> pot pc c + (if c' = c then 0 else d)"
begin

lemma exec_bound:
  assumes "sem_exec wk pid e s = Some s'" and "P (ss_pc s t)" and "\<forall>c. e \<noteq> SemCall t c"
  shows "P (ss_pc s' t) \<and> sem_own_steps t [e] + pot (ss_pc s' t) (count_of s') \<le>
    pot (ss_pc s t) (count_of s) + w * weak_failures t [e] +
    (if sem_own_steps t [e] = 0 \<and> count_of s' \<noteq> count_of s then d else 0)"
proof (cases "\<exists>env. e = SemStep t env")
  case True
  with assms(1) obtain env pc' m' where e: "e = SemStep t env" and
    st: "sem_pc_step wk (pid t) env t (ss_pc s t) (sem_mem.truncate s) = Some (pc', m')"
    and s': "s' = with_sem s t (pc', m')" by auto
  from own_step [OF assms(2) st] show ?thesis
    using e s' by (auto simp: sem_state_defs sem_own_steps_def weak_failures_def split: if_splits)
next
  case False
  then have "sem_own_steps t [e] = 0" by (auto simp: sem_own_steps_def split: sem_event.splits)
  moreover have "ss_pc s' t = ss_pc s t" using sem_exec_other [OF assms(1), of t] assms(3) False by auto
  ultimately show ?thesis using other_step [OF assms(2), of "count_of s'" "count_of s"] assms(2) by auto
qed

lemma run_bound:
  assumes "sem_run wk pid es s = Some s'" and "P (ss_pc s t)" and "\<forall>c. SemCall t c \<notin> set es"
  shows "P (ss_pc s' t) \<and> sem_own_steps t es + pot (ss_pc s' t) (count_of s') \<le>
    pot (ss_pc s t) (count_of s) + w * weak_failures t es + d * count_changes wk pid t es s"
  using assms
proof (induction es arbitrary: s)
  case Nil
  then show ?case by (simp add: sem_own_steps_def)
next
  case (Cons e es)
  from Cons.prems(1) obtain s1 where s1: "sem_exec wk pid e s = Some s1" "sem_run wk pid es s1 = Some s'"
    by (auto simp: bind_eq_Some_conv)
  have "\<forall>c. e \<noteq> SemCall t c" and es: "\<forall>c. SemCall t c \<notin> set es" using Cons.prems(3) by auto
  note one = exec_bound [OF s1(1) Cons.prems(2) this(1)]
  have "sem_own_steps t (e # es) = sem_own_steps t [e] + sem_own_steps t es"
    "weak_failures t (e # es) = weak_failures t [e] + weak_failures t es"
    by (simp_all add: sem_own_steps_def weak_failures_def)
  moreover have "P (ss_pc s1 t)" using one by blast
  note Cons.IH [OF s1(2) this es]
  moreover have "d * count_changes wk pid t (e # es) s =
      (if sem_own_steps t [e] = 0 \<and> count_of s1 \<noteq> count_of s then d else 0) + d * count_changes wk pid t es s1"
    using s1(1) by (simp add: add_mult_distrib2)
  ultimately show ?case using one by (simp only: add_mult_distrib2 simp_thms) linarith
qed

end

section \<open>Post\<close>

fun posting :: "sem_pc \<Rightarrow> bool" where
  "posting (SOut r) = (r \<in> {SRetNone, SRetOverflow})"
| "posting (PostLoad add) = True"
| "posting (PostCas add cur) = True"
| "posting (PostWake add prev) = True"
| "posting pc = False"

fun post_left :: "sem_pc \<Rightarrow> u32 \<Rightarrow> nat" where
  "post_left (PostLoad add) c = 3"
| "post_left (PostCas add cur) c = (if cur = c then 2 else 4)"
| "post_left (PostWake add prev) c = 1"
| "post_left pc c = 0"

interpretation post: sem_potential posting post_left 2 2
proof unfold_locales
  show "posting pc' \<and> Suc (post_left pc' (count_of m')) \<le>
      post_left pc (count_of m) + (if env_weak_fail env then 2 else 0)"
    if "posting pc" "sem_pc_step wk p env t pc m = Some (pc', m')" for pc wk p env t m pc' m'
    using that by (cases pc) (auto simp: Let_def split: if_splits)
  show "post_left pc c' \<le> post_left pc c + (if c' = c then 0 else 2)" if "posting pc" for pc c' c
    using that by (cases pc) auto
qed

lemma posting_enabled:
  assumes "posting (ss_pc s t)" and "ss_pc s t \<notin> {SOut SRetNone, SOut SRetOverflow}"
  shows "\<exists>s'. sem_exec wk pid (SemStep t env) s = Some s'"
  using assms by (cases "ss_pc s t") (auto simp: Let_def)

section \<open>Wait without blocking\<close>

fun trying :: "int \<Rightarrow> sem_pc \<Rightarrow> bool" where
  "trying spin (SOut r) = (r \<in> {SRetTrue, SRetFalse})"
| "trying spin (WSpin a i) = (\<not> wa_blocking a \<and> wa_spin a = spin \<and> i \<le> nat spin)"
| "trying spin (WCas a i v) = (\<not> wa_blocking a \<and> wa_spin a = spin \<and> i < nat spin)"
| "trying spin WPid = True"
| "trying spin WStamp = True"
| "trying spin pc = False"

fun try_left :: "int \<Rightarrow> sem_pc \<Rightarrow> u32 \<Rightarrow> nat" where
  "try_left spin (WSpin a i) c = 2 * (nat spin - i) + 2"
| "try_left spin (WCas a i v) c = 2 * (nat spin - i) + 1"
| "try_left spin WPid c = 2"
| "try_left spin WStamp c = 1"
| "try_left spin pc c = 0"

interpretation try_wait: sem_potential "trying spin" "try_left spin" 0 0
proof unfold_locales
  show "trying spin pc' \<and> Suc (try_left spin pc' (count_of m')) \<le>
      try_left spin pc (count_of m) + (if env_weak_fail env then 0 else 0)"
    if "trying spin pc" "sem_pc_step wk p env t pc m = Some (pc', m')" for pc wk p env t m pc' m'
    using that by (cases pc) (auto split: if_splits)
  show "try_left spin pc c' \<le> try_left spin pc c + (if c' = c then 0 else 0)" if "trying spin pc" for pc c' c
    using that by (cases pc) auto
qed

lemma trying_enabled:
  assumes "trying spin (ss_pc s t)" and "ss_pc s t \<notin> {SOut SRetTrue, SOut SRetFalse}"
  shows "\<exists>s'. sem_exec wk pid (SemStep t env) s = Some s'"
  using assms by (cases "ss_pc s t") (auto simp: Let_def)

section \<open>Properties\<close>

text \<open>
  C20. \<open>post\<close> is lock-free: in any run it takes at most three actions of its own, plus two for every
  successful change of the count by another thread and two for every spurious failure of the weak
  compare-and-swap; and until it has returned it can always take its next action. So it can only be
  delayed while other operations complete.
\<close>

theorem semaphore_post_lock_free:
  assumes "sem_run wk pid es s = Some s'" and "ss_pc s t = sem_entry (CallPost n)"
    and "1 \<le> n" and "n < 2 ^ 32" and "\<forall>c. SemCall t c \<notin> set es"
  shows "sem_own_steps t es \<le> 3 + 2 * weak_failures t es + 2 * count_changes wk pid t es s \<and>
    (ss_pc s' t \<in> {SOut SRetNone, SOut SRetOverflow} \<or>
      (\<exists>s''. sem_exec wk pid (SemStep t env) s' = Some s''))"
proof -
  have pc: "ss_pc s t = PostLoad (word_of_int n)" using assms(2-4) post_entry [of n] by simp
  then have p: "posting (ss_pc s t)" by simp
  from post.run_bound [OF assms(1) p assms(5)] pc
  have "posting (ss_pc s' t)" "sem_own_steps t es \<le> 3 + 2 * weak_failures t es + 2 * count_changes wk pid t es s"
    by auto
  with posting_enabled [of s' t wk pid env] show ?thesis by blast
qed

theorem semaphore_post_lock_free_witness:
  "\<exists>es s' s. sem_run fifo_wake (\<lambda>t. 7) es s = Some s' \<and> ss_pc s 0 = sem_entry (CallPost 5) \<and>
    sem_own_steps 0 es = 3 \<and> ss_pc s' 0 \<in> {SOut SRetNone, SOut SRetOverflow}"
proof -
  let ?es = "[SemStep 0 calm, SemStep 0 calm, SemStep 0 calm]"
    and ?s = "(sem_start 2)\<lparr>ss_pc := (\<lambda>t. PostLoad 5)\<rparr>"
  have p5: "sem_entry (CallPost 5) = PostLoad 5" using post_entry [of 5] by (simp del: sem_entry.simps)
  then have e: "ss_pc ?s 0 = sem_entry (CallPost 5)" by (simp del: sem_entry.simps)
  obtain s' where r: "sem_run fifo_wake (\<lambda>t. 7) ?es ?s = Some s'" "ss_pc s' 0 = SOut SRetNone"
    by (simp add: sem_eval)
  have "sem_own_steps 0 ?es \<le> 3 + 2 * weak_failures 0 ?es + 2 * count_changes fifo_wake (\<lambda>t. 7) 0 ?es ?s"
    using semaphore_post_lock_free [OF r(1) e] by simp
  moreover have "sem_own_steps 0 ?es = 3" by (simp add: sem_own_steps_def)
  ultimately show ?thesis using r(2)
    by (intro exI [of _ ?es] exI [of _ s'] exI [of _ ?s] conjI r(1) e) simp_all
qed

text \<open>
  C36. A \<open>wait\<close> that does not block returns within \<open>2 * spin + 2\<close> of its own actions, whatever
  the other threads do, and never calls into the kernel.
\<close>

theorem semaphore_try_wait_bounded:
  assumes "sem_run wk pid es s = Some s'" and "ss_pc s t = sem_entry (CallWait False timeout spin)"
    and "\<forall>c. SemCall t c \<notin> set es"
  shows "sem_own_steps t es \<le> 2 * nat spin + 2 \<and> (\<forall>a. ss_pc s' t \<noteq> WFutex a \<and> ss_pc s' t \<noteq> WSleep a) \<and>
    (ss_pc s' t \<in> {SOut SRetTrue, SOut SRetFalse} \<or> (\<exists>s''. sem_exec wk pid (SemStep t env) s' = Some s''))"
proof -
  have p: "trying spin (ss_pc s t)" using assms(2) by simp
  from try_wait.run_bound [OF assms(1) p assms(3)] assms(2)
  have b: "trying spin (ss_pc s' t)" "sem_own_steps t es \<le> 2 * nat spin + 2" by auto
  then have "\<forall>a. ss_pc s' t \<noteq> WFutex a \<and> ss_pc s' t \<noteq> WSleep a" by (cases "ss_pc s' t") auto
  with b trying_enabled [of spin s' t wk pid env] show ?thesis by blast
qed

theorem semaphore_try_wait_bounded_witness:
  "\<exists>es s' s. sem_run fifo_wake (\<lambda>t. 7) es s = Some s' \<and> ss_pc s 0 = sem_entry (CallWait False 0 1) \<and>
    sem_own_steps 0 es \<le> 4 \<and> ss_pc s' 0 = SOut SRetFalse"
proof -
  let ?es = "[SemStep 0 calm, SemStep 0 calm]"
    and ?s = "(sem_start 0)\<lparr>ss_pc := (\<lambda>t. sem_entry (CallWait False 0 1))\<rparr>"
  obtain s' where r: "sem_run fifo_wake (\<lambda>t. 7) ?es ?s = Some s'" "ss_pc s' 0 = SOut SRetFalse"
    by (simp add: sem_eval)
  from semaphore_try_wait_bounded [OF r(1), of 0 0 1] have "sem_own_steps 0 ?es \<le> 4" by simp
  with r show ?thesis by (intro exI [of _ ?es] exI [of _ s'] exI [of _ ?s]) simp
qed

end
