(* ===== verification/Semaphore_Calls.thy ===== *)
theory Semaphore_Calls
  imports Semaphore_Safety
begin

text \<open>
  The semaphore calls of one thread that nobody interferes with, on the bytes of the mapping, as
  the theory of mutex calls has them for the mutex, with the abstract counter that they implement.
  The lemmas at the end show that they are runs of the machine of the semaphore theory.
\<close>

section \<open>The calls\<close>

definition sem_post :: "int \<Rightarrow> nat \<Rightarrow> bytes \<Rightarrow> sem_result \<times> bytes" where
  "sem_post n base mem =
     (let n_ull = arg_k n in
      if n_ull > 0xFFFFFFFF then (SRetOverflow, mem)
      else
        (let add = ucast n_ull :: u32; cur = u32_load_acq base SEM_OFF_COUNT mem in
         if add = 0 then (SRetNone, mem)
         else if cur > UINT32_MAX - add then (SRetOverflow, mem)
         else (SRetNone, snd (u32_cas_acqrel base SEM_OFF_COUNT cur (cur + add) mem))))"

fun try_spin :: "(nat \<Rightarrow> bool) \<Rightarrow> u32 \<Rightarrow> u64 \<Rightarrow> nat \<Rightarrow> nat \<Rightarrow> nat \<Rightarrow> bytes \<Rightarrow> sem_result \<times> bytes" where
  \<comment> \<open>the spin loop from iteration \<open>i\<close> with \<open>n\<close> iterations left; \<open>weak i\<close>: the weak
    compare-and-swap of iteration \<open>i\<close> fails spuriously\<close>
  "try_spin weak pid now base i 0 mem = (SRetFalse, mem)"
| "try_spin weak pid now base i (Suc n) mem =
     (let v = u32_load_acq base SEM_OFF_COUNT mem in
      if v > 0 \<and> \<not> weak i then
        (SRetTrue,
         u64_store_rel_unaligned base SEM_OFF_LASTNS now
           (u32_store_rel base SEM_OFF_LASTPID pid (snd (u32_cas_acqrel base SEM_OFF_COUNT v (v - 1) mem))))
      else try_spin weak pid now base (Suc i) n mem)"

definition sem_try_wait :: "(nat \<Rightarrow> bool) \<Rightarrow> u32 \<Rightarrow> u64 \<Rightarrow> int \<Rightarrow> nat \<Rightarrow> bytes \<Rightarrow> sem_result \<times> bytes" where
  \<comment> \<open>\<open>wait(False, -1, spin)\<close>\<close>
  "sem_try_wait weak pid now spin base mem = try_spin weak pid now base 0 (nat spin) mem"

text \<open>An operation: \<open>post(n)\<close>, or a non-blocking \<open>wait\<close> with its spurious failures.\<close>

datatype sem_op = OpPost int | OpTry int "nat \<Rightarrow> bool"

fun sem_op_run :: "u32 \<Rightarrow> u64 \<Rightarrow> sem_op \<Rightarrow> nat \<Rightarrow> bytes \<Rightarrow> sem_result \<times> bytes" where
  "sem_op_run pid now (OpPost n) base mem = sem_post n base mem"
| "sem_op_run pid now (OpTry spin weak) base mem = sem_try_wait weak pid now spin base mem"

section \<open>The abstract counter\<close>

fun counter :: "sem_op \<Rightarrow> nat \<Rightarrow> sem_result \<times> nat" where
  "counter (OpPost n) c =
     (let k = nat (n mod 2 ^ 64) in
      if 2 ^ 32 \<le> c + k then (SRetOverflow, c) else (SRetNone, c + k))"
| "counter (OpTry spin weak) c =
     (if 0 < c \<and> list_ex (\<lambda>i. \<not> weak i) [0..<nat spin] then (SRetTrue, c - 1) else (SRetFalse, c))"

fun counters :: "sem_op list \<Rightarrow> nat \<Rightarrow> sem_result list \<times> nat" where
  "counters [] c = ([], c)"
| "counters (x # xs) c = (case counter x c of (r, c1) \<Rightarrow> (case counters xs c1 of (rs, c2) \<Rightarrow> (r # rs, c2)))"

abbreviation count_at :: "bytes \<Rightarrow> nat \<Rightarrow> nat" where
  "count_at mem base \<equiv> unat (sm_count (sem64_at mem base))"

lemmas sem_access_defs = u32_store_rel_def u32_load_acq_def u32_cas_acqrel_def
  u64_store_rel_unaligned_def sem_layout

lemma arg_k_word:
  fixes n :: int
  defines "k \<equiv> n mod 2 ^ 64"
  shows "(arg_k n > 0xFFFFFFFF) = (2 ^ 32 \<le> k)" and "ucast (arg_k n) = (word_of_int k :: u32)"
proof -
  have u: "uint (arg_k n) = k" by (simp add: arg_k_def k_def uint_word_of_int)
  then show "(arg_k n > 0xFFFFFFFF) = (2 ^ 32 \<le> k)" by (auto simp: word_less_def)
  show "ucast (arg_k n) = (word_of_int k :: u32)" using u by (metis ucast_eq)
qed

lemma sem_post_counts:
  assumes "base + 64 \<le> length mem"
  shows "case sem_post n base mem of (r, mem') \<Rightarrow>
    counter (OpPost n) (count_at mem base) = (r, count_at mem' base) \<and> length mem' = length mem"
proof -
  define k where "k = n mod 2 ^ 64"
  let ?c = "sm_count (sem64_at mem base)"
  note a = arg_k_word [of n, folded k_def]
  have ks: "0 \<le> k" by (simp add: k_def)
  have cnt: "counter (OpPost n) c =
      (if 2 ^ 32 \<le> c + nat k then (SRetOverflow, c) else (SRetNone, c + nat k))" for c
    by (simp add: k_def Let_def)
  have l: "u32_load_acq base SEM_OFF_COUNT mem = ?c" by (simp add: sem64_at_def sem_access_defs)
  have cas: "snd (u32_cas_acqrel base SEM_OFF_COUNT ?c v mem) = u32_put (base + 8) v mem" for v
    by (simp add: sem64_at_def sem_access_defs)
  have put: "sm_count (sem64_at (u32_put (base + 8) v mem) base) = v"
    "length (u32_put (base + 8) v mem) = length mem" for v
    using assms by (simp_all add: sem64_at_def sem_layout buf_simps)
  consider (big) "2 ^ 32 \<le> k" | (zero) "k = 0" | (mid) "1 \<le> k" "k < 2 ^ 32" using ks by linarith
  then show ?thesis
  proof cases
    case big
    then have "2 ^ 32 \<le> nat k" by (simp add: nat_le_iff le_nat_iff)
    then have "2 ^ 32 \<le> count_at mem base + nat k" by (rule trans_le_add2)
    with big show ?thesis by (simp add: sem_post_def a cnt Let_def del: counter.simps)
  next
    case zero
    have "count_at mem base < 2 ^ 32" using unsigned_less [of "sm_count (sem64_at mem base)"] by simp
    with zero show ?thesis by (simp add: sem_post_def a cnt Let_def del: counter.simps)
  next
    case mid
    note p = post_add [OF mid] post_overflow_iff [OF mid, of ?c]
    have iff: "2 ^ 32 \<le> uint ?c + k \<longleftrightarrow> 2 ^ 32 \<le> m + nat k" if "uint ?c = int m" for m
      using of_nat_le_iff [of "2 ^ 32" "m + nat k", where 'a = int] ks that by simp
    note iff = iff [of "count_at mem base", OF uint_nat]
    show ?thesis
    proof (cases "2 ^ 32 \<le> count_at mem base + nat k")
      case True
      then have "2 ^ 32 \<le> uint ?c + k" by (simp only: iff)
      with True mid p show ?thesis by (simp add: sem_post_def a cnt l Let_def del: counter.simps)
    next
      case False
      then have n: "\<not> 2 ^ 32 \<le> uint ?c + k" by (simp only: iff not_False_eq_True)
      have "unat (?c + word_of_int k) = count_at mem base + nat k"
        using False p(1) by (subst unat_add_lem [THEN iffD1]) simp_all
      with False n mid p show ?thesis by (simp add: sem_post_def a cnt l cas put Let_def del: counter.simps)
    qed
  qed
qed

definition take_token :: "u32 \<Rightarrow> u64 \<Rightarrow> nat \<Rightarrow> bytes \<Rightarrow> bytes" where
  "take_token pid now base mem =
     u64_put (base + 16) now (u32_put (base + 12) pid (u32_put (base + 8) (sm_count (sem64_at mem base) - 1) mem))"

lemma try_spin_eq:
  "try_spin weak pid now base i n mem =
    (if 0 < sm_count (sem64_at mem base) \<and> (\<exists>j < n. \<not> weak (i + j)) then (SRetTrue, take_token pid now base mem)
     else (SRetFalse, mem))"
proof (induction n arbitrary: i)
  case (Suc n)
  have "u32_load_acq base SEM_OFF_COUNT mem = sm_count (sem64_at mem base)"
    by (simp add: sem64_at_def sem_access_defs)
  then show ?case using Suc
    by (simp add: Let_def Ex_less_Suc2 take_token_def)
      (simp add: sem64_at_def sem_access_defs)
qed simp

lemma sem_try_wait_eq:
  "sem_try_wait weak pid now spin base mem =
    (if 0 < sm_count (sem64_at mem base) \<and> list_ex (\<lambda>i. \<not> weak i) [0..<nat spin]
     then (SRetTrue, take_token pid now base mem) else (SRetFalse, mem))"
  by (auto simp: sem_try_wait_def try_spin_eq list_ex_iff)

lemma take_token_header:
  assumes "base + 64 \<le> length mem"
  shows "length (take_token pid now base mem) = length mem" and
    "sem64_at (take_token pid now base mem) base =
      (sem64_at mem base)\<lparr>sm_count := sm_count (sem64_at mem base) - 1, sm_last_pid := pid, sm_last_ns := now\<rparr>"
  using assms by (simp_all add: take_token_def sem64_at_def sem_layout buf_simps)

lemma sem_try_wait_counts:
  assumes "base + 64 \<le> length mem"
  shows "case sem_try_wait weak pid now spin base mem of (r, mem') \<Rightarrow>
    counter (OpTry spin weak) (count_at mem base) = (r, count_at mem' base) \<and> length mem' = length mem"
proof -
  let ?c = "sm_count (sem64_at mem base)"
  have "0 < ?c \<longleftrightarrow> 0 < unat ?c" by (simp add: word_gt_0 unat_eq_0 [symmetric] del: unat_eq_0)
  moreover have "unat (?c - 1) = unat ?c - 1" if "0 < ?c"
    using that by (simp add: unat_minus_one word_gt_0)
  ultimately show ?thesis using take_token_header [OF assms] by (simp add: sem_try_wait_eq)
qed

lemma sem_op_counts:
  assumes "base + 64 \<le> length mem"
  shows "case sem_op_run pid now x base mem of (r, mem') \<Rightarrow>
    counter x (count_at mem base) = (r, count_at mem' base) \<and> length mem' = length mem"
  using sem_post_counts [OF assms] sem_try_wait_counts [OF assms] by (cases x) simp_all

section \<open>Runs of the machine\<close>

lemma post_header:
  assumes "base + 64 \<le> length mem"
  shows "sem64_at (u32_put (base + 8) v mem) base = (sem64_at mem base)\<lparr>sm_count := v\<rparr>"
  using assms by (simp add: sem64_at_def sem_layout buf_simps)

abbreviation steps :: "tid \<Rightarrow> mx_env \<Rightarrow> bool list \<Rightarrow> sem_event list" where
  \<comment> \<open>actions of a thread, and which of them meet a spurious failure\<close>
  "steps t env ws \<equiv> map (\<lambda>w. SemStep t (env\<lparr>env_weak_fail := w\<rparr>)) ws"

lemma sem_run_append:
  "sem_run wk pid (xs @ ys) s = Option.bind (sem_run wk pid xs s) (sem_run wk pid ys)"
  by (induction xs arbitrary: s) (auto split: Option.bind_split)

lemma run_steps:
  assumes "sem_run wk pid (steps t env xs) s = Some s1" and "sem_run wk pid (steps t env ys) s1 = Some s2"
  shows "sem_run wk pid (steps t env (xs @ ys)) s = Some s2"
  using assms by (simp add: sem_run_append)

lemmas sem_run_simps = sem_state_defs sem_mem.truncate_def with_sem_def

lemma try_spin_is_run:
  assumes "base + 64 \<le> length mem"
  shows "\<lbrakk>ss_hdr s = sem64_at mem base; ss_pc s t = WSpin a i; \<not> wa_blocking a; nat (wa_spin a) = i + n;
      try_spin weak (pid t) (env_now env) base i n mem = (r, mem')\<rbrakk> \<Longrightarrow>
    \<exists>ws s'. sem_run wk pid (steps t env ws) s = Some s' \<and> ss_hdr s' = sem64_at mem' base \<and> ss_pc s' t = SOut r"
proof (induction n arbitrary: i s)
  case 0
  then have "\<not> int i < wa_spin a" by linarith
  with 0 show ?case by (intro exI [of _ "[False]"]) (auto simp: sem_run_simps)
next
  case (Suc n)
  let ?c = "sm_count (ss_hdr s)"
  have l: "u32_load_acq base SEM_OFF_COUNT mem = ?c"
    using Suc.prems(1) by (simp add: sem64_at_def sem_access_defs)
  have i: "int i < wa_spin a" using Suc.prems(4) by linarith
  have again: ?case
    if "\<exists>s1. sem_run wk pid (steps t env ws) s = Some s1 \<and> ss_hdr s1 = ss_hdr s \<and> ss_pc s1 t = WSpin a (Suc i)"
      and skip: "?c = 0 \<or> weak i" for ws
  proof -
    from that(1) obtain s1 where s1: "sem_run wk pid (steps t env ws) s = Some s1" "ss_hdr s1 = ss_hdr s"
      "ss_pc s1 t = WSpin a (Suc i)" by blast
    have "try_spin weak (pid t) (env_now env) base (Suc i) n mem = (r, mem')"
      using Suc.prems(5) skip by (auto simp: l Let_def)
    with Suc.IH [of s1 "Suc i"] Suc.prems(1,3,4) s1(2,3) obtain vs s' where
      "sem_run wk pid (steps t env vs) s1 = Some s'" "ss_hdr s' = sem64_at mem' base" "ss_pc s' t = SOut r" by auto
    with run_steps [OF s1(1)] show ?case by blast
  qed
  have pos: "?c \<noteq> 0 \<Longrightarrow> 0 < ?c" by (simp add: word_gt_0)
  consider (take) "0 < ?c" "\<not> weak i" | (weak) "0 < ?c" "weak i" | (empty) "?c = 0"
    using pos by blast
  then show ?case
  proof cases
    case take
    have "\<exists>j < Suc n. \<not> weak (i + j)" using take(2) by (intro exI [of _ 0]) simp
    then have r: "r = SRetTrue" "mem' = take_token (pid t) (env_now env) base mem"
      using Suc.prems(1,5) take(1) by (simp_all add: try_spin_eq del: try_spin.simps)
    have "sem64_at mem' base = (ss_hdr s)\<lparr>sm_count := ?c - 1, sm_last_pid := pid t, sm_last_ns := env_now env\<rparr>"
      unfolding r(2) Suc.prems(1) by (rule take_token_header(2) [OF assms])
    then show ?thesis using take i Suc.prems(2) r(1)
      by (intro exI [of _ "[False, False, False, False]"]) (simp add: sem_run_simps)
  next
    case weak
    then show ?thesis using i Suc.prems(2)
      by (intro again [of "[False, True]"]) (simp_all add: sem_run_simps)
  next
    case empty
    then show ?thesis using i Suc.prems(2)
      by (intro again [of "[False]"]) (simp_all add: sem_run_simps)
  qed
qed

text \<open>
  A call on the bytes of a semaphore that nobody else uses is a run of its machine: it returns the same
  result and leaves the same header.
\<close>

fun op_call :: "sem_op \<Rightarrow> sem_call" where
  "op_call (OpPost n) = CallPost n"
| "op_call (OpTry spin weak) = CallWait False (- 1) spin"

lemma sem_op_is_run:
  assumes "base + 64 \<le> length mem" and "ss_hdr s = sem64_at mem base" and "ss_pc s t = SOut q"
    and "sem_op_run (pid t) (env_now env) x base mem = (r, mem')"
  shows "\<exists>ws s'. sem_run wk pid (SemCall t (op_call x) # steps t env ws) s = Some s' \<and>
    ss_hdr s' = sem64_at mem' base \<and> ss_pc s' t = SOut r"
proof (cases x)
  case (OpPost n)
  let ?add = "ucast (arg_k n) :: u32" and ?c = "sm_count (sem64_at mem base)"
  have l: "u32_load_acq base SEM_OFF_COUNT mem = ?c" by (simp add: sem64_at_def sem_access_defs)
  have cas: "snd (u32_cas_acqrel base SEM_OFF_COUNT ?c v mem) = u32_put (base + 8) v mem" for v
    by (simp add: sem64_at_def sem_access_defs)
  have rm: "sem_post n base mem = (r, mem')" using assms(4) OpPost by simp
  consider (big) "arg_k n > 0xFFFFFFFF" | (zero) "\<not> arg_k n > 0xFFFFFFFF" "?add = 0"
    | (over) "\<not> arg_k n > 0xFFFFFFFF" "?add \<noteq> 0" "?c > UINT32_MAX - ?add"
    | (ok) "\<not> arg_k n > 0xFFFFFFFF" "?add \<noteq> 0" "\<not> ?c > UINT32_MAX - ?add" by blast
  then show ?thesis
  proof cases
    case big
    then show ?thesis using rm assms(2,3) OpPost
      by (intro exI [of _ "[]"]) (auto simp: sem_post_def Let_def)
  next
    case zero
    then show ?thesis using rm assms(2,3) OpPost
      by (intro exI [of _ "[False, False]"]) (auto simp: sem_post_def Let_def sem_run_simps)
  next
    case over
    then show ?thesis using rm assms(2,3) OpPost
      by (intro exI [of _ "[False]"]) (auto simp: sem_post_def Let_def l sem_run_simps)
  next
    case ok
    then show ?thesis using rm assms(2,3) OpPost post_header [OF assms(1)]
      by (intro exI [of _ "[False, False, False]"]) (auto simp: sem_post_def Let_def l cas sem_run_simps)
  qed
next
  case (OpTry spin weak)
  let ?a = "\<lparr>wa_blocking = False, wa_timeout = - 1, wa_spin = spin\<rparr>"
  let ?s = "s\<lparr>ss_pc := (ss_pc s)(t := WSpin ?a 0)\<rparr>"
  have "sem_run wk pid (SemCall t (op_call x) # es) s = sem_run wk pid es ?s" for es
    using assms(3) OpTry by simp
  moreover have "try_spin weak (pid t) (env_now env) base 0 (nat spin) mem = (r, mem')"
    using assms(4) OpTry by (simp add: sem_try_wait_def)
  ultimately show ?thesis
    using try_spin_is_run [OF assms(1), of ?s t ?a 0 "nat spin" weak pid env r mem' wk] assms(2) by simp
qed

end
