(* ===== verification/Named_Semaphore.thy ===== *)
theory Named_Semaphore
  imports Named_Shared Semaphore_Calls
begin

text \<open>
  A named semaphore between processes: each visit of a process opens the semaphore by its name and
  makes one call. Any number of visits are the operations of one abstract counter that the first
  process initialises; but when the first process is still between creating the segment and
  initialising the count, tokens that others post are lost.
\<close>

section \<open>Visits\<close>

record sem_visit =
  vi_pid :: nat
  vi_addr :: nat               \<comment> \<open>where the segment is mapped\<close>
  vi_initial :: "int option"
  vi_now :: u64
  vi_op :: sem_op

definition sem_visit_exec :: "string option \<Rightarrow> string \<Rightarrow> init_env \<Rightarrow> sem_visit \<Rightarrow> os \<Rightarrow> sem_result option \<times> os" where
  "sem_visit_exec environ nm ie v s =
     (case NamedSemaphore_init environ (vi_pid v) (vi_addr v) nm (vi_initial v) ie s of
        (Inl e, s1) \<Rightarrow> (None, s1)
      | (Inr (g, fs), s1) \<Rightarrow>
          (case gsm_buf g of
             Inl e \<Rightarrow> (None, s1)
           | Inr ino \<Rightarrow>
               (case sem_op_run (of_nat (vi_pid v)) (vi_now v) (vi_op v) (fs_base fs) (os_ino s1 ino) of
                  (r, mem) \<Rightarrow> (Some r, put_ino ino mem s1))))"



definition good_initial :: "int option \<Rightarrow> bool" where
  "good_initial initial = (case initial of None \<Rightarrow> True | Some v \<Rightarrow> 0 \<le> v \<and> v < 2 ^ 32)"

section \<open>Lemmas\<close>

abbreviation sema_args :: "string \<Rightarrow> gsm_args" where
  "sema_args nm \<equiv> gsm_args_of (sema_shm_name nm) 64"

abbreviation sema_path :: "string \<Rightarrow> string" where
  "sema_path nm \<equiv> CHR ''/'' # sema_shm_name nm"

abbreviation sema_pdir :: "string option \<Rightarrow> string \<Rightarrow> string" where
  "sema_pdir environ nm \<equiv> pdir_of environ ''/dev/shm/fastipc'' (sema_shm_name nm)"

lemma sema_args_ok:
  assumes "CHR ''/'' \<notin> set nm"
  shows "good_args (sema_args nm)" "1 \<le> a_max_attempts (sema_args nm)"
    "\<not> a_attach_only (sema_args nm)" "a_size (sema_args nm) = 64" "a_name (sema_args nm) = sema_shm_name nm"
    "a_pid_dir (sema_args nm) = ''/dev/shm/fastipc''"
  using assms by (simp_all add: good_args_def gsm_args_of_def sema_shm_name_def)

lemma semaphore_on_handle:
  assumes "addr mod 4 = 0" and "64 \<le> g_size g" and "64 \<le> length mem" and "good_initial initial"
  shows "\<exists>mem'. FutexSemaphore_init (map_view addr g) initial True mem =
      (Inr \<lparr>fs_base = 0, fs_shared = True\<rparr>, mem') \<and> length mem' = length mem \<and>
    count_at mem' 0 = (case initial of None \<Rightarrow> count_at mem 0 | Some v \<Rightarrow> nat v)"
proof -
  have "64 \<le> nat (g_size g)" using assms(2) by linarith
  moreover have "unat (word_of_int v :: u32) = nat v" if "0 \<le> v" "v < 2 ^ 32" for v
    using that by (simp add: unat_eq_nat_uint uint_word_of_int)
  ultimately show ?thesis using assms
    by (cases initial) (auto simp: FutexSemaphore_init_def map_view_def v_addr_def good_initial_def
        SEM64_SIZE_def Let_def sem64_at_def sem_access_defs buf_simps)
qed

lemma sema_attach:
  assumes "CHR ''/'' \<notin> set nm" and "addr mod 4 = 0" and "os_shm s (sema_path nm) = Some ino"
    and "64 \<le> length (os_ino s ino)"
  shows "\<exists>g s'. NamedSemaphore_init environ pid addr nm initial quiet_init s =
      (Inr (g, \<lparr>fs_base = 0, fs_shared = True\<rparr>), s') \<and> gsm_buf g = Inr ino \<and> os_shm s' = os_shm s \<and>
    length (os_ino s' ino) = length (os_ino s ino) \<and> count_at (os_ino s' ino) 0 = count_at (os_ino s ino) 0 \<and>
    os_dirs s' = os_dirs (add_pid (sema_pdir environ nm) pid s)"
proof -
  note a = sema_args_ok [OF assms(1)]
  have "os_shm s (posix_of (sema_args nm)) = Some ino" "a_size (sema_args nm) \<le> int (length (os_ino s ino))"
    using assms(3,4) by (simp_all add: a)
  note i = new_attaches [OF a(1,2) this, of environ pid, unfolded a(5,6)]
  let ?g = "handle_of environ pid (sema_args nm) (os_next_fd s) ino (int (length (os_ino s ino))) False"
  have g: "64 \<le> g_size ?g" "gsm_buf ?g = Inr ino" "\<not> g_created ?g"
    using assms(4) by (simp_all add: handle_of_def gsm_buf_def)
  have "good_initial None" by (simp add: good_initial_def)
  from semaphore_on_handle [OF assms(2) g(1) assms(4) this] show ?thesis
    using g(2,3) by (auto simp: NamedSemaphore_init_def i add_pid_dirs Let_def)
qed


text \<open>What a visit does once the semaphore is open.\<close>

lemma visit_opened:
  assumes "NamedSemaphore_init environ (vi_pid v) (vi_addr v) nm (vi_initial v) ie s =
      (Inr (g, \<lparr>fs_base = 0, fs_shared = True\<rparr>), s1)"
    and "gsm_buf g = Inr ino" and "64 \<le> length (os_ino s1 ino)"
  shows "\<exists>r s'. sem_visit_exec environ nm ie v s = (Some r, s') \<and> os_shm s' = os_shm s1 \<and> os_dirs s' = os_dirs s1 \<and>
    length (os_ino s' ino) = length (os_ino s1 ino) \<and>
    counter (vi_op v) (count_at (os_ino s1 ino) 0) = (r, count_at (os_ino s' ino) 0)"
  using assms sem_op_counts [of 0 "os_ino s1 ino", where pid = "of_nat (vi_pid v)" and now = "vi_now v" and x = "vi_op v"]
  by (auto simp: sem_visit_exec_def put_ino_def split: prod.splits)


section \<open>Properties\<close>



text \<open>
  C29. The creator's initialisation of the count is not atomic with the creation of the segment: there is a
  state \<open>x\<close> in between in which another process can open the semaphore and post \<open>n\<close> tokens,
  successfully. Whatever interference leads from \<open>x\<close> to the state after that post, the creator
  then overwrites the count with its initial value, and the posted tokens are gone.
\<close>

theorem named_semaphore_creation_race:
  assumes "CHR ''/'' \<notin> set nm" and "os_shm s (CHR ''/'' # sema_shm_name nm) = None"
    and "addr mod 4 = 0" and "vi_addr w mod 4 = 0" and "0 \<le> k" and "k < 2 ^ 32"
    and "vi_op w = OpPost n" and "1 \<le> n" and "n < 2 ^ 32"
  shows "\<exists>x y ino. sem_visit_exec environ nm quiet_init w x = (Some SRetNone, y) \<and>
    unat (sm_count (sem64_at (os_ino y ino) 0)) = nat n \<and>
    (\<forall>h. h x = y \<longrightarrow>
      (\<exists>g fs s'. NamedSemaphore_init environ p addr nm (Some k) (quiet_init\<lparr>ie_before_pid := h\<rparr>) s = (Inr (g, fs), s') \<and>
        gsm_buf g = Inr ino \<and> unat (sm_count (sem64_at (os_ino s' ino) 0)) = nat k))"
proof -
  let ?i = "os_next_ino s" and ?x = "gap_state environ (sema_shm_name nm) 64 s" and ?d = "sema_pdir environ nm"
    and ?g = "handle_of environ p (sema_args nm) (os_next_fd s) (os_next_ino s) 64 True"
  have nm: "sema_shm_name nm \<noteq> []" "CHR ''/'' \<notin> set (sema_shm_name nm)" "(0 :: nat) < 64"
    using assms(1) by (simp_all add: sema_shm_name_def)
  have x: "os_shm ?x (sema_path nm) = Some ?i" "os_ino ?x ?i = replicate 64 0"
    by (simp_all add: gap_state_def)
  then have "64 \<le> length (os_ino ?x ?i)" by simp
  from sema_attach [OF assms(1,4) x(1) this, of environ "vi_pid w" "vi_initial w"] obtain g1 s1 where
    o: "NamedSemaphore_init environ (vi_pid w) (vi_addr w) nm (vi_initial w) quiet_init ?x =
      (Inr (g1, \<lparr>fs_base = 0, fs_shared = True\<rparr>), s1)" "gsm_buf g1 = Inr ?i"
    "length (os_ino s1 ?i) = 64" "count_at (os_ino s1 ?i) 0 = count_at (replicate 64 0) 0"
    "os_dirs s1 = os_dirs (add_pid ?d (vi_pid w) ?x)" using x(2) by auto
  have z: "count_at (replicate 64 0) 0 = 0" by (simp add: sem64_at_def u32_at_def pyslice_def sem_layout)
  have "64 \<le> length (os_ino s1 ?i)" using o(3) by simp
  from visit_opened [OF o(1,2) this] obtain r y where
    y: "sem_visit_exec environ nm quiet_init w ?x = (Some r, y)" "os_dirs y = os_dirs s1"
    "length (os_ino y ?i) = 64" "counter (OpPost n) 0 = (r, count_at (os_ino y ?i) 0)"
    using o(3,4) z assms(7) by auto
  have "n mod 2 ^ 64 = n" using assms(8,9) by simp
  then have "counter (OpPost n) 0 = (SRetNone, nat n)" using assms(8,9) by (simp add: Let_def nat_less_iff not_le)
  with y(4) have r: "r = SRetNone" "count_at (os_ino y ?i) 0 = nat n" by simp_all
  obtain fs where "os_dirs y ?d = Some fs" using y(2) o(5) by (simp add: add_pid_dirs)
  then obtain y' where t: "os_touch ?d (str_nat p) y = (Inr (), y')" "os_ino y' = os_ino y"
    by (simp add: os_touch_def)
  have g: "64 \<le> g_size ?g" "gsm_buf ?g = Inr ?i" "g_created ?g" by (simp_all add: handle_of_def gsm_buf_def)
  have l: "64 \<le> length (os_ino y ?i)" "good_initial (Some k)" using y(3) assms(5,6) by (simp_all add: good_initial_def)
  from semaphore_on_handle [OF assms(3) g(1) l] obtain mem' where
    m: "FutexSemaphore_init (map_view addr ?g) (Some k) True (os_ino y ?i) = (Inr \<lparr>fs_base = 0, fs_shared = True\<rparr>, mem')"
    "count_at mem' 0 = nat k" by auto
  have "\<exists>g fs s'. NamedSemaphore_init environ p addr nm (Some k) (quiet_init\<lparr>ie_before_pid := h\<rparr>) s = (Inr (g, fs), s') \<and>
      gsm_buf g = Inr ?i \<and> count_at (os_ino s' ?i) 0 = nat k" if "h ?x = y" for h
    using create_with_gap [OF nm assms(2), of environ p h, unfolded of_nat_numeral] that t g(2,3) m
    by (simp add: NamedSemaphore_init_def Let_def)
  then show ?thesis using y(1) r by blast
qed

theorem named_semaphore_creation_race_witness:
  "\<exists>x y ino s' g fs. sem_visit_exec None ''s'' quiet_init
      \<lparr>vi_pid = 8, vi_addr = 8192, vi_initial = None, vi_now = 1, vi_op = OpPost 3\<rparr> x = (Some SRetNone, y) \<and>
    NamedSemaphore_init None 7 4096 ''s'' (Some 1) (quiet_init\<lparr>ie_before_pid := (\<lambda>z. y)\<rparr>) os_empty = (Inr (g, fs), s') \<and>
    unat (sm_count (sem64_at (os_ino s' ino) 0)) = 1"
proof -
  let ?w = "\<lparr>vi_pid = 8, vi_addr = 8192, vi_initial = None, vi_now = 1, vi_op = OpPost 3\<rparr>"
  have "CHR ''/'' \<notin> set ''s''" "os_shm os_empty (CHR ''/'' # sema_shm_name ''s'') = None"
    "(4096 :: nat) mod 4 = 0" "vi_addr ?w mod 4 = 0" "(0 :: int) \<le> 1" "(1 :: int) < 2 ^ 32"
    "vi_op ?w = OpPost 3" "(1 :: int) \<le> 3" "(3 :: int) < 2 ^ 32" by (simp_all add: os_empty_def)
  from named_semaphore_creation_race [OF this, of None 7] obtain x y ino where
    "sem_visit_exec None ''s'' quiet_init ?w x = (Some SRetNone, y)" and
    c: "\<forall>h. h x = y \<longrightarrow> (\<exists>g fs s'. NamedSemaphore_init None 7 4096 ''s'' (Some 1) (quiet_init\<lparr>ie_before_pid := h\<rparr>)
        os_empty = (Inr (g, fs), s') \<and> gsm_buf g = Inr ino \<and> unat (sm_count (sem64_at (os_ino s' ino) 0)) = nat 1)"
    by blast
  from c [rule_format, of "\<lambda>z. y"] obtain g fs s' where
    "NamedSemaphore_init None 7 4096 ''s'' (Some 1) (quiet_init\<lparr>ie_before_pid := (\<lambda>z. y)\<rparr>) os_empty = (Inr (g, fs), s')"
    "unat (sm_count (sem64_at (os_ino s' ino) 0)) = 1" by auto
  with \<open>sem_visit_exec None ''s'' quiet_init ?w x = (Some SRetNone, y)\<close> show ?thesis by blast
qed

end
