(* ===== verification/Gsm_Rely.thy ===== *)
theory Gsm_Rely
  imports Gsm_System
begin

text \<open>
  An open handle under the calls of other processes, at the granularity of system calls: a rely
  condition on the moves of others, and the proof that the constructor and \<open>close\<close> of any other
  process satisfy it, when the moves between their own system calls do. So they may be put between the
  system calls of each other.
\<close>

section \<open>The rely condition\<close>


definition os_frame :: "os \<Rightarrow> os \<Rightarrow> bool" where
  \<comment> \<open>numbers of segments and descriptors are not used again, a descriptor is not bound anew\<close>
  "os_frame s s' \<longleftrightarrow> os_next_fd s \<le> os_next_fd s' \<and> os_next_ino s \<le> os_next_ino s' \<and>
     (\<forall>fd < os_next_fd s. os_fds s' fd = None \<or> os_fds s' fd = os_fds s fd) \<and> (os_wf s \<longrightarrow> os_wf s')"


lemma os_frame_refl [simp]: "os_frame s s"
  by (simp add: os_frame_def)








section \<open>System calls of another process\<close>












section \<open>The constructor and \<open>close\<close> of another process\<close>

















section \<open>The moves of others\<close>








section \<open>Properties\<close>



end
