(* ===== verification/Mutex_Progress.thy ===== *)
theory Mutex_Progress
  imports Mutex_Safety
begin

text \<open>
  Progress of the mutex: whenever nobody holds the lock and somebody wants it, some thread can take it
  within four actions. Combines exclusion (a free lock has state 0), the wake-up guarantee and an invariant
  on the program points of the methods.
\<close>

section \<open>Program points\<close>

fun pc_valid :: "mx_pc \<Rightarrow> bool" where
  \<comment> \<open>the points that each method has\<close>
  "pc_valid (Out r) = True"
| "pc_valid (Acq Acquire p) = (\<forall>i. p \<noteq> ASpin i \<and> p \<noteq> ASpinCas i)"
| "pc_valid (Acq (AcquireNs timeout_ns spin) p) =
     (p \<noteq> ACheck \<and> (timeout_ns = 0 \<longrightarrow> p \<noteq> AXchg \<and> p \<noteq> AWait \<and> p \<noteq> ASleep))"
| "pc_valid (Acq TryAcquire p) = (p = ACas \<or> p = AOwner \<or> p = AStamp)"
| "pc_valid (Acq Enter p) = (p \<noteq> ACheck)"
| "pc_valid (Rel f p) = (f \<longrightarrow> p \<noteq> RCheck)"

lemma entry_valid: "pc_valid (mx_entry c)"
  by (cases c rule: mx_entry.cases) auto

lemmas valid_simps = mx_action_defs Let_def

lemma acquire_valid:
  "FutexMutex_acquire_fast p env t pc m = Some (pc', m') \<Longrightarrow> pc_valid (Acq Acquire pc) \<Longrightarrow> pc_valid pc'"
  "FutexMutex_try_acquire p env t pc m = Some (pc', m') \<Longrightarrow> pc_valid (Acq TryAcquire pc) \<Longrightarrow> pc_valid pc'"
  "FutexMutex_enter p env t pc m = Some (pc', m') \<Longrightarrow> pc_valid (Acq Enter pc) \<Longrightarrow> pc_valid pc'"
  "FutexMutex_acquire_ns tmo spin p env t pc m = Some (pc', m') \<Longrightarrow>
    pc_valid (Acq (AcquireNs tmo spin) pc) \<Longrightarrow> pc_valid pc'"
  by (cases pc; auto simp: valid_simps split: if_splits option.splits fut_event.splits)+

lemma release_valid:
  "FutexMutex_release wk p t pc m = Some (pc', m') \<Longrightarrow> pc_valid pc'"
  "FutexMutex_force_release wk t pc m = Some (pc', m') \<Longrightarrow> pc_valid pc'"
  by (cases pc; auto split: if_splits)+

lemma pc_step_valid:
  assumes "mx_pc_step wk p env t pc m = Some (pc', m')" and "pc_valid pc"
  shows "pc_valid pc'"
  using assms
  by (cases "(wk, p, env, t, pc, m)" rule: mx_pc_step.cases)
    (auto intro: acquire_valid release_valid simp del: pc_valid.simps)

interpretation mx_points: inductive_invariant mx_init "mx_step policy wk pid" "\<lambda>s. \<forall>t. pc_valid (ms_pc s t)"
  for policy wk pid
proof unfold_locales
  show "\<forall>t. pc_valid (ms_pc s t)" if "mx_init s" for s using that by (simp add: mx_init_def)
next
  fix s s' assume inv: "\<forall>t. pc_valid (ms_pc s t)" and "mx_step policy wk pid s s'"
  then obtain e where ex: "mx_exec wk pid e s = Some s'" by (auto elim: mx_step.cases)
  show "\<forall>t. pc_valid (ms_pc s' t)"
  proof (cases e)
    case (EvCall t c)
    with ex inv show ?thesis by (auto simp: entry_valid split: mx_pc.splits)
  next
    case (EvStep t env)
    with ex inv show ?thesis by (auto simp: with_mem_def dest: pc_step_valid)
  qed
qed

section \<open>A thread that takes a free lock\<close>

fun seeking :: "mx_pc \<Rightarrow> bool" where
  \<comment> \<open>inside an acquisition that does not give up by itself when the lock is free\<close>
  "seeking (Acq a ACas) = True"
| "seeking (Acq a (ASpinCas i)) = True"
| "seeking (Acq a AXchg) = True"
| "seeking (Acq a AWait) = True"
| "seeking (Acq a ASleep) = True"
| "seeking (Acq (AcquireNs timeout_ns spin) (ASpin i)) = (timeout_ns \<noteq> 0)"
| "seeking (Acq a (ASpin i)) = True"
| "seeking pc = False"

abbreviation solo :: "tid \<Rightarrow> nat \<Rightarrow> mx_event list" where
  "solo t n \<equiv> replicate n (EvStep t calm)"

lemma mx_run_append:
  "mx_run wk pid (xs @ ys) s = Option.bind (mx_run wk pid xs s) (mx_run wk pid ys)"
  by (induction xs arbitrary: s) (auto split: Option.bind_split)

lemmas solo_simps = mx_action_defs calm_def with_mem_def mx_mem.truncate_def Let_def numeral_2_eq_2

lemma seeker_takes_lock:
  assumes "mx_state (ms_hdr s) = 0" and "seeking (ms_pc s t)" and "pc_valid (ms_pc s t)" and "t \<notin> set (ms_queue s)"
  shows "\<exists>n s'. n \<le> 2 \<and> mx_run wk pid (solo t n) s = Some s' \<and> ms_holds s' t"
proof -
  have one: ?thesis if "\<exists>s'. mx_run wk pid (solo t 1) s = Some s' \<and> ms_holds s' t"
    using that by (intro exI [of _ 1]) auto
  have two: ?thesis if "\<exists>s'. mx_run wk pid (solo t 2) s = Some s' \<and> ms_holds s' t"
    using that by (intro exI [of _ 2]) auto
  from assms(2) obtain a p where pc: "ms_pc s t = Acq a p" by (cases "ms_pc s t" rule: seeking.cases) auto
  show ?thesis
  proof (cases p)
    case ACas
    with pc assms show ?thesis by (intro one) (cases a; simp add: solo_simps)
  next
    case (ASpin i)
    with pc assms show ?thesis by (intro two) (cases a; simp add: solo_simps)
  next
    case (ASpinCas i)
    with pc assms show ?thesis by (intro one) (cases a; simp add: solo_simps)
  next
    case AXchg
    with pc assms show ?thesis by (intro one) (cases a; simp add: solo_simps)
  next
    case AWait
    with pc assms show ?thesis by (intro two) (cases a; simp add: solo_simps)
  next
    case ASleep
    with pc assms show ?thesis by (intro two) (cases a; simp add: solo_simps)
  qed (use pc assms(2) in auto)
qed

text \<open>A thread that has given the lock back and not yet woken a sleeper wakes one.\<close>

context futex_kernel begin

lemma pending_wakes:
  assumes "phase_of (ms_pc s u) = PPending 2" and "wake_inv s" and "ms_queue s \<noteq> []"
  shows "\<exists>n s' t. n \<le> 2 \<and> mx_run wk pid (solo u n) s = Some s' \<and> mx_state (ms_hdr s') = mx_state (ms_hdr s) \<and>
    t \<notin> set (ms_queue s') \<and> ms_pc s' t = ms_pc s t \<and> phase_of (ms_pc s t) = PSleep"
proof -
  from assms(2,3) obtain t where t: "t \<in> set (ms_queue s)" "t \<notin> set (wk 1 (ms_queue s))" "phase_of (ms_pc s t) = PSleep"
    using wake_some [of "ms_queue s" 1] by (auto simp: wake_inv_def)
  then have "t \<noteq> u" using assms(1) by auto
  from assms(1) obtain f where "ms_pc s u = Rel f (RClear 2) \<or> ms_pc s u = Rel f (RWake 2)"
    by (cases "ms_pc s u" rule: phase_of.cases) auto
  then show ?thesis
  proof
    assume "ms_pc s u = Rel f (RClear 2)"
    with t \<open>t \<noteq> u\<close> show ?thesis
      by (intro exI [of _ 2]) (cases f; auto simp: with_mem_def mx_mem.truncate_def numeral_2_eq_2)
  next
    assume "ms_pc s u = Rel f (RWake 2)"
    with t \<open>t \<noteq> u\<close> show ?thesis
      by (intro exI [of _ 1]) (cases f; auto simp: with_mem_def mx_mem.truncate_def)
  qed
qed

lemma free_lock_taken:
  assumes "mx_state (ms_hdr s) = 0" and "wake_inv s" and "\<forall>t. pc_valid (ms_pc s t)" and "seeking (ms_pc s t)"
  shows "\<exists>u v m n s'. m \<le> 2 \<and> n \<le> 2 \<and> mx_run wk pid (solo u m @ solo v n) s = Some s' \<and> ms_holds s' v"
proof -
  have self: ?thesis if "seeking (ms_pc s v)" "v \<notin> set (ms_queue s)" for v
  proof -
    from seeker_takes_lock [OF assms(1) that(1) _ that(2), of wk pid] assms(3) obtain n s' where
      "n \<le> 2" "mx_run wk pid (solo v n) s = Some s'" "ms_holds s' v" by blast
    then show ?thesis by (intro exI [of _ v] exI [of _ v] exI [of _ "0 :: nat"] exI [of _ n] exI [of _ s']) simp
  qed
  have sleeping: "seeking pc" if "phase_of pc = PSleep" for pc using phase_sleep [OF that] by auto
  show ?thesis
  proof (cases "t \<in> set (ms_queue s)")
    case False
    then show ?thesis using assms(4) by (rule self [rotated])
  next
    case True
    then have "ms_queue s \<noteq> []" by auto
    with assms(1,2) obtain u where u: "on_duty (ms_queue s) u (phase_of (ms_pc s u))" by (auto simp: wake_inv_def)
    then consider (retry) "phase_of (ms_pc s u) = PRetry" | (woken) "phase_of (ms_pc s u) = PSleep" "u \<notin> set (ms_queue s)"
      | (pending) "phase_of (ms_pc s u) = PPending 2"
      by (cases "phase_of (ms_pc s u)") auto
    then show ?thesis
    proof cases
      case retry
      then have "u \<notin> set (ms_queue s)" using assms(2) by (auto simp: wake_inv_def)
      moreover have "seeking (ms_pc s u)" using retry by (cases "ms_pc s u" rule: phase_of.cases) auto
      ultimately show ?thesis by (intro self)
    next
      case woken
      then show ?thesis using sleeping by (intro self) auto
    next
      case pending
      from pending_wakes [OF this assms(2) \<open>ms_queue s \<noteq> []\<close>, of pid] obtain m s1 v where
        s1: "m \<le> 2" "mx_run wk pid (solo u m) s = Some s1" "mx_state (ms_hdr s1) = 0" "v \<notin> set (ms_queue s1)"
        "ms_pc s1 v = ms_pc s v" "phase_of (ms_pc s v) = PSleep" using assms(1) by auto
      then have "seeking (ms_pc s1 v)" "pc_valid (ms_pc s1 v)" using sleeping assms(3) by auto
      from seeker_takes_lock [OF s1(3) this s1(4), of wk pid] obtain n s' where
        "n \<le> 2" "mx_run wk pid (solo v n) s1 = Some s'" "ms_holds s' v" by blast
      with s1(1,2) show ?thesis
        by (intro exI [of _ u] exI [of _ v] exI [of _ m] exI [of _ n] exI [of _ s']) (simp add: mx_run_append)
    qed
  qed
qed

end

section \<open>Properties\<close>

text \<open>
  C11. The mutex does not deadlock: in every state that clients who release only what they hold can reach, if
  nobody holds the lock and some thread is in an acquisition that waits for it, spinning, about to sleep,
  asleep or woken, then a thread can take the lock within four actions: at most two of a thread that still
  has to wake a sleeper, and at most two of the thread that takes it.
\<close>

theorem mutex_deadlock_free:
  assumes "futex_kernel wk" and "mx_reach releases_own wk pid s"
    and "\<forall>u. \<not> ms_holds s u" and "seeking (ms_pc s t)"
  shows "\<exists>u v m n s'. m \<le> 2 \<and> n \<le> 2 \<and> mx_run wk pid (solo u m @ solo v n) s = Some s' \<and> ms_holds s' v"
proof -
  have "excl_inv s" using assms(2) by (rule mx_excl.reach_inv)
  then have "mx_state (ms_hdr s) = 0" using assms(3) by (auto simp: excl_inv_def lockview_of_def)
  moreover have "wake_inv s" using futex_kernel.mx_wake_reach [OF assms(1,2)] .
  moreover have "\<forall>t. pc_valid (ms_pc s t)" using assms(2) by (rule mx_points.reach_inv)
  ultimately show ?thesis using futex_kernel.free_lock_taken [OF assms(1)] assms(4) by blast
qed

text \<open>Thread 1 sleeps on the lock of thread 0, which gives it back and has not woken it yet.\<close>

definition handover_run :: "mx_event list" where
  "handover_run = sleep_run @ [EvCall 0 CallRelease, EvStep 0 calm, EvStep 0 calm]"

lemma handover_run_start:
  "\<exists>s. mx_run fifo_wake (\<lambda>t. of_nat (Suc t)) handover_run mx_start = Some s \<and>
     obeys releases_own fifo_wake (\<lambda>t. of_nat (Suc t)) handover_run mx_start \<and> ms_queue s = [1] \<and>
     (\<forall>u. \<not> ms_holds s u) \<and> ms_pc s 1 = Acq Acquire ASleep"
  by (simp add: handover_run_def sleep_run_def acquire_run_def mx_eval give_back_def)

theorem mutex_deadlock_free_witness:
  "\<exists>(s :: mx_sys) u v m n s'. ms_queue s = [1] \<and> m \<le> 2 \<and> n \<le> 2 \<and>
    mx_run fifo_wake (\<lambda>t. of_nat (Suc t)) (solo u m @ solo v n) s = Some s' \<and> ms_holds s' v"
proof -
  obtain s where s: "mx_run fifo_wake (\<lambda>t. of_nat (Suc t)) handover_run mx_start = Some s"
    "obeys releases_own fifo_wake (\<lambda>t. of_nat (Suc t)) handover_run mx_start" "ms_queue s = [1]"
    "\<forall>u. \<not> ms_holds s u" "ms_pc s 1 = Acq Acquire ASleep" using handover_run_start by blast
  have "mx_reach releases_own fifo_wake (\<lambda>t. of_nat (Suc t)) s" using obeys_reach [OF mx_start_reach s(2,1)] .
  from mutex_deadlock_free [OF fifo.futex_kernel_axioms this s(4), of 1] s(5) have
    "\<exists>u v m n s'. m \<le> 2 \<and> n \<le> 2 \<and> mx_run fifo_wake (\<lambda>t. of_nat (Suc t)) (solo u m @ solo v n) s = Some s' \<and> ms_holds s' v"
    by (simp only: seeking.simps simp_thms)
  with s(3) show ?thesis by blast
qed

end
