(* ===== verification/Named_Event.thy ===== *)
theory Named_Event
  imports Named_Semaphore
begin

text \<open>
  A named event between processes, on the bytes of its segment: a process that attaches sees the state
  that is there, but the creator clears the event after the segment can be found under its name, so a
  \<open>set\<close> in between is lost.
\<close>

section \<open>Clients\<close>

definition open_and_set :: "string option \<Rightarrow> nat \<Rightarrow> nat \<Rightarrow> string \<Rightarrow> init_env \<Rightarrow> os \<Rightarrow> nat option \<times> os" where
  \<comment> \<open>\<open>NamedEvent(nm).set()\<close> without sleepers: the segment that is set\<close>
  "open_and_set environ pid addr nm ie s =
     (case NamedEvent_init environ pid addr nm ie s of
        (Inl e, s1) \<Rightarrow> (None, s1)
      | (Inr (g, fw), s1) \<Rightarrow>
          (case gsm_buf g of
             Inl e \<Rightarrow> (None, s1)
           | Inr ino \<Rightarrow> (Some ino, put_ino ino (FutexWord_store_release fw 1 (os_ino s1 ino)) s1)))"

definition event_is_set :: "os \<Rightarrow> nat \<Rightarrow> bool" where
  "event_is_set s ino \<longleftrightarrow> FutexWord_load_acquire \<lparr>fw_uaddr = 0, fw_shared = True\<rparr> (os_ino s ino) \<noteq> 0"

section \<open>Lemmas\<close>

abbreviation event_args :: "string \<Rightarrow> gsm_args" where
  "event_args nm \<equiv> gsm_args_of (event_shm_name nm) 4"

abbreviation event_path :: "string \<Rightarrow> string" where
  "event_path nm \<equiv> CHR ''/'' # event_shm_name nm"

abbreviation event_pdir :: "string option \<Rightarrow> string \<Rightarrow> string" where
  "event_pdir environ nm \<equiv> pdir_of environ ''/dev/shm/fastipc'' (event_shm_name nm)"

lemma event_args_ok:
  assumes "CHR ''/'' \<notin> set nm"
  shows "good_args (event_args nm)" "1 \<le> a_max_attempts (event_args nm)"
    "a_size (event_args nm) = 4" "a_name (event_args nm) = event_shm_name nm"
    "a_pid_dir (event_args nm) = ''/dev/shm/fastipc''"
  using assms by (simp_all add: good_args_def gsm_args_of_def event_shm_name_def)

lemma word_on_handle:
  assumes "addr mod 4 = 0" and "4 \<le> g_size g"
  shows "FutexWord_init (map_view addr g) True = Inr \<lparr>fw_uaddr = 0, fw_shared = True\<rparr>"
proof -
  have "4 \<le> nat (g_size g)" using assms(2) by linarith
  then show ?thesis using assms(1) by (simp add: FutexWord_init_def map_view_def v_addr_def)
qed

lemma event_attach:
  assumes "CHR ''/'' \<notin> set nm" and "addr mod 4 = 0" and "os_shm s (event_path nm) = Some ino"
    and "4 \<le> length (os_ino s ino)"
  shows "\<exists>g s'. NamedEvent_init environ pid addr nm quiet_init s =
      (Inr (g, \<lparr>fw_uaddr = 0, fw_shared = True\<rparr>), s') \<and> gsm_buf g = Inr ino \<and> os_ino s' = os_ino s \<and>
    os_shm s' = os_shm s \<and> os_dirs s' = os_dirs (add_pid (event_pdir environ nm) pid s)"
proof -
  note a = event_args_ok [OF assms(1)]
  have "os_shm s (posix_of (event_args nm)) = Some ino" "a_size (event_args nm) \<le> int (length (os_ino s ino))"
    using assms(3,4) by (simp_all add: a)
  note i = new_attaches [OF a(1,2) this, of environ pid, unfolded a(4,5)]
  let ?g = "handle_of environ pid (event_args nm) (os_next_fd s) ino (int (length (os_ino s ino))) False"
  have g: "4 \<le> g_size ?g" "gsm_buf ?g = Inr ino" "\<not> g_created ?g"
    using assms(4) by (simp_all add: handle_of_def gsm_buf_def)
  show ?thesis using word_on_handle [OF assms(2) g(1)] g(2,3) by (simp add: NamedEvent_init_def i add_pid_dirs)
qed

lemma store_load_word:
  assumes "4 \<le> length mem"
  shows "FutexWord_load_acquire \<lparr>fw_uaddr = 0, fw_shared = True\<rparr>
      (FutexWord_store_release \<lparr>fw_uaddr = 0, fw_shared = True\<rparr> v mem) = uint (arg_I v)"
    and "length (FutexWord_store_release \<lparr>fw_uaddr = 0, fw_shared = True\<rparr> v mem) = length mem"
  using assms by (simp_all add: FutexWord_load_acquire_def FutexWord_store_release_def buf_simps)

lemma event_set_attached:
  assumes "CHR ''/'' \<notin> set nm" and "addr mod 4 = 0" and "os_shm s (event_path nm) = Some ino"
    and "4 \<le> length (os_ino s ino)"
  shows "\<exists>s'. open_and_set environ pid addr nm quiet_init s = (Some ino, s') \<and> event_is_set s' ino \<and>
    length (os_ino s' ino) = length (os_ino s ino) \<and> os_shm s' = os_shm s \<and>
    os_dirs s' = os_dirs (add_pid (event_pdir environ nm) pid s)"
proof -
  from event_attach [OF assms, of environ pid] obtain g s1 where
    g: "NamedEvent_init environ pid addr nm quiet_init s = (Inr (g, \<lparr>fw_uaddr = 0, fw_shared = True\<rparr>), s1)"
    "gsm_buf g = Inr ino" "os_ino s1 = os_ino s" "os_shm s1 = os_shm s"
    "os_dirs s1 = os_dirs (add_pid (event_pdir environ nm) pid s)" by blast
  then show ?thesis using store_load_word [OF assms(4), of 1]
    by (simp add: open_and_set_def event_is_set_def put_ino_def arg_I_def)
qed

section \<open>Properties\<close>

text \<open>
  C31. The creator clears a named event after others can find it: there is a state \<open>x\<close>, between the
  creation of the segment and the end of the constructor, in which another process can open the event and
  set it. Whatever interference leads from \<open>x\<close> to the state after that \<open>set\<close>, the
  constructor of the creator then clears the event: both processes have it open, \<open>set\<close> has
  returned, and the event is not set.
\<close>

theorem named_event_creation_race:
  assumes "CHR ''/'' \<notin> set nm" and "os_shm s (CHR ''/'' # event_shm_name nm) = None"
    and "addr mod 4 = 0" and "addr' mod 4 = 0"
  shows "\<exists>x y ino. open_and_set environ q addr' nm quiet_init x = (Some ino, y) \<and> event_is_set y ino \<and>
    (\<forall>h. h x = y \<longrightarrow>
      (\<exists>g fw s'. NamedEvent_init environ p addr nm (quiet_init\<lparr>ie_before_pid := h\<rparr>) s = (Inr (g, fw), s') \<and>
        gsm_buf g = Inr ino \<and> \<not> event_is_set s' ino))"
proof -
  let ?i = "os_next_ino s" and ?x = "gap_state environ (event_shm_name nm) 4 s" and ?d = "event_pdir environ nm"
    and ?g = "handle_of environ p (event_args nm) (os_next_fd s) (os_next_ino s) 4 True"
  have nm: "event_shm_name nm \<noteq> []" "CHR ''/'' \<notin> set (event_shm_name nm)" "(0 :: nat) < 4"
    using assms(1) by (simp_all add: event_shm_name_def)
  have x: "os_shm ?x (event_path nm) = Some ?i" "os_ino ?x ?i = replicate 4 0"
    by (simp_all add: gap_state_def)
  then have "4 \<le> length (os_ino ?x ?i)" by simp
  from event_set_attached [OF assms(1,4) x(1) this, of environ q] obtain y where
    y: "open_and_set environ q addr' nm quiet_init ?x = (Some ?i, y)" "event_is_set y ?i"
    "length (os_ino y ?i) = 4" "os_dirs y = os_dirs (add_pid ?d q ?x)" using x(2) by auto
  obtain fs where "os_dirs y ?d = Some fs" using y(4) by (simp add: add_pid_dirs)
  then obtain y' where t: "os_touch ?d (str_nat p) y = (Inr (), y')" "os_ino y' = os_ino y"
    by (simp add: os_touch_def)
  have g: "4 \<le> g_size ?g" "gsm_buf ?g = Inr ?i" "g_created ?g" by (simp_all add: handle_of_def gsm_buf_def)
  have l: "4 \<le> length (os_ino y ?i)" using y(3) by simp
  have "\<exists>g fw s'. NamedEvent_init environ p addr nm (quiet_init\<lparr>ie_before_pid := h\<rparr>) s = (Inr (g, fw), s') \<and>
      gsm_buf g = Inr ?i \<and> \<not> event_is_set s' ?i" if "h ?x = y" for h
    using create_with_gap [OF nm assms(2), of environ p h, unfolded of_nat_numeral] that t g(2,3)
      word_on_handle [OF assms(3) g(1)] store_load_word(1) [OF l, of 0]
    by (simp add: NamedEvent_init_def event_is_set_def arg_I_def)
  with y(1,2) show ?thesis by blast
qed

theorem named_event_creation_race_witness:
  "\<exists>x y ino s' g fw. open_and_set None 8 8192 ''e'' quiet_init x = (Some ino, y) \<and> event_is_set y ino \<and>
    NamedEvent_init None 7 4096 ''e'' (quiet_init\<lparr>ie_before_pid := (\<lambda>z. y)\<rparr>) os_empty = (Inr (g, fw), s') \<and>
    \<not> event_is_set s' ino"
proof -
  have "CHR ''/'' \<notin> set ''e''" "os_shm os_empty (CHR ''/'' # event_shm_name ''e'') = None"
    "(4096 :: nat) mod 4 = 0" "(8192 :: nat) mod 4 = 0" by (simp_all add: os_empty_def)
  from named_event_creation_race [OF this, of None 8 7] obtain x y ino where
    q: "open_and_set None 8 8192 ''e'' quiet_init x = (Some ino, y)" "event_is_set y ino" and
    c: "\<forall>h. h x = y \<longrightarrow> (\<exists>g fw s'. NamedEvent_init None 7 4096 ''e'' (quiet_init\<lparr>ie_before_pid := h\<rparr>) os_empty =
        (Inr (g, fw), s') \<and> gsm_buf g = Inr ino \<and> \<not> event_is_set s' ino)" by blast
  from c [rule_format, of "\<lambda>z. y"] q show ?thesis by blast
qed

end
