(* ===== verification/Package.thy ===== *)
theory Package
  imports Loader
begin

text \<open>
  How the package is built and imported: \<open>setup.py\<close>, the initialisation of the C module, the
  statements that the modules execute at import, and Python's import of a dotted module on top of
  \<open>sys.modules\<close>, in which a module is entered before its body runs, so that circular imports see
  a module that is not complete.

  \<open>setuptools.find_packages\<close>, the modules of the standard library, \<open>numpy\<close> and
  \<open>optree\<close> are parameters. The body of a module is its imports and the names that it binds, in
  the order of the file. The name that \<open>import x\<close> binds in the importing module and the attribute
  for a submodule in its package are left out, since no file imports such a name from another one; a module
  outside the package has no parent here; the state after a failed import is not modelled,
  and the right-hand side of an assignment does not fail, apart from the binding of the two C functions.
\<close>

section \<open>Building\<close>

record Extension =
  ext_name :: string
  ext_sources :: "string list"
  ext_define_macros :: "(string \<times> string) list"
  ext_compile_args :: "string list"
  ext_link_args :: "string list"
  ext_libraries :: "string list"

record distribution =
  dist_name :: string
  dist_python_requires :: string
  dist_ext_modules :: "Extension list"
  dist_package_dir :: "(string \<times> string) list"
  dist_packages :: "string list"
  dist_zip_safe :: bool

definition need_latomic_arch :: "string list" where
  "need_latomic_arch = [''aarch64'', ''armv7l'', ''ppc64le'', ''riscv64'', ''s390x'']"

definition primitives_ext :: "string \<Rightarrow> Extension" where
  "primitives_ext machine =
     \<lparr>ext_name = ''fastipc._primitives._primitives'',
      ext_sources = [''src/fastipc/_primitives/_primitives.c''],
      ext_define_macros = [(''_GNU_SOURCE'', ''1'')],
      ext_compile_args = [''-O3'', ''-std=c11'', ''-fvisibility=hidden'', ''-Wall'', ''-Wextra'', ''-flto''],
      ext_link_args = [''-flto''],
      ext_libraries = (if machine \<in> set need_latomic_arch then [''atomic''] else [])\<rparr>"

definition setup_py :: "string \<Rightarrow> string \<Rightarrow> (string \<Rightarrow> string list) \<Rightarrow> string + distribution" where
  \<comment> \<open>\<open>sys.platform\<close>, \<open>platform.machine()\<close>; \<open>Inl\<close>: the message of \<open>SystemExit\<close>\<close>
  "setup_py platform machine find_packages =
     (if platform \<noteq> ''linux'' then Inl ''This package is Linux-only (uses linux/futex.h).''
      else Inr
        \<lparr>dist_name = ''fastipc'', dist_python_requires = ''>=3.9'',
         dist_ext_modules = [primitives_ext machine], dist_package_dir = [('''', ''src'')],
         dist_packages = find_packages ''src'', dist_zip_safe = False\<rparr>)"

section \<open>Modules\<close>

datatype module =
    PyFastipc | PyUtils | PyGsm
  | PySync | PyNamedEvent | PyNamedMutex | PyNamedSemaphore
  | PyPrimitives | PyPrimitivesC
  | PyData | PyHistory | PyQueue
  | PyNptree | PySchema
  | External string

fun parent :: "module \<Rightarrow> module option" where
  "parent PyUtils = Some PyFastipc"
| "parent PyGsm = Some PyFastipc"
| "parent PySync = Some PyFastipc"
| "parent PyNamedEvent = Some PySync"
| "parent PyNamedMutex = Some PySync"
| "parent PyNamedSemaphore = Some PySync"
| "parent PyPrimitives = Some PyFastipc"
| "parent PyPrimitivesC = Some PyPrimitives"
| "parent PyData = Some PyFastipc"
| "parent PyHistory = Some PyData"
| "parent PyQueue = Some PyData"
| "parent PyNptree = Some PyFastipc"
| "parent PySchema = Some PyNptree"
| "parent m = None"

fun package_of :: "module \<Rightarrow> string" where
  \<comment> \<open>the package whose directory holds the module's file\<close>
  "package_of PySync = ''fastipc.sync''"
| "package_of PyNamedEvent = ''fastipc.sync''"
| "package_of PyNamedMutex = ''fastipc.sync''"
| "package_of PyNamedSemaphore = ''fastipc.sync''"
| "package_of PyPrimitives = ''fastipc._primitives''"
| "package_of PyPrimitivesC = ''fastipc._primitives''"
| "package_of PyData = ''fastipc.data''"
| "package_of PyHistory = ''fastipc.data''"
| "package_of PyQueue = ''fastipc.data''"
| "package_of PyNptree = ''fastipc.nptree''"
| "package_of PySchema = ''fastipc.nptree''"
| "package_of m = ''fastipc''"

datatype stmt =
    ImportModule module
  | FromImport module "string list"
  | Define string          \<comment> \<open>a function, a class or an assignment\<close>
  | BindPosixShm           \<comment> \<open>look the library up, bind its two functions\<close>

section \<open>The files\<close>

definition utils_py :: "stmt list" where
  "utils_py = [ImportModule (External ''os''), Define ''align_to_cacheline_size'']"

definition gsm_imports :: "stmt list" where
  "gsm_imports = map (\<lambda>m. ImportModule (External m))
      [''atexit'', ''ctypes'', ''ctypes.util'', ''errno'', ''mmap'', ''os'', ''random'', ''time''] @
     [FromImport (External ''typing'') [''Optional'']]"

definition gsm_bindings :: "stmt list" where
  "gsm_bindings = [BindPosixShm]"

definition guarded_shared_memory_py :: "stmt list" where
  "guarded_shared_memory_py = gsm_imports @ map Define [''__all__'', ''_alive'', ''_load_posix_shm_lib''] @ gsm_bindings @
     map Define [''_shm_open_wrapped'', ''_shm_unlink_wrapped'', ''NoShmFoundError'', ''GuardedSharedMemory'']"

definition named_event_py :: "stmt list" where
  "named_event_py = [FromImport (External ''__future__'') [''annotations''],
     FromImport PyPrimitives [''FutexWord''], FromImport PyGsm [''GuardedSharedMemory''], Define ''NamedEvent'']"

definition named_mutex_py :: "stmt list" where
  "named_mutex_py = [FromImport (External ''__future__'') [''annotations''], ImportModule (External ''atexit''),
     FromImport PyPrimitives [''Mutex''], FromImport PyGsm [''GuardedSharedMemory''], Define ''NamedMutex'']"

definition named_semaphore_py :: "stmt list" where
  "named_semaphore_py = [FromImport (External ''__future__'') [''annotations''],
     FromImport PyPrimitives [''Semaphore''], FromImport PyGsm [''GuardedSharedMemory''], Define ''NamedSemaphore'']"

definition named_history_buffer_py :: "stmt list" where
  "named_history_buffer_py = [FromImport (External ''__future__'') [''annotations''],
     FromImport (External ''time'') [''monotonic_ns''], FromImport PyGsm [''GuardedSharedMemory''],
     FromImport PyPrimitives [''Mutex''],
     FromImport (External ''ctypes'') [''Structure'', ''c_int64'', ''c_uint64'', ''c_ubyte'', ''sizeof''],
     Define ''NamedHistoryBufferHeader'', Define ''SlotHeader'', Define ''NamedHistoryBuffer'']"

definition named_queue_py :: "stmt list" where
  "named_queue_py =
     [FromImport (External ''ctypes'') [''Structure'', ''c_char'', ''c_int'', ''c_int64'', ''c_uint64'', ''c_ubyte'', ''sizeof''],
      FromImport (External ''functools'') [''cached_property''], FromImport PyGsm [''GuardedSharedMemory''],
      FromImport PyPrimitives [''Mutex''], Define ''align_dtype'', Define ''QueueMode'',
      Define ''NamedQueueHeader'', Define ''SlotHeader'', Define ''NamedQueue'']"

definition schema_py :: "stmt list" where
  "schema_py = [FromImport (External ''functools'') [''lru_cache''], ImportModule (External ''numpy''),
     ImportModule (External ''optree'')] @ map Define [''NumpyTree'', ''LayoutDescLeaf'', ''LayoutTree'',
       ''build_nptree_layout'', ''_parse_arr_desc'', ''calc_buffer_size'', ''validate_layout'',
       ''serialize_nptree'', ''deserialize_nptree'']"

definition primitives_names :: "string list" where
  \<comment> \<open>\<open>__all__\<close> of \<open>fastipc._primitives\<close>, and what it imports\<close>
  "primitives_names = [''AtomicU32'', ''AtomicU64'', ''FutexWord'', ''Mutex'', ''Semaphore'']"

definition primitives_init_py :: "stmt list" where
  "primitives_init_py = [FromImport PyPrimitivesC primitives_names, Define ''__all__'']"

definition sync_names :: "string list" where
  "sync_names = [''NamedEvent'', ''NamedMutex'', ''NamedSemaphore'']"

definition sync_init_py :: "stmt list" where
  "sync_init_py = [FromImport PyNamedEvent [''NamedEvent''], FromImport PyNamedMutex [''NamedMutex''],
     FromImport PyNamedSemaphore [''NamedSemaphore''], Define ''__all__'']"

definition fastipc_names :: "string list" where
  \<comment> \<open>\<open>__all__\<close> of \<open>fastipc\<close>\<close>
  "fastipc_names = [''align_to_cacheline_size'', ''GuardedSharedMemory'', ''NoShmFoundError'',
     ''NamedEvent'', ''NamedMutex'', ''NamedSemaphore'']"

definition fastipc_init_py :: "stmt list" where
  "fastipc_init_py = [FromImport PyUtils [''align_to_cacheline_size''],
     FromImport PyGsm [''GuardedSharedMemory'', ''NoShmFoundError''],
     FromImport PySync [''NamedEvent'', ''NamedMutex'', ''NamedSemaphore''], Define ''__all__'']"

fun module_source :: "module \<Rightarrow> stmt list" where
  "module_source PyFastipc = fastipc_init_py"
| "module_source PyUtils = utils_py"
| "module_source PyGsm = guarded_shared_memory_py"
| "module_source PySync = sync_init_py"
| "module_source PyNamedEvent = named_event_py"
| "module_source PyNamedMutex = named_mutex_py"
| "module_source PyNamedSemaphore = named_semaphore_py"
| "module_source PyPrimitives = primitives_init_py"
| "module_source PyHistory = named_history_buffer_py"
| "module_source PyQueue = named_queue_py"
| "module_source PySchema = schema_py"
| "module_source m = []"   \<comment> \<open>the empty \<open>__init__\<close> files\<close>

section \<open>Importing\<close>

type_synonym origin = "module \<times> string"   \<comment> \<open>where an object is defined, under which name\<close>
type_synonym namespace = "string \<rightharpoonup> origin"
type_synonym sys_modules = "module \<rightharpoonup> namespace"

datatype import_error = ModuleNotFoundError module | ImportError module string | Raised pyexc
  | InitFailed module   \<comment> \<open>the initialisation of a C module returned \<open>NULL\<close>\<close>
  | OutOfFuel

record world =
  w_dist :: "distribution option"                  \<comment> \<open>what is installed\<close>
  w_module_create :: bool                          \<comment> \<open>\<open>PyModule_Create\<close> succeeds\<close>
  w_type_ready :: "string \<Rightarrow> bool"                 \<comment> \<open>\<open>PyType_Ready\<close> succeeds\<close>
  w_external :: "string \<Rightarrow> string list option"     \<comment> \<open>other modules and their names\<close>
  w_dlopen :: loader
  w_find_library :: "string \<Rightarrow> string option"

definition PyInit__primitives :: "bool \<Rightarrow> (string \<Rightarrow> bool) \<Rightarrow> namespace option" where
  \<comment> \<open>\<open>PyModule_Create\<close>, then \<open>PyType_Ready\<close> and the addition of each of the five types\<close>
  "PyInit__primitives created ready =
     fold (\<lambda>ty m. case m of None \<Rightarrow> None
         | Some ns \<Rightarrow> if ready ty then Some (ns(ty \<mapsto> (PyPrimitivesC, ty))) else None)
       [''FutexWord'', ''AtomicU32'', ''AtomicU64'', ''Mutex'', ''Semaphore'']
       (if created then Some (\<lambda>n. None) else None)"

definition bind_posix_shm :: "world \<Rightarrow> namespace \<Rightarrow> import_error + namespace" where
  "bind_posix_shm w ns =
     (case load_posix_shm_lib (w_dlopen w) (w_find_library w) 0 of
        Inl e \<Rightarrow> Inl (Raised e)
      | Inr lib \<Rightarrow>
          (if has_symbol lib ''shm_open'' \<and> has_symbol lib ''shm_unlink''
           then Inr (ns(''_POSIX_SHM'' \<mapsto> (PyGsm, ''_POSIX_SHM''), ''_shm_open'' \<mapsto> (PyGsm, ''_shm_open''),
                        ''_shm_unlink'' \<mapsto> (PyGsm, ''_shm_unlink'')))
           else Inl (Raised AttributeError)))"

fun bind_names :: "module \<Rightarrow> namespace \<Rightarrow> string list \<Rightarrow> namespace \<Rightarrow> import_error + namespace" where
  \<comment> \<open>\<open>from x import ...\<close> with the namespace of \<open>x\<close>\<close>
  "bind_names x from_ns [] ns = Inr ns"
| "bind_names x from_ns (nm # nms) ns =
     (case from_ns nm of
        None \<Rightarrow> Inl (ImportError x nm)
      | Some ob \<Rightarrow> bind_names x from_ns nms (ns(nm \<mapsto> ob)))"

definition installed :: "world \<Rightarrow> module \<Rightarrow> bool" where
  \<comment> \<open>the finder finds a file for the module\<close>
  "installed w m =
     (case w_dist w of
        None \<Rightarrow> False
      | Some d \<Rightarrow> package_of m \<in> set (dist_packages d) \<and>
          (m = PyPrimitivesC \<longrightarrow> ''fastipc._primitives._primitives'' \<in> set (map ext_name (dist_ext_modules d))))"

function (sequential) import_module :: "world \<Rightarrow> nat \<Rightarrow> module \<Rightarrow> sys_modules \<Rightarrow> import_error + sys_modules"
  and load_module :: "world \<Rightarrow> nat \<Rightarrow> module \<Rightarrow> sys_modules \<Rightarrow> import_error + sys_modules"
  and run_module :: "world \<Rightarrow> nat \<Rightarrow> module \<Rightarrow> stmt list \<Rightarrow> sys_modules \<Rightarrow> import_error + sys_modules" where
  "import_module w 0 m st = Inl OutOfFuel"
| "import_module w (Suc n) m st =
     (if st m \<noteq> None then Inr st
      else case parent m of
        None \<Rightarrow> load_module w n m st
      | Some p \<Rightarrow>
          (case import_module w n p st of
             Inl e \<Rightarrow> Inl e
           | Inr st1 \<Rightarrow> if st1 m \<noteq> None then Inr st1 else load_module w n m st1))"
| "load_module w n (External x) st =
     (case w_external w x of
        None \<Rightarrow> Inl (ModuleNotFoundError (External x))
      | Some names \<Rightarrow> Inr (st(External x \<mapsto> (\<lambda>nm. if nm \<in> set names then Some (External x, nm) else None))))"
| "load_module w n PyPrimitivesC st =
     (if \<not> installed w PyPrimitivesC then Inl (ModuleNotFoundError PyPrimitivesC)
      else case PyInit__primitives (w_module_create w) (w_type_ready w) of
        None \<Rightarrow> Inl (InitFailed PyPrimitivesC)
      | Some ns \<Rightarrow> Inr (st(PyPrimitivesC \<mapsto> ns)))"
| "load_module w n m st =
     (if \<not> installed w m then Inl (ModuleNotFoundError m)
      else run_module w n m (module_source m) (st(m \<mapsto> (\<lambda>nm. None))))"
| "run_module w n m [] st = Inr st"
| "run_module w n m (Define nm # ss) st =
     (case st m of
        None \<Rightarrow> Inl (ModuleNotFoundError m)
      | Some ns \<Rightarrow> run_module w n m ss (st(m \<mapsto> ns(nm \<mapsto> (m, nm)))))"
| "run_module w n m (BindPosixShm # ss) st =
     (case st m of
        None \<Rightarrow> Inl (ModuleNotFoundError m)
      | Some ns \<Rightarrow>
          (case bind_posix_shm w ns of Inl e \<Rightarrow> Inl e | Inr ns' \<Rightarrow> run_module w n m ss (st(m \<mapsto> ns'))))"
| "run_module w n m (ImportModule x # ss) st =
     (case import_module w n x st of Inl e \<Rightarrow> Inl e | Inr st1 \<Rightarrow> run_module w n m ss st1)"
| "run_module w n m (FromImport x names # ss) st =
     (case import_module w n x st of
        Inl e \<Rightarrow> Inl e
      | Inr st1 \<Rightarrow>
          (case (st1 x, st1 m) of
             (Some from_ns, Some ns) \<Rightarrow>
               (case bind_names x from_ns names ns of
                  Inl e \<Rightarrow> Inl e
                | Inr ns' \<Rightarrow> run_module w n m ss (st1(m \<mapsto> ns')))
           | _ \<Rightarrow> Inl (ModuleNotFoundError x)))"
  by pat_completeness auto
termination
  by (relation "measures [\<lambda>x. case x of Inl (w, n, m, st) \<Rightarrow> n | Inr (Inl (w, n, m, st)) \<Rightarrow> n | Inr (Inr (w, n, m, ss, st)) \<Rightarrow> n,
      \<lambda>x. case x of Inl _ \<Rightarrow> 0 | Inr (Inl _) \<Rightarrow> 2 | Inr (Inr _) \<Rightarrow> 1,
      \<lambda>x. case x of Inr (Inr (w, n, m, ss, st)) \<Rightarrow> length ss | _ \<Rightarrow> 0]") auto

section \<open>A complete installation\<close>

definition required_modules :: "(string \<times> string list) list" where
  "required_modules =
     [(''__future__'', [''annotations'']), (''atexit'', []), (''errno'', []), (''mmap'', []), (''os'', []),
      (''random'', []), (''time'', [''monotonic_ns'']), (''typing'', [''Optional'']), (''ctypes.util'', []),
      (''functools'', [''lru_cache'', ''cached_property'']), (''numpy'', []), (''optree'', []),
      (''ctypes'', [''Structure'', ''c_char'', ''c_int'', ''c_int64'', ''c_uint64'', ''c_ubyte'', ''sizeof''])]"

definition package_dirs :: "string list" where
  "package_dirs = [''fastipc'', ''fastipc.sync'', ''fastipc._primitives'', ''fastipc.data'', ''fastipc.nptree'']"

definition complete_world :: "world \<Rightarrow> bool" where
  "complete_world w \<longleftrightarrow>
     (\<exists>machine find_packages d. setup_py ''linux'' machine find_packages = Inr d \<and> w_dist w = Some d \<and>
        set package_dirs \<subseteq> set (find_packages ''src'')) \<and>
     w_module_create w \<and> (\<forall>ty. w_type_ready w ty) \<and>
     (\<forall>(m, names) \<in> set required_modules. \<exists>ns. w_external w m = Some ns \<and> set names \<subseteq> set ns)"

section \<open>Lemmas\<close>

lemmas source_defs = utils_py_def gsm_imports_def gsm_bindings_def guarded_shared_memory_py_def named_event_py_def
  named_mutex_py_def named_semaphore_py_def named_history_buffer_py_def named_queue_py_def schema_py_def
  primitives_names_def primitives_init_py_def sync_init_py_def fastipc_init_py_def

lemma complete_installed:
  assumes "complete_world w"
  shows "installed w m"
proof -
  have "package_of m \<in> set package_dirs" by (cases m) (simp_all add: package_dirs_def)
  with assms show ?thesis
    by (auto simp: complete_world_def installed_def setup_py_def primitives_ext_def split: if_splits)
qed

lemma PyInit_ready:
  assumes "\<forall>ty. ready ty"
  shows "PyInit__primitives True ready = Some [''FutexWord'' \<mapsto> (PyPrimitivesC, ''FutexWord''),
    ''AtomicU32'' \<mapsto> (PyPrimitivesC, ''AtomicU32''), ''AtomicU64'' \<mapsto> (PyPrimitivesC, ''AtomicU64''),
    ''Mutex'' \<mapsto> (PyPrimitivesC, ''Mutex''), ''Semaphore'' \<mapsto> (PyPrimitivesC, ''Semaphore'')]"
  using assms by (simp add: PyInit__primitives_def)

text \<open>What the import of the package itself leaves behind.\<close>

definition defined_in :: "string \<Rightarrow> module" where
  \<comment> \<open>the module whose body defines an exported name\<close>
  "defined_in nm =
     (case map_of [(''align_to_cacheline_size'', PyUtils), (''GuardedSharedMemory'', PyGsm),
         (''NoShmFoundError'', PyGsm), (''NamedEvent'', PyNamedEvent), (''NamedMutex'', PyNamedMutex),
         (''NamedSemaphore'', PyNamedSemaphore)] nm of
        Some m \<Rightarrow> m
      | None \<Rightarrow> PyPrimitivesC)"

definition exports :: "(module \<times> string \<times> module) list" where
  \<comment> \<open>for every name of \<open>__all__\<close> of a package, the package, the name and the defining module\<close>
  "exports = map (\<lambda>nm. (PyFastipc, nm, defined_in nm)) fastipc_names @
     map (\<lambda>nm. (PySync, nm, defined_in nm)) sync_names @
     map (\<lambda>nm. (PyPrimitives, nm, defined_in nm)) primitives_names"

lemmas exports_simps = exports_def defined_in_def fastipc_names_def sync_names_def primitives_names_def

definition exported :: "sys_modules \<Rightarrow> bool" where
  "exported st \<longleftrightarrow> list_all (\<lambda>(m, nm, d). \<exists>ns. st m = Some ns \<and> ns nm = Some (d, nm)) exports"

definition has_names :: "sys_modules \<Rightarrow> module \<Rightarrow> string list \<Rightarrow> bool" where
  "has_names st m names \<longleftrightarrow> (\<exists>ns. st m = Some ns \<and> list_all (\<lambda>nm. ns nm \<noteq> None) names)"

definition core_modules :: "module list" where
  "core_modules = [PyFastipc, PyUtils, PyGsm, PySync, PyNamedEvent, PyNamedMutex, PyNamedSemaphore, PyPrimitives, PyPrimitivesC]"

definition other_modules :: "module list" where
  "other_modules = [PyData, PyHistory, PyQueue, PyNptree, PySchema]"

lemma required:
  assumes "complete_world w" and "(m, names) \<in> set required_modules"
  shows "\<exists>ns. w_external w m = Some ns \<and> set names \<subseteq> set ns"
  using assms by (auto simp: complete_world_def)

lemma import_fastipc:
  assumes w: "complete_world w" and l: "load_posix_shm_lib (w_dlopen w) (w_find_library w) 0 = Inr lib"
    "has_symbol lib ''shm_open''" "has_symbol lib ''shm_unlink''"
  shows "\<exists>st. (\<forall>k. import_module w (k + 9) PyFastipc (\<lambda>m. None) = Inr st) \<and> exported st \<and>
    list_all (\<lambda>m. st m \<noteq> None) core_modules \<and> list_all (\<lambda>m. st m = None) other_modules \<and>
    has_names st PyGsm [''GuardedSharedMemory''] \<and> has_names st (External ''__future__'') [''annotations''] \<and>
    has_names st (External ''time'') [''monotonic_ns''] \<and> st (External ''functools'') = None \<and>
    st (External ''numpy'') = None \<and> st (External ''optree'') = None \<and>
    has_names st (External ''ctypes'')
      [''Structure'', ''c_char'', ''c_int'', ''c_int64'', ''c_uint64'', ''c_ubyte'', ''sizeof'']"
proof -
  note inst = complete_installed [OF w]
  have rd: "\<forall>ty. w_type_ready w ty" and mc: "w_module_create w" using w by (simp_all add: complete_world_def)
  note r = required [OF w]
  obtain os fu at er mm ra where e1: "w_external w ''os'' = Some os" "w_external w ''__future__'' = Some fu"
    "''annotations'' \<in> set fu" "w_external w ''atexit'' = Some at" "w_external w ''errno'' = Some er"
    "w_external w ''mmap'' = Some mm" "w_external w ''random'' = Some ra"
    using r [of "''os''" "[]"] r [of "''__future__''" "[''annotations'']"] r [of "''atexit''" "[]"]
      r [of "''errno''" "[]"] r [of "''mmap''" "[]"] r [of "''random''" "[]"] by (auto simp: required_modules_def)
  obtain ti ty cu ct where e2: "w_external w ''time'' = Some ti" "''monotonic_ns'' \<in> set ti"
    "w_external w ''typing'' = Some ty" "''Optional'' \<in> set ty" "w_external w ''ctypes.util'' = Some cu"
    "w_external w ''ctypes'' = Some ct"
    "set [''Structure'', ''c_char'', ''c_int'', ''c_int64'', ''c_uint64'', ''c_ubyte'', ''sizeof''] \<subseteq> set ct"
    using r [of "''time''" "[''monotonic_ns'']"] r [of "''typing''" "[''Optional'']"] r [of "''ctypes.util''" "[]"]
      r [of "''ctypes''" "[''Structure'', ''c_char'', ''c_int'', ''c_int64'', ''c_uint64'', ''c_ubyte'', ''sizeof'']"]
    by (auto simp: required_modules_def)
  show ?thesis
    using e2(7) by (simp add: eval_nat_numeral source_defs inst mc PyInit_ready [OF rd] bind_posix_shm_def l e1 e2(1-6)
        exported_def exports_simps core_modules_def other_modules_def has_names_def)
qed

lemma import_failing:
  assumes w: "complete_world w" and l: "load_posix_shm_lib (w_dlopen w) (w_find_library w) 0 = Inl e"
  shows "import_module w (k + 9) PyFastipc (\<lambda>m. None) = Inl (Raised e)"
proof -
  note inst = complete_installed [OF w] and r = required [OF w]
  obtain os at er mm ra ti ty cu ct where e: "w_external w ''os'' = Some os" "w_external w ''atexit'' = Some at"
    "w_external w ''errno'' = Some er" "w_external w ''mmap'' = Some mm" "w_external w ''random'' = Some ra"
    "w_external w ''time'' = Some ti" "w_external w ''typing'' = Some ty" "''Optional'' \<in> set ty"
    "w_external w ''ctypes.util'' = Some cu" "w_external w ''ctypes'' = Some ct"
    using r [of "''os''" "[]"] r [of "''atexit''" "[]"] r [of "''errno''" "[]"] r [of "''mmap''" "[]"]
      r [of "''random''" "[]"] r [of "''time''" "[''monotonic_ns'']"] r [of "''typing''" "[''Optional'']"]
      r [of "''ctypes.util''" "[]"]
      r [of "''ctypes''" "[''Structure'', ''c_char'', ''c_int'', ''c_int64'', ''c_uint64'', ''c_ubyte'', ''sizeof'']"]
    by (auto simp: required_modules_def)
  show ?thesis by (simp add: eval_nat_numeral source_defs inst bind_posix_shm_def l e)
qed

text \<open>Every module of the package is imported after the package itself.\<close>

lemma parent_first:
  assumes "m \<in> set (core_modules @ other_modules)" and "\<And>k. import_module w (k + 9) PyFastipc (\<lambda>m. None) = r"
  shows "case r of Inl e \<Rightarrow> import_module w (k + 12) m (\<lambda>m. None) = Inl e
    | Inr st \<Rightarrow> list_all (\<lambda>m. st m \<noteq> None) core_modules \<longrightarrow> m \<in> set core_modules \<longrightarrow>
        import_module w (k + 12) m (\<lambda>m. None) = Inr st"
proof -
  have i: "import_module w (Suc (Suc (Suc (Suc (Suc (Suc (Suc (Suc (Suc k))))))))) PyFastipc (\<lambda>m. None) = r" for k
    using assms(2) [of k] by (simp add: eval_nat_numeral del: import_module.simps)
  show ?thesis
    using assms(1) i by (auto simp: core_modules_def other_modules_def eval_nat_numeral split: sum.split)
qed

lemma exported_upd:
  assumes "exported st" and "m \<notin> {PyFastipc, PySync, PyPrimitives}"
  shows "exported (st(m := x))"
proof -
  have "fst e \<noteq> m" if "e \<in> set exports" for e using that assms(2) by (auto simp: exports_simps)
  with assms(1) show ?thesis by (fastforce simp: exported_def list_all_iff)
qed

lemma import_others:
  assumes w: "complete_world w" and st: "\<And>k. import_module w (k + 9) PyFastipc (\<lambda>m. None) = Inr st"
    and ex: "exported st" and core: "list_all (\<lambda>m. st m \<noteq> None) core_modules"
    and other: "list_all (\<lambda>m. st m = None) other_modules"
    and n: "has_names st PyGsm [''GuardedSharedMemory'']" "has_names st (External ''__future__'') [''annotations'']"
      "has_names st (External ''time'') [''monotonic_ns'']" "st (External ''functools'') = None"
      "st (External ''numpy'') = None" "st (External ''optree'') = None"
      "has_names st (External ''ctypes'')
        [''Structure'', ''c_char'', ''c_int'', ''c_int64'', ''c_uint64'', ''c_ubyte'', ''sizeof'']"
    and m: "m \<in> set other_modules"
  shows "\<exists>st'. import_module w (k + 12) m (\<lambda>m. None) = Inr st' \<and> st' m \<noteq> None \<and> exported st'"
proof -
  have child: "import_module w (k + 10) x (\<lambda>m. None) = load_module w (k + 9) x st"
    if "parent x = Some PyFastipc" "st x = None" for k x
  proof -
    have "import_module w (Suc (k + 9)) x (\<lambda>m. None) = load_module w (k + 9) x st"
      using that st [of k] by (simp only: import_module.simps) simp
    moreover have "k + 10 = Suc (k + 9)" by simp
    ultimately show ?thesis by (simp only:)
  qed
  note inst = complete_installed [OF w] and r = required [OF w]
  obtain ft np op where e: "w_external w ''functools'' = Some ft" "''lru_cache'' \<in> set ft" "''cached_property'' \<in> set ft"
    "w_external w ''numpy'' = Some np" "w_external w ''optree'' = Some op"
    using r [of "''functools''" "[''lru_cache'', ''cached_property'']"] r [of "''numpy''" "[]"] r [of "''optree''" "[]"]
    by (auto simp: required_modules_def)
  obtain fa gs pr fu ti ct where c: "st PyFastipc = Some fa" "st PyGsm = Some gs" "st PyPrimitives = Some pr"
    "st (External ''__future__'') = Some fu" "st (External ''time'') = Some ti" "st (External ''ctypes'') = Some ct"
    using n core by (auto simp: has_names_def core_modules_def)
  obtain o1 o2 o3 o4 where f: "gs ''GuardedSharedMemory'' = Some o1" "fu ''annotations'' = Some o2"
    "ti ''monotonic_ns'' = Some o3" "pr ''Mutex'' = Some o4"
    using n(1-3) c ex by (auto simp: has_names_def exported_def exports_simps)
  obtain c1 c2 c3 c4 c5 c6 c7 where g: "ct ''Structure'' = Some c1" "ct ''c_char'' = Some c2" "ct ''c_int'' = Some c3"
    "ct ''c_int64'' = Some c4" "ct ''c_uint64'' = Some c5" "ct ''c_ubyte'' = Some c6" "ct ''sizeof'' = Some c7"
    using n(7) c by (auto simp: has_names_def)
  have o: "st PyData = None" "st PyHistory = None" "st PyQueue = None" "st PyNptree = None" "st PySchema = None"
    using other by (simp_all add: other_modules_def)
  have d: "import_module w (k + 10) PyData (\<lambda>m. None) = Inr (st(PyData \<mapsto> (\<lambda>nm. None)))"
    "import_module w (k + 10) PyNptree (\<lambda>m. None) = Inr (st(PyNptree \<mapsto> (\<lambda>nm. None)))" for k
    by (simp_all add: child o inst del: import_module.simps)
  have step: "import_module w (k + 12) x (\<lambda>m. None) = load_module w (k + 11) x st1"
    if "parent x = Some y" "import_module w (k + 11) y (\<lambda>m. None) = Inr st1" "st1 x = None" for x y st1
  proof -
    have "import_module w (Suc (k + 11)) x (\<lambda>m. None) = load_module w (k + 11) x st1"
      using that by (simp only: import_module.simps) simp
    moreover have "k + 12 = Suc (k + 11)" by simp
    ultimately show ?thesis by (simp only:)
  qed
  have d11: "import_module w (k + 11) PyData (\<lambda>m. None) = Inr (st(PyData \<mapsto> (\<lambda>nm. None)))"
    "import_module w (k + 11) PyNptree (\<lambda>m. None) = Inr (st(PyNptree \<mapsto> (\<lambda>nm. None)))"
    using d [of "k + 1"] by (simp_all only: add.assoc one_plus_numeral numeral_plus_one semiring_norm add_num_simps)
  have d12: "import_module w (k + 12) PyData (\<lambda>m. None) = Inr (st(PyData \<mapsto> (\<lambda>nm. None)))"
    "import_module w (k + 12) PyNptree (\<lambda>m. None) = Inr (st(PyNptree \<mapsto> (\<lambda>nm. None)))"
    using d [of "k + 2"] by (simp_all only: add.assoc numeral_plus_numeral semiring_norm add_num_simps)
  note ev = eval_nat_numeral inst source_defs e c f g o n(4-6)
  from m consider "m = PyData" | "m = PyHistory" | "m = PyQueue" | "m = PyNptree" | "m = PySchema"
    by (auto simp: other_modules_def)
  then show ?thesis
  proof cases
    case 1
    then show ?thesis using ex by (simp add: d12 exported_upd)
  next
    case 2
    then show ?thesis using ex step [OF _ d11(1), of PyHistory] by (simp add: ev exported_upd)
  next
    case 3
    then show ?thesis using ex step [OF _ d11(1), of PyQueue] by (simp add: ev exported_upd)
  next
    case 4
    then show ?thesis using ex by (simp add: d12 exported_upd)
  next
    case 5
    then show ?thesis using ex step [OF _ d11(2), of PySchema] by (simp add: ev exported_upd)
  qed
qed

section \<open>Properties\<close>

text \<open>
  C40. The package can be imported, beginning with any of its modules, whatever the order in which its
  files import each other: after a build on Linux, where the modules that it needs are there,
  the import of each module ends, and every name that \<open>__all__\<close> of \<open>fastipc\<close>,
  \<open>fastipc.sync\<close> and \<open>fastipc._primitives\<close> lists is bound to the object of the
  module that defines it. Where the process finds no library with the two shared memory functions, the
  import of each module of the package raises the error of that search, because the package itself
  imports \<open>guarded_shared_memory\<close> first.
\<close>

theorem package_imports:
  assumes "complete_world w" and "m \<in> set (core_modules @ other_modules)"
  shows "case load_posix_shm_lib (w_dlopen w) (w_find_library w) 0 of
      Inl ex \<Rightarrow> import_module w (k + 12) m (\<lambda>m. None) = Inl (Raised ex)
    | Inr lib \<Rightarrow> \<exists>st. import_module w (k + 12) m (\<lambda>m. None) = Inr st \<and> st m \<noteq> None \<and> exported st"
proof (cases "load_posix_shm_lib (w_dlopen w) (w_find_library w) 0")
  case (Inl e)
  from parent_first [OF assms(2) import_failing [OF assms(1) Inl]] show ?thesis by (simp add: Inl)
next
  case (Inr lib)
  then have "exposes_shm lib"
    by (auto simp: load_posix_shm_lib_def Let_def split: option.splits dest: find_exposes)
  then have "has_symbol lib ''shm_open''" "has_symbol lib ''shm_unlink''" by (simp_all add: exposes_shm_def)
  from import_fastipc [OF assms(1) Inr this] obtain st where
    st: "\<And>k. import_module w (k + 9) PyFastipc (\<lambda>m. None) = Inr st" and ex: "exported st"
    and core: "list_all (\<lambda>m. st m \<noteq> None) core_modules" and other: "list_all (\<lambda>m. st m = None) other_modules"
    and n: "has_names st PyGsm [''GuardedSharedMemory'']" "has_names st (External ''__future__'') [''annotations'']"
      "has_names st (External ''time'') [''monotonic_ns'']" "st (External ''functools'') = None"
      "st (External ''numpy'') = None" "st (External ''optree'') = None"
      "has_names st (External ''ctypes'')
        [''Structure'', ''c_char'', ''c_int'', ''c_int64'', ''c_uint64'', ''c_ubyte'', ''sizeof'']"
    by blast
  have "\<exists>st'. import_module w (k + 12) m (\<lambda>m. None) = Inr st' \<and> st' m \<noteq> None \<and> exported st'"
  proof (cases "m \<in> set core_modules")
    case True
    with parent_first [OF assms(2) st] core have "import_module w (k + 12) m (\<lambda>m. None) = Inr st"
      by (simp del: import_module.simps)
    moreover have "st m \<noteq> None" using core True by (auto simp: list_all_iff)
    ultimately show ?thesis using ex by blast
  next
    case False
    with assms(2) have "m \<in> set other_modules" by simp
    from import_others [OF assms(1) st ex core other n this] show ?thesis .
  qed
  with Inr show ?thesis by simp
qed

definition linux_world :: world where
  \<comment> \<open>a machine with the package installed\<close>
  "linux_world =
     \<lparr>w_dist = Some (case setup_py ''linux'' ''x86_64'' (\<lambda>d. package_dirs) of Inr d \<Rightarrow> d),
      w_module_create = True, w_type_ready = (\<lambda>ty. True), w_external = map_of required_modules,
      w_dlopen = (\<lambda>p. Some [''shm_open'', ''shm_unlink'']), w_find_library = (\<lambda>x. None)\<rparr>"

theorem package_imports_witness:
  "complete_world linux_world \<and>
   (\<exists>st. import_module linux_world (0 + 12) PyQueue (\<lambda>m. None) = Inr st \<and> st PyQueue \<noteq> None \<and> exported st)"
proof -
  have c: "complete_world linux_world"
    by (auto simp: complete_world_def linux_world_def setup_py_def required_modules_def
        intro!: exI [of _ "''x86_64''"] exI [of _ "\<lambda>d. package_dirs"])
  have "load_posix_shm_lib (w_dlopen linux_world) (w_find_library linux_world) 0 =
      Inr \<lparr>lib_id = 0, lib_name = None, lib_exports = [''shm_open'', ''shm_unlink'']\<rparr>"
    by (simp add: linux_world_def load_posix_shm_lib_def try_self_def try_librt_def try_libc_def open_lib_def
        exposes_shm_def has_symbol_def)
  with c package_imports [OF c, of PyQueue 0] show ?thesis by (simp add: other_modules_def del: import_module.simps)
qed

end
