(* ===== verification/Demos.thy ===== *)
theory Demos
  imports Nptree_Correct History_Shared
begin

text \<open>
  The demonstrations that two modules run as scripts, and what they print. Printing itself is left out: a script gives the values that it prints.
\<close>

section \<open>The scripts\<close>

definition schema_main :: "('a, 'd) numpy \<Rightarrow> ('s, 'a leaf) pytree \<Rightarrow>
    (('s, string) pytree \<times> nat \<times> ('s, 'a leaf) pytree) res" where
  \<comment> \<open>the tree of the example, which \<open>numpy\<close> builds, is an argument; the alignment is the default\<close>
  "schema_main np tree =
     res_bind (build_nptree_layout np tree 8) (\<lambda>layout.
     res_bind (serialize_nptree np tree layout None) (\<lambda>buffer.
     res_bind (deserialize_nptree np layout (Some buffer)) (\<lambda>parsed_tree.
     Inr (layout, length buffer, parsed_tree))))"

definition history_main :: "string option \<Rightarrow> nat \<Rightarrow> init_env \<Rightarrow> init_env \<Rightarrow> os \<Rightarrow> pystr res \<times> os" where
  "history_main environ pid ie ie2 s =
     (case NamedHistoryBuffer_init environ pid ''test_buffer'' ie ie2 s of
        (Inl e, s1) \<Rightarrow> (Inl e, s1)
      | (Inr hb, s1) \<Rightarrow>
          (case gsm_buf hb of
             Inl e \<Rightarrow> (Inl e, s1)
           | Inr ino \<Rightarrow> (get_meta (os_ino s1 ino), s1)))"

section \<open>What they print\<close>

text \<open>
  The script of \<open>schema.py\<close> prints a layout, a size that is the layout's size, and the tree that it
  started from.
\<close>

lemma schema_main_prints:
  assumes "numpy_api np good" and "pt_leaves tree = map NdArray as" and "\<forall>a \<in> set as. good a"
  shows "\<exists>layout n. schema_main np tree = Inr (layout, n, tree) \<and>
    build_nptree_layout np tree 8 = Inr layout \<and> calc_buffer_size np layout = Inr (int n)"
proof -
  have a: "(8 :: int) = 2 ^ 3" "0 < (2 ^ 3 :: int)" by simp_all
  note l = numpy_api.build_layout [OF assms(1) a(2) pow2_check assms(2)]
  note c = numpy_api.buffer_size_layout [OF assms(1,3), of "2 ^ 3" "pt_structure tree"]
  from serialize_deserialize [OF assms l c, of None] obtain buf where
    "serialize_nptree np tree (numpy_api.layout_of np (2 ^ 3) (pt_structure tree) as) None = Inr buf"
    "deserialize_nptree np (numpy_api.layout_of np (2 ^ 3) (pt_structure tree) as) (Some buf) = Inr tree"
    "int (length buf) = numpy_api.placed_size np (2 ^ 3) as" by auto
  then show ?thesis using l c unfolding schema_main_def a(1) by simp
qed

text \<open>
  The script of \<open>named_history_buffer.py\<close> prints the metadata that another process has created the
  buffer with, as long as no message has been published.
\<close>

lemma history_main_prints:
  assumes "os_shm s (CHR ''/'' # hb_shm_name ''test_buffer'') = None"
    and "1 \<le> num_slots" and "num_slots < 2 ^ 64" and "0 \<le> slot_size" and "slot_size < 2 ^ 64"
    and "\<forall>c \<in> set meta. scalar c" and "length (utf8_encode meta) < 2 ^ 64"
  shows "\<exists>g s1 s2. NamedHistoryBuffer_create environ pid ''test_buffer'' num_slots slot_size meta quiet_init s = (Inr g, s1) \<and>
    history_main environ' pid' quiet_init quiet_init s1 = (Inr meta, s2)"
proof -
  have nm: "''test_buffer'' \<noteq> []" "CHR ''/'' \<notin> set ''test_buffer''" by simp_all
  from create_segment [OF nm assms, of environ pid] obtain g ino s1 where
    c: "NamedHistoryBuffer_create environ pid ''test_buffer'' num_slots slot_size meta quiet_init s = (Inr g, s1)"
    "os_shm s1 (CHR ''/'' # hb_shm_name ''test_buffer'') = Some ino" "hb_rel [] (os_ino s1 ino)"
    "calc_total_size (hb_header_at (os_ino s1 ino)) = int (length (os_ino s1 ino))"
    "get_meta (os_ino s1 ino) = Inr meta" by blast
  from attach_history [OF nm(2) c(2,3), of environ' pid'] c(4) obtain h s2 where
    h: "NamedHistoryBuffer_init environ' pid' ''test_buffer'' quiet_init quiet_init s1 = (Inr h, s2)" "gsm_buf h = Inr ino"
    "get_meta (os_ino s2 ino) = get_meta (os_ino s1 ino)" by auto
  then show ?thesis using c(1,5) by (simp add: history_main_def)
qed

end
