(* ===== verification/Spec2Isabelle.thy ===== *)
theory Spec2Isabelle
  imports Mutex_Safety Mutex_Linear Semaphore_Safety Event_Safety Named Named_Shared Gsm_System Loader
    History_Threads_Safety History_Machine History_Shared NQueue Nptree_Correct Nptree_History
    Atomics Lifetime_Safety Semaphore_Progress Named_Semaphore Gsm_Rely
    Mutex_Progress Named_Event Package Demos
begin

text \<open>
  Verification of pyfastipc: inter-process synchronisation and data exchange over POSIX shared
  memory.

  \<^bold>\<open>The program.\<close> A C extension (\<open>src/src/fastipc/_primitives/_primitives.c\<close>) gives
  Python the primitives \<open>FutexWord\<close>, \<open>AtomicU32\<close>, \<open>AtomicU64\<close>,
  \<open>Mutex\<close> and \<open>Semaphore\<close> on a buffer. \<open>guarded_shared_memory.py\<close> creates
  and attaches named segments, tracks their users with one file per process in a PID directory, and
  unlinks a segment when its last user closes it. \<open>sync/\<close> puts an event, a mutex and a
  semaphore into such segments. \<open>data/\<close> has a history buffer (a ring of slots with an
  embedded writer mutex) and the beginning of a queue. \<open>nptree/schema.py\<close> lays out trees of
  numpy arrays in one buffer.

  \<^bold>\<open>Theories.\<close>
  \<^item> \<open>Prelude\<close>: exceptions as values (\<open>pyexc\<close>, \<open>'a res\<close>), bytes,
    little-endian cells of a buffer (locales \<open>cell\<close>, \<open>two_cells\<close>), slices of
    \<open>bytearray\<close> and \<open>memoryview\<close>, rounding. \<open>Decimal\<close>: \<open>str\<close> and
    \<open>int\<close> of numbers, \<open>split\<close> and \<open>join\<close>. \<open>Utf8\<close>: the strict codec.
    \<open>Transition\<close>: reachable states, the locales \<open>inductive_invariant\<close> and
    \<open>forward_simulation\<close>.
  \<^item> \<open>Futex\<close>: \<open>FutexWord\<close>, the conversions of the argument parser, and the contract of
    \<open>FUTEX_WAKE\<close> (locale \<open>futex_kernel\<close>). \<open>Atomics\<close>: the atomic integers and
    \<open>utils.align_to_cacheline_size\<close>.
  \<^item> \<open>Mutex\<close>, \<open>Mutex_Safety\<close>: the header of 64 bytes; every method of the C mutex as a
    machine whose actions are the atomic operations and system calls of the C function
    (\<open>FutexMutex_acquire_fast\<close> and so on), run by any number of threads of any processes under
    an arbitrary scheduler. The proofs go through the rules \<open>mx_effect\<close> that all methods
    refine: mutual exclusion, for all clients that release only what they hold; the types of the header fields and of the wait queue for arbitrary clients; the
    wake-up guarantee, the bound of a non-blocking acquisition, and the race of a release with an acquisition that leaves the
    lock held without an owner. \<open>Mutex_Linear\<close>: the calls and returns of every such run are a history of an
    atomic lock with one owner (\<open>lock_history\<close>), in which each call takes effect once between its
    invocation and its return and the result is what that move gave. \<open>Mutex_Progress\<close>: the mutex does not deadlock, a free lock that
    somebody waits for is taken within four actions. \<open>Mutex_Calls\<close>: the calls of a thread that nobody interferes with on bytes, for components
    that embed a mutex: an acquisition gets the lock, is refused, or marks the lock as contended and goes to sleep.
  \<^item> \<open>Semaphore\<close>, \<open>Semaphore_Safety\<close>: the same for the semaphore: conservation of tokens,
    the wake-up guarantee for one waiter and its failure for two, from any state with two sleepers and for any
    kernel, waits that never take a token.
    \<open>Semaphore_Progress\<close>: bounds on the actions of a \<open>post\<close>, which only successful
    operations of others can delay, and of a non-blocking \<open>wait\<close> (locale
    \<open>sem_potential\<close>). \<open>Semaphore_Calls\<close>: calls on bytes that nobody interferes with, with the
    spurious failures of the weak compare-and-swap, equal to an abstract counter and to runs of the machine.
  \<^item> \<open>Lifetime\<close>, \<open>Lifetime_Safety\<close>: the memory behind the primitives: what their constructors
    and destructors do with buffers and reference counts, the \<open>memoryview\<close> and \<open>mmap\<close> objects
    of a handle and its \<open>detach\<close>. Reference counts are exact in every reachable state and memory is
    unmapped when nothing refers to it; a primitive on a slice keeps its memory, a primitive built on
    \<open>_buf\<close> itself, as the named objects build it, accesses unmapped memory after
    \<open>detach\<close>.
  \<^item> \<open>Event\<close>, \<open>Event_Safety\<close>: \<open>NamedEvent\<close> as a system of threads.
    \<open>Named\<close>: the constructors and method tables of \<open>NamedMutex\<close> and
    \<open>NamedSemaphore\<close>. \<open>Named_Shared\<close>: processes that share a mutex by its name, and the
    race of its creation, in which two processes hold it. The second of two processes marks the lock as contended
    and sleeps until the first releases it. \<open>Named_Semaphore\<close>: processes that visit
    a semaphore by its name are operations of one abstract counter, and the race of its creation, in which
    posted tokens are lost. \<open>Named_Event\<close>: the same race for an event, in which a \<open>set\<close>
    is lost.
  \<^item> \<open>Gsm\<close>, \<open>Gsm_Safety\<close>: the operating system state (\<open>os\<close>: segments,
    descriptors, PID directories, live processes) and \<open>GuardedSharedMemory\<close>: the retry loop of
    the constructor, \<open>close\<close>, \<open>unlink\<close>, \<open>detach\<close>. Every operation takes an
    environment that lets other processes act between its system calls and makes system calls fail.
    \<open>GuardedSharedMemory_new\<close> is the constructor call with the finaliser (\<open>__del__\<close>) of an object
    whose \<open>__init__\<close> raised, which closes it and may unlink the name, even of a segment in use; all named
    objects are built with it.
    \<open>Gsm_System\<close>: processes that open, write, close and die in any order, with at most one handle each, one
    call at a time and no failing system call, and the invariant that all open handles share the linked segment; \<open>get_num_procs\<close> counts them
    exactly, up to processes that died. \<open>Gsm_Rely\<close>: a rely condition on
    the system calls of others (locale \<open>tolerated\<close>), which the constructor and \<open>close\<close> of every other
    process satisfy however they overlap: an open handle keeps its descriptor, its segment at its size
    and its PID file. \<open>Loader\<close>: the search for the
    library that exports \<open>shm_open\<close>, equal to a reference search.
  \<^item> \<open>History\<close>, \<open>History_Correct\<close>: the history buffer on the bytes of its segment, and
    its refinement of a bounded message log (locale \<open>message_log\<close>). \<open>History_Shared\<close>:
    processes that share a buffer by name, the lifetime of a view without copying, and what
    \<open>create\<close> does to a live buffer.
    \<open>History_Threads\<close>, \<open>History_Threads_Safety\<close>: \<open>publish\<close> and
    \<open>get_latest\<close> as machines of loads and stores, composed with the machine of the writer mutex
    and run by any number of threads: writers exclude each other and extend one log, a reader returns a message of the log as long
    as no writer has begun to overwrite its slot, and a lapped reader may return bytes of two messages.
    \<open>History_Machine\<close>: without other threads the machines compute what the functions of
    \<open>History\<close> compute. \<open>NQueue\<close>: the queue.
  \<^item> \<open>Nptree\<close>, \<open>Nptree_Correct\<close>: layouts and serialisation. \<open>numpy\<close> is a record of
    functions with the contract \<open>numpy_api\<close>, interpreted on four plain dtypes; a tree of
    \<open>optree\<close> is its structure and its leaves. \<open>Nptree_History\<close>: a tree serialised, published
    in a history buffer, read and deserialised.
  \<^item> \<open>Package\<close>: \<open>setup.py\<close>, the initialisation of the C module, the module-level
    statements of every file, and Python's import on \<open>sys.modules\<close>: after a build every module can be
    imported, first or later, and the packages export what their \<open>__all__\<close> lists. \<open>Demos\<close>: the scripts under \<open>__main__\<close>
    of \<open>nptree\<close> and of the history buffer.

  \<^bold>\<open>Loops.\<close> Blocking loops are not run to an end: they are steps of a machine, and theorems speak
  about all reachable states or all finite runs. The non-blocking acquisition is shown to return
  within \<open>2 * spin + 4\<close> of its own steps; the body of \<open>publish\<close> ends within
  \<open>length data + 10\<close> steps and \<open>get_latest\<close> within the length of the segment plus 6; a non-blocking semaphore
  \<open>wait\<close> returns within \<open>2 * spin + 2\<close> steps, and a \<open>post\<close> within 3 plus 2 for every
  spurious failure and every change of the count by others. The retry loop of guarded shared memory recurses on
  the attempts that are left (\<open>max_attempts\<close>), as the source does. The import of
  \<open>Package\<close> recurses on fuel, which bounds the nesting of imports; 12 is shown to be enough for every
  module of the package.

  \<^bold>\<open>Assumptions.\<close> Atomic operations are sequentially consistent (the C code uses acquire and
  release orderings on single words). Little-endian targets. The functions of \<open>History\<close> and
  \<open>NQueue\<close> run without a concurrent writer; \<open>History_Threads\<close> has the interleavings of
  writers and readers, with the payload copied byte by byte. In \<open>Gsm_System\<close> the calls of
  different processes do not overlap, a process has one handle on the name at most, no system call fails, and the
  id of a dead process is not used again; \<open>gsm_two_handles_one_process\<close> and \<open>gsm_close_attach_race\<close> show what
  happens otherwise. What survives overlapping calls is the theorem of
  \<open>Gsm_Rely\<close>, the races of overlapping calls are theorems of \<open>Gsm_Safety\<close>,
  \<open>Named_Shared\<close> and \<open>Named_Semaphore\<close>. In \<open>Lifetime\<close> the reference counts and the
  buffer protocol of CPython are written out as documented. Strings are ASCII except for metadata, which are lists
  of code points; names of PID files fit into a process id.

  \<^bold>\<open>Not modelled.\<close> The \<open>repr\<close> functions and type tables of the C module and the type stub
  have no behaviour of their own; the tests call the modelled operations.
  \<open>align_dtype\<close> of the queue has no caller; the alias names of the semaphore's methods name the same functions. Timing (sleeps and back-off) has no
  counterpart, since the scheduler is arbitrary.
\<close>

end
